(* ===== verification/Py_Prelude.thy ===== *)
theory Py_Prelude
  imports Main "HOL-Library.Char_ord" "HOL-Library.List_Lexorder" "HOL-Library.AList"
begin

text \<open>
  The shared vocabulary of the development: exceptions as values, sequencing and loops over
  results, Python's ordered dictionaries as association lists, and the string operations of
  the standard library that the service scripts use.

  A Python \<open>str\<close> is modelled by its UTF-8 encoding, a \<^typ>\<open>string\<close> (a list of bytes). Byte order
  is then code-point order, splitting at ASCII separators is the same on both sides,
  \<open>len(s.encode("utf-8"))\<close> is \<^const>\<open>length\<close> and \<open>len(s)\<close> is \<open>py_len\<close> below. Case mapping and
  white space (\<open>casefold\<close>, \<open>lower\<close>, \<open>upper\<close>, \<open>strip\<close>, \<open>isspace\<close>) are those of ASCII.
\<close>

section \<open>Exceptions as values\<close>

text \<open>
  One constructor per exception class the scripts raise or let escape.
  \<open>V2Error code path\<close> is \<open>ManagedServicesV2Error\<close> with its two machine-readable
  fields. The other application errors carry a short tag naming the raise statement, since
  their messages are free text.
\<close>

datatype exn =
    V2Error (exn_code: string) (exn_path: string)
  | KeyError
  | TypeError
  | AttributeError
  | IndexError
  | ValueError string
  | UnicodeError
  | DeviceError string
  | SyncError string
  | JournalError string
  | OperationBusyError string
  | PermissionError
  | FileNotFoundError
  | FileExistsError
  | OSError
  | JSONDecodeError
  | RuntimeError string
  | SetupError string

type_synonym 'a res = "exn + 'a"

named_theorems res_simps "inversion of successful computations"
named_theorems dict_simps "lookup in an updated dictionary"

fun and_then :: "'e + 'a \<Rightarrow> ('a \<Rightarrow> 'e + 'b) \<Rightarrow> 'e + 'b" where
  "and_then (Inl e) f = Inl e"
| "and_then (Inr x) f = f x"

lemma and_then_cong [fundef_cong]:
  "m = m' \<Longrightarrow> (\<And>x. m' = Inr x \<Longrightarrow> f x = f' x) \<Longrightarrow> and_then m f = and_then m' f'"
  by (cases m') auto

lemma and_then_Inr_iff [res_simps]:
  "and_then m f = Inr y \<longleftrightarrow> (\<exists>x. m = Inr x \<and> f x = Inr y)"
  by (cases m) auto

lemma and_then_Inl_iff:
  "and_then m f = Inl e \<longleftrightarrow> m = Inl e \<or> (\<exists>x. m = Inr x \<and> f x = Inl e)"
  by (cases m) auto

lemma right_result: "\<not> isl m \<Longrightarrow> m = Inr (projr m)"
  by (cases m) auto

lemma and_then_assoc: "and_then (and_then m f) g = and_then m (\<lambda>x. and_then (f x) g)"
  by (cases m) auto

lemma and_then_Inr_right [simp]: "and_then m Inr = m"
  by (cases m) auto

lemma if_Inl_Inr_iff [res_simps]:
  "(if b then Inl e else m) = Inr y \<longleftrightarrow> \<not> b \<and> m = Inr y"
  by auto

subsection \<open>Loops\<close>

text \<open>
  \<open>for x in xs: body\<close>, where the body updates a state and may raise; a comprehension is
  \<open>map_res\<close>.
\<close>

fun for_each :: "'a list \<Rightarrow> ('a \<Rightarrow> 's \<Rightarrow> 'e + 's) \<Rightarrow> 's \<Rightarrow> 'e + 's" where
  "for_each [] f s = Inr s"
| "for_each (x # xs) f s = and_then (f x s) (for_each xs f)"

fun map_res :: "('a \<Rightarrow> 'e + 'b) \<Rightarrow> 'a list \<Rightarrow> 'e + 'b list" where
  "map_res f [] = Inr []"
| "map_res f (x # xs) = and_then (f x) (\<lambda>y. and_then (map_res f xs) (\<lambda>ys. Inr (y # ys)))"

definition check_all :: "'a list \<Rightarrow> ('a \<Rightarrow> 'e + unit) \<Rightarrow> 'e + unit" where
  "check_all xs f = for_each xs (\<lambda>x _. f x) ()"

lemma for_each_cong [fundef_cong]:
  "xs = ys \<Longrightarrow> s = t \<Longrightarrow> (\<And>x u. x \<in> set ys \<Longrightarrow> f x u = g x u) \<Longrightarrow> for_each xs f s = for_each ys g t"
proof (induction xs arbitrary: ys s t)
  case (Cons x xs)
  then show ?case by (cases "g x t") auto
qed simp

lemma map_res_cong [fundef_cong]:
  "xs = ys \<Longrightarrow> (\<And>x. x \<in> set ys \<Longrightarrow> f x = g x) \<Longrightarrow> map_res f xs = map_res g ys"
  by (induction xs arbitrary: ys) auto

lemma for_each_append:
  "for_each (xs @ ys) f s = and_then (for_each xs f s) (for_each ys f)"
proof (induction xs arbitrary: s)
  case (Cons x xs)
  then show ?case by (cases "f x s") simp_all
qed simp

lemma for_each_invariant:
  assumes "for_each xs f s = Inr s'" and "I s"
    and "\<And>x t t'. x \<in> set xs \<Longrightarrow> I t \<Longrightarrow> f x t = Inr t' \<Longrightarrow> I t'"
  shows "I s'"
  using assms by (induction xs arbitrary: s) (auto simp: res_simps)

lemma for_each_at:
  assumes "for_each (xs @ x # ys) f s = Inr s'"
  obtains t t' where "for_each xs f s = Inr t" "f x t = Inr t'" "for_each ys f t' = Inr s'"
  using assms by (auto simp: for_each_append res_simps)

lemma for_each_set_at:
  assumes "for_each zs f s = Inr s'" and "x \<in> set zs"
  obtains xs ys t t' where "zs = xs @ x # ys" "for_each xs f s = Inr t" "f x t = Inr t'"
    "for_each ys f t' = Inr s'"
proof -
  from assms(2) obtain xs ys where zs: "zs = xs @ x # ys" by (meson split_list)
  with assms(1) show ?thesis by (auto elim!: for_each_at intro: that)
qed

lemma check_all_Inr_iff [res_simps]:
  "check_all xs f = Inr u \<longleftrightarrow> (\<forall>x \<in> set xs. f x = Inr ())"
proof -
  have "for_each xs (\<lambda>x _. f x) () = Inr u \<longleftrightarrow> (\<forall>x \<in> set xs. f x = Inr ())"
    by (induction xs) (auto simp: res_simps)
  then show ?thesis by (simp add: check_all_def)
qed

lemma check_all_Nil [simp]: "check_all [] f = Inr ()"
  by (simp add: check_all_def)

lemma check_all_Cons [simp]:
  "check_all (x # xs) f = and_then (f x) (\<lambda>_. check_all xs f)"
  by (cases "f x") (auto simp: check_all_def)

lemma map_res_Inr_iff:
  "map_res f xs = Inr ys \<longleftrightarrow> list_all2 (\<lambda>x y. f x = Inr y) xs ys"
  by (induction xs arbitrary: ys) (auto simp: res_simps list_all2_Cons1)

lemma map_res_length: "map_res f xs = Inr ys \<Longrightarrow> length ys = length xs"
  by (simp add: map_res_Inr_iff list_all2_lengthD)

lemma map_res_member: "map_res f xs = Inr ys \<Longrightarrow> y \<in> set ys \<Longrightarrow> \<exists>x \<in> set xs. f x = Inr y"
  by (induction xs arbitrary: ys) (auto simp: res_simps)

section \<open>Ordered dictionaries\<close>

text \<open>
  A Python dictionary keeps insertion order: assigning to a present key keeps its position,
  a new key goes to the end. That is \<^const>\<open>AList.update\<close>.
\<close>

type_synonym ('k, 'v) dict = "('k \<times> 'v) list"

abbreviation dict_get :: "('k, 'v) dict \<Rightarrow> 'k \<Rightarrow> 'v option" where
  "dict_get d k \<equiv> map_of d k"

abbreviation dict_set :: "'k \<Rightarrow> 'v \<Rightarrow> ('k, 'v) dict \<Rightarrow> ('k, 'v) dict" where
  "dict_set k v d \<equiv> AList.update k v d"

definition dict_setdefault :: "'k \<Rightarrow> 'v \<Rightarrow> ('k, 'v) dict \<Rightarrow> ('k, 'v) dict" where
  "dict_setdefault k v d = (case dict_get d k of None \<Rightarrow> d @ [(k, v)] | Some _ \<Rightarrow> d)"

lemma dict_get_set [dict_simps]: "dict_get (dict_set k v d) k' = (if k' = k then Some v else dict_get d k')"
  by (simp add: update_conv)

lemma dict_get_setdefault [dict_simps]:
  "dict_get (dict_setdefault k v d) k' =
     (if k' = k \<and> dict_get d k = None then Some v else dict_get d k')"
  by (auto simp: dict_setdefault_def map_add_def split: option.splits)

lemma dict_setdefault_present [simp]:
  "dict_get d k \<noteq> None \<Longrightarrow> dict_setdefault k v d = d"
  by (auto simp: dict_setdefault_def)

lemma dict_setdefault_distinct:
  "distinct (map fst d) \<Longrightarrow> distinct (map fst (dict_setdefault k v d))"
  by (auto simp: dict_setdefault_def map_of_eq_None_iff split: option.splits)

lemma dict_set_same: "dict_get d k = Some v \<Longrightarrow> distinct (map fst d) \<Longrightarrow> dict_set k v d = d"
  by (induction d) auto

lemma dict_set_keys: "dict_get d k \<noteq> None \<Longrightarrow> map fst (dict_set k v d) = map fst d"
  by (induction d) auto

section \<open>Strings\<close>

abbreviation code :: "char \<Rightarrow> nat" where
  "code c \<equiv> of_char c"

definition is_lower :: "char \<Rightarrow> bool" where
  "is_lower c \<longleftrightarrow> 97 \<le> code c \<and> code c \<le> 122"

definition is_upper :: "char \<Rightarrow> bool" where
  "is_upper c \<longleftrightarrow> 65 \<le> code c \<and> code c \<le> 90"

definition is_digit :: "char \<Rightarrow> bool" where
  "is_digit c \<longleftrightarrow> 48 \<le> code c \<and> code c \<le> 57"

definition is_control :: "char \<Rightarrow> bool" where
  "is_control c \<longleftrightarrow> code c < 32 \<or> code c = 127"

text \<open>The class \<open>[0-9a-f]\<close> of the patterns.\<close>

definition lower_hex :: "char \<Rightarrow> bool" where
  "lower_hex c \<longleftrightarrow> is_digit c \<or> 97 \<le> code c \<and> code c \<le> 102"

text \<open>\<open>str.isspace\<close> on ASCII: tab to carriage return, the four separators and the blank.\<close>

definition is_space :: "char \<Rightarrow> bool" where
  "is_space c \<longleftrightarrow> (9 \<le> code c \<and> code c \<le> 13) \<or> (28 \<le> code c \<and> code c \<le> 32)"

definition lower_char :: "char \<Rightarrow> char" where
  "lower_char c = (if is_upper c then char_of (code c + 32) else c)"

definition upper_char :: "char \<Rightarrow> char" where
  "upper_char c = (if is_lower c then char_of (code c - 32) else c)"

definition casefold :: "string \<Rightarrow> string" where
  "casefold s = map lower_char s"

definition py_lower :: "string \<Rightarrow> string" where
  "py_lower s = map lower_char s"

definition py_upper :: "string \<Rightarrow> string" where
  "py_upper s = map upper_char s"

text \<open>\<open>len(s)\<close> counts code points: the bytes that are not UTF-8 continuation bytes.\<close>

definition py_len :: "string \<Rightarrow> nat" where
  "py_len s = length (filter (\<lambda>c. \<not> (128 \<le> code c \<and> code c < 192)) s)"

definition lstrip_chars :: "(char \<Rightarrow> bool) \<Rightarrow> string \<Rightarrow> string" where
  "lstrip_chars p s = dropWhile p s"

definition rstrip_chars :: "(char \<Rightarrow> bool) \<Rightarrow> string \<Rightarrow> string" where
  "rstrip_chars p s = rev (dropWhile p (rev s))"

definition py_strip :: "string \<Rightarrow> string" where
  "py_strip s = rstrip_chars is_space (lstrip_chars is_space s)"

text \<open>\<open>s.split(sep)\<close> for a one-character separator: always at least one part.\<close>

fun py_split :: "char \<Rightarrow> string \<Rightarrow> string list" where
  "py_split sep [] = [[]]"
| "py_split sep (c # cs) =
     (if c = sep then [] # py_split sep cs
      else (case py_split sep cs of [] \<Rightarrow> [[c]] | p # ps \<Rightarrow> (c # p) # ps))"

text \<open>\<open>s.split()\<close>: the maximal runs without white space.\<close>

fun split_words :: "string \<Rightarrow> string \<Rightarrow> string list" where
  "split_words w [] = (if w = [] then [] else [w])"
| "split_words w (c # cs) =
     (if is_space c then (if w = [] then [] else [w]) @ split_words [] cs else split_words (w @ [c]) cs)"

definition py_words :: "string \<Rightarrow> string list" where
  "py_words s = split_words [] s"

fun py_join :: "string \<Rightarrow> string list \<Rightarrow> string" where
  "py_join sep [] = []"
| "py_join sep [p] = p"
| "py_join sep (p # ps) = p @ sep @ py_join sep ps"

fun starts_with :: "string \<Rightarrow> string \<Rightarrow> bool" where
  "starts_with s [] = True"
| "starts_with [] (p # ps) = False"
| "starts_with (c # cs) (p # ps) = (c = p \<and> starts_with cs ps)"

text \<open>\<open>needle in s\<close>.\<close>

fun contains :: "string \<Rightarrow> string \<Rightarrow> bool" where
  "contains [] needle = (needle = [])"
| "contains (c # cs) needle = (starts_with (c # cs) needle \<or> contains cs needle)"

text \<open>\<open>str(n)\<close> for an integer.\<close>

fun nat_digits :: "nat \<Rightarrow> string" where
  "nat_digits n = (if n < 10 then [char_of (48 + n)] else nat_digits (n div 10) @ [char_of (48 + n mod 10)])"

declare nat_digits.simps [simp del]

definition int_str :: "int \<Rightarrow> string" where
  "int_str i = (if i < 0 then CHR ''-'' # nat_digits (nat (- i)) else nat_digits (nat i))"

text \<open>\<open>int(s)\<close> for a text of ASCII digits.\<close>

definition digits_nat :: "string \<Rightarrow> nat" where
  "digits_nat s = foldl (\<lambda>n c. 10 * n + (code c - 48)) 0 s"

subsection \<open>Facts about strings\<close>

lemma starts_with_iff: "starts_with s p \<longleftrightarrow> (\<exists>t. s = p @ t)"
  by (induction s p rule: starts_with.induct) auto

lemma contains_iff: "contains s needle \<longleftrightarrow> (\<exists>a b. s = a @ needle @ b)"
proof (induction s)
  case (Cons c cs)
  show ?case
  proof
    assume "contains (c # cs) needle"
    then consider t where "c # cs = needle @ t" | a b where "cs = a @ needle @ b"
      using Cons by (auto simp: starts_with_iff)
    then show "\<exists>a b. c # cs = a @ needle @ b"
    proof cases
      case 1
      then have "c # cs = [] @ needle @ t" by simp
      then show ?thesis by blast
    next
      case 2
      then have "c # cs = (c # a) @ needle @ b" by simp
      then show ?thesis by blast
    qed
  next
    assume "\<exists>a b. c # cs = a @ needle @ b"
    then obtain a b where ab: "c # cs = a @ needle @ b" by blast
    show "contains (c # cs) needle"
    proof (cases a)
      case Nil
      with ab have "starts_with (c # cs) needle" by (auto simp: starts_with_iff)
      then show ?thesis by simp
    next
      case (Cons d a')
      with ab have "\<exists>a b. cs = a @ needle @ b" by auto
      with \<open>contains cs needle \<longleftrightarrow> _\<close> show ?thesis by simp
    qed
  qed
qed auto

lemma py_split_not_Nil [simp]: "py_split sep s \<noteq> []"
  by (induction s) (auto split: list.splits)

lemma py_split_parts: "p \<in> set (py_split sep s) \<Longrightarrow> sep \<notin> set p"
  by (induction s arbitrary: p) (auto split: list.splits if_splits)

lemma py_split_chars: "p \<in> set (py_split sep s) \<Longrightarrow> set p \<subseteq> set s"
proof (induction s arbitrary: p)
  case (Cons c cs)
  then show ?case
    by (auto split: list.splits if_splits) blast+
qed auto

lemma py_join_split: "py_join [sep] (py_split sep s) = s"
proof (induction s)
  case (Cons c cs)
  then show ?case
    by (cases "py_split sep cs"; cases "tl (py_split sep cs)") (auto split: list.splits)
qed simp

lemma py_split_no_sep: "sep \<notin> set s \<Longrightarrow> py_split sep s = [s]"
  by (induction s) auto

lemma py_split_append:
  "sep \<notin> set p \<Longrightarrow> py_split sep (p @ sep # s) = p # py_split sep s"
  by (induction p) auto

lemma py_split_join:
  "ps \<noteq> [] \<Longrightarrow> (\<And>p. p \<in> set ps \<Longrightarrow> sep \<notin> set p) \<Longrightarrow> py_split sep (py_join [sep] ps) = ps"
proof (induction ps rule: induct_list012)
  case (3 p q ps)
  then show ?case by (simp add: py_split_append)
qed (auto simp: py_split_no_sep)

lemma code_less_256 [simp]: "code c < 256"
  by (cases c) (simp add: of_char_def horner_sum_simps less_eq_mask)

lemma code_lower_char: "code (lower_char c) = (if is_upper c then code c + 32 else code c)"
  by (simp add: lower_char_def is_upper_def)

lemma lower_char_idem [simp]: "lower_char (lower_char c) = lower_char c"
proof -
  have "\<not> is_upper (lower_char c)" by (simp add: is_upper_def code_lower_char)
  then show ?thesis by (simp add: lower_char_def)
qed

lemma casefold_idem [simp]: "casefold (casefold s) = casefold s"
  by (simp add: casefold_def)

lemma casefold_append [simp]: "casefold (s @ t) = casefold s @ casefold t"
  by (simp add: casefold_def)

lemma casefold_Cons [simp]: "casefold (c # s) = lower_char c # casefold s"
  by (simp add: casefold_def)

lemma casefold_Nil [simp]: "casefold [] = []"
  by (simp add: casefold_def)

lemma casefold_eq_Nil [simp]: "casefold s = [] \<longleftrightarrow> s = []"
  by (simp add: casefold_def)

lemma lower_char_eq_fixed:
  assumes "\<not> is_upper x" and "\<not> is_lower x"
  shows "lower_char c = x \<longleftrightarrow> c = x"
proof
  assume l: "lower_char c = x"
  show "c = x"
  proof (cases "is_upper c")
    case True
    then have "is_lower (lower_char c)" by (simp add: is_lower_def code_lower_char is_upper_def)
    with l assms show ?thesis by simp
  next
    case False
    with l show ?thesis by (simp add: lower_char_def)
  qed
qed (use assms in \<open>simp add: lower_char_def\<close>)

lemma lower_char_slash [simp]: "lower_char c = CHR ''/'' \<longleftrightarrow> c = CHR ''/''"
  by (rule lower_char_eq_fixed) (simp_all add: is_upper_def is_lower_def)

lemma lower_char_of_slash [simp]: "lower_char (CHR ''/'') = CHR ''/''"
  by simp

lemma casefold_split: "map casefold (py_split (CHR ''/'') s) = py_split (CHR ''/'') (casefold s)"
  by (induction s) (auto split: list.splits)

lemma casefold_join: "casefold (py_join sep ps) = py_join (casefold sep) (map casefold ps)"
  by (induction sep ps rule: py_join.induct) auto

lemma nat_digits_digits: "list_all is_digit (nat_digits n)"
proof (induction n rule: nat_digits.induct)
  case (1 n)
  have "is_digit (char_of (48 + m))" if "m < 10" for m :: nat
    using that by (simp add: is_digit_def of_char_of)
  with 1 show ?case by (subst nat_digits.simps) simp
qed

lemma digits_nat_snoc: "digits_nat (s @ [c]) = 10 * digits_nat s + (code c - 48)"
  by (simp add: digits_nat_def)

lemma digits_nat_digits: "digits_nat (nat_digits n) = n"
proof (induction n rule: nat_digits.induct)
  case (1 n)
  show ?case
  proof (cases "n < 10")
    case True
    then show ?thesis by (subst nat_digits.simps) (simp add: digits_nat_def)
  next
    case False
    have "digits_nat (nat_digits n) = 10 * digits_nat (nat_digits (n div 10)) + n mod 10"
      using False by (subst nat_digits.simps) (simp add: digits_nat_snoc)
    then show ?thesis using 1 False by simp
  qed
qed

lemma nat_digits_Cons: "\<exists>c cs. nat_digits n = c # cs"
  by (subst nat_digits.simps) (auto simp: neq_Nil_conv [symmetric])

lemma nat_digits_length: "n < 10 ^ Suc k \<Longrightarrow> length (nat_digits n) \<le> Suc k"
proof (induction k arbitrary: n)
  case 0
  then show ?case by (subst nat_digits.simps) simp
next
  case (Suc k)
  have "n div 10 < 10 ^ Suc k" using Suc.prems by (simp add: less_mult_imp_div_less)
  then have "length (nat_digits (n div 10)) \<le> Suc k" by (rule Suc.IH)
  then show ?case by (subst nat_digits.simps) simp
qed

text \<open>A number without leading zero is the print of its value.\<close>

lemma nat_digits_value:
  assumes "s \<noteq> []" and "list_all is_digit s" and "hd s \<noteq> CHR ''0''"
  shows "nat_digits (digits_nat s) = s \<and> 0 < digits_nat s"
  using assms
proof (induction s rule: rev_induct)
  case (snoc c s)
  have c: "48 \<le> code c" "code c - 48 < 10" "char_of (48 + (code c - 48)) = c"
    using snoc.prems(2) by (auto simp: is_digit_def)
  show ?case
  proof (cases "s = []")
    case True
    have "c \<noteq> CHR ''0''" using snoc.prems(3) True by simp
    moreover have "char_of (48 :: nat) = CHR ''0''" by code_simp
    ultimately have "code c \<noteq> 48" using c(3) by auto
    then show ?thesis using c True by (subst nat_digits.simps) (simp add: digits_nat_def)
  next
    case False
    have IH: "nat_digits (digits_nat s) = s" "0 < digits_nat s" using snoc False by auto
    have v: "digits_nat (s @ [c]) = 10 * digits_nat s + (code c - 48)" by (rule digits_nat_snoc)
    have "\<not> 10 * digits_nat s + (code c - 48) < 10" "(10 * digits_nat s + (code c - 48)) div 10 = digits_nat s"
      "(10 * digits_nat s + (code c - 48)) mod 10 = code c - 48"
      using IH(2) c(2) by auto
    then show ?thesis unfolding v using IH c by (subst nat_digits.simps) simp
  qed
qed simp

end
