(* ===== verification/Py_Json.thy ===== *)
theory Py_Json
  imports Py_Prelude
begin

text \<open>
  The values that \<open>json.loads\<close> and the YAML loader produce, with the operations the
  service scripts apply to them: subscripting, \<open>get\<close>, \<open>in\<close>, \<open>setdefault\<close>, item assignment and
  loops that mutate the elements of a list or the values of a dictionary. A dictionary is an
  association list in insertion order. Each operation raises what Python raises on a value
  of the wrong kind.

  The second half is the theory of \<^emph>\<open>defaulting passes\<close>: an order on values in which
  objects may only gain listed keys, and the closure properties by which a sequence of
  \<open>setdefault\<close> steps keeps everything written explicitly and is a no-op when run again.
\<close>

section \<open>Values\<close>

text \<open>
  \<open>JFloat r\<close> is the float whose \<open>repr\<close> is the text \<open>r\<close>; no modelled code computes with floats.
\<close>

datatype json =
    JNull
  | JBool bool
  | JInt int
  | JFloat string
  | JStr string
  | JList "json list"
  | JObj "(string \<times> json) list"

type_synonym json_dict = "(string, json) dict"

abbreviation JEmpty :: json where
  "JEmpty \<equiv> JObj []"

fun is_obj :: "json \<Rightarrow> bool" where
  "is_obj (JObj _) = True"
| "is_obj _ = False"

fun is_list :: "json \<Rightarrow> bool" where
  "is_list (JList _) = True"
| "is_list _ = False"

fun is_str :: "json \<Rightarrow> bool" where
  "is_str (JStr _) = True"
| "is_str _ = False"

fun is_bool :: "json \<Rightarrow> bool" where
  "is_bool (JBool _) = True"
| "is_bool _ = False"

text \<open>The truth value of \<open>if v:\<close>.\<close>

fun truthy :: "json \<Rightarrow> bool" where
  "truthy JNull = False"
| "truthy (JBool b) = b"
| "truthy (JInt i) = (i \<noteq> 0)"
| "truthy (JFloat r) = (r \<noteq> ''0.0'' \<and> r \<noteq> ''-0.0'')"
| "truthy (JStr s) = (s \<noteq> [])"
| "truthy (JList xs) = (xs \<noteq> [])"
| "truthy (JObj d) = (d \<noteq> [])"

text \<open>\<open>v == n\<close> for a small integer literal: \<open>True == 1\<close> and \<open>2.0 == 2\<close> in Python.\<close>

fun eq_int :: "json \<Rightarrow> int \<Rightarrow> bool" where
  "eq_int (JInt i) n = (i = n)"
| "eq_int (JBool b) n = ((if b then 1 else 0) = n)"
| "eq_int (JFloat r) n = (r = int_str n @ ''.0'')"
| "eq_int _ n = False"

subsection \<open>Conversion to text\<close>

text \<open>\<open>repr\<close> of a string: single quotes unless the text has a single and no double quote.\<close>

definition hex_digit :: "nat \<Rightarrow> char" where
  "hex_digit n = char_of (if n < 10 then 48 + n else 87 + n)"

definition repr_char :: "char \<Rightarrow> char \<Rightarrow> string" where
  "repr_char q c =
     (if c = q \<or> c = CHR 0x5C then [CHR 0x5C, c]
      else if code c = 10 then [CHR 0x5C, CHR ''n'']
      else if code c = 13 then [CHR 0x5C, CHR ''r'']
      else if code c = 9 then [CHR 0x5C, CHR ''t'']
      else if is_control c then [CHR 0x5C, CHR ''x'', hex_digit (code c div 16), hex_digit (code c mod 16)]
      else [c])"

definition repr_str :: "string \<Rightarrow> string" where
  "repr_str s =
     (let q = (if CHR 0x27 \<in> set s \<and> CHR 0x22 \<notin> set s then CHR 0x22 else CHR 0x27)
      in q # concat (map (repr_char q) s) @ [q])"

fun py_repr :: "json \<Rightarrow> string" where
  "py_repr JNull = ''None''"
| "py_repr (JBool b) = (if b then ''True'' else ''False'')"
| "py_repr (JInt i) = int_str i"
| "py_repr (JFloat r) = r"
| "py_repr (JStr s) = repr_str s"
| "py_repr (JList xs) = ''['' @ py_join '', '' (map py_repr xs) @ '']''"
| "py_repr (JObj d) = ''{'' @ py_join '', '' (map (\<lambda>(k, v). repr_str k @ '': '' @ py_repr v) d) @ ''}''"

fun py_str :: "json \<Rightarrow> string" where
  "py_str (JStr s) = s"
| "py_str v = py_repr v"

section \<open>Operations\<close>

subsection \<open>Reading\<close>

text \<open>\<open>v[k]\<close> with a string key.\<close>

fun item :: "json \<Rightarrow> string \<Rightarrow> json res" where
  "item (JObj d) k = (case dict_get d k of None \<Rightarrow> Inl KeyError | Some v \<Rightarrow> Inr v)"
| "item _ k = Inl TypeError"

definition item2 :: "json \<Rightarrow> string \<Rightarrow> string \<Rightarrow> json res" where
  "item2 v k k' = and_then (item v k) (\<lambda>w. item w k')"

text \<open>\<open>v.get(k, default)\<close>; \<open>v.get(k)\<close> has the default \<open>None\<close>.\<close>

fun get_or :: "json \<Rightarrow> string \<Rightarrow> json \<Rightarrow> json res" where
  "get_or (JObj d) k dflt = Inr (case dict_get d k of None \<Rightarrow> dflt | Some v \<Rightarrow> v)"
| "get_or _ k dflt = Inl AttributeError"

abbreviation get :: "json \<Rightarrow> string \<Rightarrow> json res" where
  "get v k \<equiv> get_or v k JNull"

text \<open>\<open>k in v\<close> for a string \<open>k\<close>.\<close>

fun has_key :: "json \<Rightarrow> string \<Rightarrow> bool res" where
  "has_key (JObj d) k = Inr (dict_get d k \<noteq> None)"
| "has_key (JList xs) k = Inr (JStr k \<in> set xs)"
| "has_key (JStr s) k = Inr (contains s k)"
| "has_key _ k = Inl TypeError"

text \<open>\<open>v in {s1, s2, ...}\<close>: a list or a dictionary is unhashable.\<close>

fun in_strs :: "json \<Rightarrow> string list \<Rightarrow> bool res" where
  "in_strs (JStr s) ss = Inr (s \<in> set ss)"
| "in_strs (JList _) ss = Inl TypeError"
| "in_strs (JObj _) ss = Inl TypeError"
| "in_strs _ ss = Inr False"

text \<open>\<open>v.items()\<close>, \<open>for x in v\<close>, and a value used where only a string or an integer works.\<close>

fun dict_items :: "json \<Rightarrow> json_dict res" where
  "dict_items (JObj d) = Inr d"
| "dict_items _ = Inl AttributeError"

fun iter :: "json \<Rightarrow> json list res" where
  "iter (JList xs) = Inr xs"
| "iter (JObj d) = Inr (map (\<lambda>p. JStr (fst p)) d)"
| "iter (JStr s) = Inr (map (\<lambda>c. JStr [c]) s)"
| "iter _ = Inl TypeError"

fun as_str :: "json \<Rightarrow> string res" where
  "as_str (JStr s) = Inr s"
| "as_str _ = Inl TypeError"

fun as_int :: "json \<Rightarrow> int res" where
  "as_int (JInt i) = Inr i"
| "as_int (JBool b) = Inr (if b then 1 else 0)"
| "as_int _ = Inl TypeError"

text \<open>\<open>if not isinstance(v, str): raise e\<close>, and the same for the other kinds of values.\<close>

fun expect_str :: "exn \<Rightarrow> json \<Rightarrow> string res" where
  "expect_str e (JStr s) = Inr s"
| "expect_str e _ = Inl e"

fun expect_bool :: "exn \<Rightarrow> json \<Rightarrow> bool res" where
  "expect_bool e (JBool b) = Inr b"
| "expect_bool e _ = Inl e"

fun expect_list :: "exn \<Rightarrow> json \<Rightarrow> json list res" where
  "expect_list e (JList xs) = Inr xs"
| "expect_list e _ = Inl e"

fun expect_obj :: "exn \<Rightarrow> json \<Rightarrow> json_dict res" where
  "expect_obj e (JObj d) = Inr d"
| "expect_obj e _ = Inl e"

definition item_str :: "json \<Rightarrow> string \<Rightarrow> string res" where
  "item_str v k = and_then (item v k) as_str"

definition item_int :: "json \<Rightarrow> string \<Rightarrow> int res" where
  "item_int v k = and_then (item v k) as_int"

text \<open>\<open>for k, v in v[key].items()\<close> and \<open>for x in v[key]\<close>.\<close>

definition item_dict :: "json \<Rightarrow> string \<Rightarrow> json_dict res" where
  "item_dict v k = and_then (item v k) dict_items"

definition item_list :: "json \<Rightarrow> string \<Rightarrow> json list res" where
  "item_list v k = and_then (item v k) iter"

subsection \<open>Mutation\<close>

fun set_item :: "string \<Rightarrow> json \<Rightarrow> json \<Rightarrow> json res" where
  "set_item k v (JObj d) = Inr (JObj (dict_set k v d))"
| "set_item k v _ = Inl TypeError"

fun setdefault :: "string \<Rightarrow> json \<Rightarrow> json \<Rightarrow> json res" where
  "setdefault k v (JObj d) = Inr (JObj (dict_setdefault k v d))"
| "setdefault k v _ = Inl AttributeError"

text \<open>Running a mutating body \<open>f\<close> on \<open>v[k]\<close>.\<close>

definition upd_item :: "string \<Rightarrow> (json \<Rightarrow> json res) \<Rightarrow> json \<Rightarrow> json res" where
  "upd_item k f v = and_then (item v k) (\<lambda>w. and_then (f w) (\<lambda>w'. set_item k w' v))"

text \<open>
  \<open>for x in v: f(x)\<close> for a mutating \<open>f\<close>. Iterating a dictionary or a string yields strings,
  which no body can change.
\<close>

fun each_elem :: "(json \<Rightarrow> json res) \<Rightarrow> json \<Rightarrow> json res" where
  "each_elem f (JList xs) = and_then (map_res f xs) (\<lambda>ys. Inr (JList ys))"
| "each_elem f (JObj d) = and_then (map_res (\<lambda>p. f (JStr (fst p))) d) (\<lambda>_. Inr (JObj d))"
| "each_elem f (JStr s) = and_then (map_res (\<lambda>c. f (JStr [c])) s) (\<lambda>_. Inr (JStr s))"
| "each_elem f _ = Inl TypeError"

text \<open>\<open>for x in v.values(): f(x)\<close> for a mutating \<open>f\<close>.\<close>

definition on_value :: "(json \<Rightarrow> json res) \<Rightarrow> string \<times> json \<Rightarrow> (string \<times> json) res" where
  "on_value f p = and_then (f (snd p)) (\<lambda>v. Inr (fst p, v))"

fun each_value :: "(json \<Rightarrow> json res) \<Rightarrow> json \<Rightarrow> json res" where
  "each_value f (JObj d) = and_then (map_res (on_value f) d) (\<lambda>e. Inr (JObj e))"
| "each_value f _ = Inl AttributeError"

text \<open>A sequence of mutating statements.\<close>

fun run_steps :: "(json \<Rightarrow> json res) list \<Rightarrow> json \<Rightarrow> json res" where
  "run_steps [] v = Inr v"
| "run_steps (f # fs) v = and_then (f v) (run_steps fs)"

lemma item_Inr_iff [res_simps]:
  "item v k = Inr w \<longleftrightarrow> (\<exists>d. v = JObj d \<and> dict_get d k = Some w)"
  by (cases v) (auto split: option.splits)

lemma item2_Inr_iff [res_simps]:
  "item2 v k k' = Inr w \<longleftrightarrow> (\<exists>u. item v k = Inr u \<and> item u k' = Inr w)"
  by (simp add: item2_def res_simps)

lemma as_str_Inr_iff [res_simps]: "as_str v = Inr s \<longleftrightarrow> v = JStr s"
  by (cases v) auto

lemma expect_Inr_iff [res_simps]:
  "expect_str e v = Inr s \<longleftrightarrow> v = JStr s"
  "expect_bool e v = Inr b \<longleftrightarrow> v = JBool b"
  "expect_list e v = Inr xs \<longleftrightarrow> v = JList xs"
  "expect_obj e v = Inr d \<longleftrightarrow> v = JObj d"
  by (cases v; simp)+

lemma dict_items_Inr_iff [res_simps]: "dict_items v = Inr d \<longleftrightarrow> v = JObj d"
  by (cases v) auto

lemma item_str_Inr_iff [res_simps]: "item_str v k = Inr s \<longleftrightarrow> item v k = Inr (JStr s)"
  by (auto simp: item_str_def and_then_Inr_iff as_str_Inr_iff)

lemma item_dict_Inr_iff [res_simps]: "item_dict v k = Inr d \<longleftrightarrow> item v k = Inr (JObj d)"
  by (auto simp: item_dict_def and_then_Inr_iff dict_items_Inr_iff)

lemma set_item_Inr_iff [res_simps]:
  "set_item k v x = Inr y \<longleftrightarrow> (\<exists>d. x = JObj d \<and> y = JObj (dict_set k v d))"
  by (cases x) auto

lemma setdefault_Inr_iff [res_simps]:
  "setdefault k v x = Inr y \<longleftrightarrow> (\<exists>d. x = JObj d \<and> y = JObj (dict_setdefault k v d))"
  by (cases x) auto

section \<open>Defaulting passes\<close>

text \<open>
  \<open>grows D b v w\<close>: \<open>w\<close> is \<open>v\<close> with keys of \<open>D\<close> added to objects, at any depth. The kind \<open>b\<close> says
  where the value stands: a structure with fields, the \<open>runtime\<close> structure of a service, a
  table of entries (services, routes, ...), whose entries stay the same and in the same
  order, or a field that holds a sequence.
\<close>

datatype kind = Struct | Runtime | Table | Seq

definition table_keys :: "string set" where
  "table_keys = {''services'', ''storageResources'', ''credentials'', ''networkProfiles'',
     ''routes'', ''listeners''}"

definition seq_keys :: "string set" where
  "seq_keys = {''dependencies'', ''storage'', ''files'', ''schedules'', ''probes'', ''accelerators'',
     ''allowedEgress''}"

fun child_kind :: "kind \<Rightarrow> string \<Rightarrow> kind" where
  "child_kind Runtime k = Struct"
| "child_kind _ k =
     (if k \<in> table_keys then Table else if k \<in> seq_keys then Seq
      else if k = ''runtime'' then Runtime else Struct)"

declare child_kind.simps [simp del]

abbreviation structured :: "kind \<Rightarrow> bool" where
  "structured b \<equiv> b = Struct \<or> b = Runtime"

inductive grows :: "string set \<Rightarrow> kind \<Rightarrow> json \<Rightarrow> json \<Rightarrow> bool" for D where
  same: "grows D b v v"
| elems: "list_all2 (grows D Struct) xs ys \<Longrightarrow> grows D b (JList xs) (JList ys)"
| fields: "structured b \<Longrightarrow> (\<And>k v. dict_get d k = Some v \<Longrightarrow> \<exists>w. dict_get e k = Some w \<and> grows D (child_kind b k) v w)
    \<Longrightarrow> (\<And>k. dict_get d k = None \<Longrightarrow> dict_get e k \<noteq> None \<Longrightarrow> k \<in> D)
    \<Longrightarrow> grows D b (JObj d) (JObj e)"
| entries: "map fst d = map fst e \<Longrightarrow> list_all2 (grows D Struct) (map snd d) (map snd e)
    \<Longrightarrow> grows D Table (JObj d) (JObj e)"

declare grows.same [simp]

inductive_cases grows_JStrE [elim!]: "grows D b (JStr s) w"
inductive_cases grows_to_JStrE [elim!]: "grows D b v (JStr s)"

lemma grows_fields_iff:
  assumes "structured b"
  shows "grows D b (JObj d) w \<longleftrightarrow> (\<exists>e. w = JObj e \<and>
     (\<forall>k v. dict_get d k = Some v \<longrightarrow> (\<exists>u. dict_get e k = Some u \<and> grows D (child_kind b k) v u)) \<and>
     (\<forall>k. dict_get d k = None \<longrightarrow> dict_get e k \<noteq> None \<longrightarrow> k \<in> D))" (is "_ \<longleftrightarrow> ?rhs")
proof
  assume "grows D b (JObj d) w"
  then show ?rhs
    using assms by (cases rule: grows.cases) (auto intro: grows.same)
qed (use assms in \<open>auto intro: grows.fields\<close>)

lemma list_all2_grows_same: "list_all2 (grows D b) xs xs"
  by (simp add: list_all2_same grows.same)

lemma grows_entries_iff:
  "grows D Table (JObj d) w \<longleftrightarrow> (\<exists>e. w = JObj e \<and> map fst d = map fst e \<and>
     list_all2 (grows D Struct) (map snd d) (map snd e))" (is "_ \<longleftrightarrow> ?rhs")
proof
  assume "grows D Table (JObj d) w"
  then show ?rhs
    by (cases rule: grows.cases) (auto simp: list_all2_grows_same)
qed (auto intro: grows.entries)

lemma grows_elems_iff:
  "grows D b (JList xs) w \<longleftrightarrow> (\<exists>ys. w = JList ys \<and> list_all2 (grows D Struct) xs ys)" (is "_ \<longleftrightarrow> ?rhs")
proof
  assume "grows D b (JList xs) w"
  then show ?rhs
    by (cases rule: grows.cases) (auto simp: list_all2_grows_same)
qed (auto intro: grows.elems)

lemma grows_Seq_obj: "grows D Seq (JObj d) w \<Longrightarrow> w = JObj d"
  by (auto elim: grows.cases)

lemma grows_trans:
  assumes "grows D b u v" and "grows D b v w"
  shows "grows D b u w"
  using assms
proof (induction arbitrary: w rule: grows.induct)
  case (elems xs ys b)
  then obtain zs where w: "w = JList zs" and "list_all2 (grows D Struct) ys zs"
    by (auto simp: grows_elems_iff)
  with elems have "list_all2 (grows D Struct) xs zs"
    by (auto simp: list_all2_conv_all_nth)
  with w show ?case by (auto intro: grows.elems)
next
  case (fields b d e)
  from fields.prems obtain f where w: "w = JObj f"
    and f: "\<And>k v. dict_get e k = Some v \<Longrightarrow> \<exists>u. dict_get f k = Some u \<and> grows D (child_kind b k) v u"
    and new: "\<And>k. dict_get e k = None \<Longrightarrow> dict_get f k \<noteq> None \<Longrightarrow> k \<in> D"
    using fields.hyps(1) by (auto simp: grows_fields_iff)
  show ?case unfolding w
  proof (rule grows.fields[OF fields.hyps(1)])
    fix k v assume "dict_get d k = Some v"
    then show "\<exists>w. dict_get f k = Some w \<and> grows D (child_kind b k) v w"
      using fields.IH f by blast
  next
    fix k assume "dict_get d k = None" "dict_get f k \<noteq> None"
    then show "k \<in> D" using fields.hyps new by blast
  qed
next
  case (entries d e)
  then obtain f where w: "w = JObj f" and keys: "map fst e = map fst f"
    and vals: "list_all2 (grows D Struct) (map snd e) (map snd f)"
    by (auto simp: grows_entries_iff)
  with entries have "list_all2 (grows D Struct) (map snd d) (map snd f)"
    by (auto simp: list_all2_conv_all_nth)
  with w keys entries.hyps(1) show ?case by (auto intro: grows.entries)
qed assumption

lemma grows_mono:
  assumes "grows D b v w" and "D \<subseteq> D'"
  shows "grows D' b v w"
  using assms
proof (induction rule: grows.induct)
  case (elems xs ys b)
  then have "list_all2 (grows D' Struct) xs ys" by (auto simp: list_all2_conv_all_nth)
  then show ?case by (rule grows.elems)
next
  case (fields b d e)
  then show ?case by (intro grows.fields) blast+
next
  case (entries d e)
  then have "list_all2 (grows D' Struct) (map snd d) (map snd e)" by (auto simp: list_all2_conv_all_nth)
  with entries.hyps(1) show ?case by (rule grows.entries)
qed (rule grows.same)

lemma grows_item:
  assumes "structured b" and "grows D b v w" and "item v k = Inr x"
  obtains y where "item w k = Inr y" "grows D (child_kind b k) x y"
proof -
  from assms obtain d e where v: "v = JObj d" "w = JObj e" and "dict_get d k = Some x"
    and "\<And>k v. dict_get d k = Some v \<Longrightarrow> \<exists>u. dict_get e k = Some u \<and> grows D (child_kind b k) v u"
    by (auto simp: item_Inr_iff grows_fields_iff)
  then obtain u where "dict_get e k = Some u" "grows D (child_kind b k) x u" by blast
  with v that show ?thesis by simp
qed

text \<open>
  A pass \<^emph>\<open>grows\<close> its argument when its result only adds keys, and \<^emph>\<open>settles\<close> when it is the
  identity on every value grown from one of its results.
\<close>

definition grows_by :: "string set \<Rightarrow> kind \<Rightarrow> (json \<Rightarrow> json res) \<Rightarrow> bool" where
  "grows_by D b f \<longleftrightarrow> (\<forall>x y. f x = Inr y \<longrightarrow> grows D b x y)"

definition settles :: "string set \<Rightarrow> kind \<Rightarrow> (json \<Rightarrow> json res) \<Rightarrow> bool" where
  "settles D b f \<longleftrightarrow> (\<forall>x y z. f x = Inr y \<longrightarrow> grows D b y z \<longrightarrow> f z = Inr z)"

text \<open>The closure properties that the normalisation proofs apply.\<close>

named_theorems pass_intros "closure properties of defaulting passes"

lemma grows_byI: "(\<And>x y. f x = Inr y \<Longrightarrow> grows D b x y) \<Longrightarrow> grows_by D b f"
  by (simp add: grows_by_def)

lemma grows_byD: "grows_by D b f \<Longrightarrow> f x = Inr y \<Longrightarrow> grows D b x y"
  by (simp add: grows_by_def)

lemma settlesI: "(\<And>x y z. f x = Inr y \<Longrightarrow> grows D b y z \<Longrightarrow> f z = Inr z) \<Longrightarrow> settles D b f"
  unfolding settles_def by blast

lemma settlesD: "settles D b f \<Longrightarrow> f x = Inr y \<Longrightarrow> grows D b y z \<Longrightarrow> f z = Inr z"
  unfolding settles_def by blast

lemma settles_idempotent: "settles D b f \<Longrightarrow> f x = Inr y \<Longrightarrow> f y = Inr y"
  by (erule settlesD) (auto intro: grows.same)

lemma settles_antimono: "settles D b f \<Longrightarrow> D' \<subseteq> D \<Longrightarrow> settles D' b f"
  by (rule settlesI) (blast dest: settlesD grows_mono)

lemma grows_by_mono: "grows_by D b f \<Longrightarrow> D \<subseteq> D' \<Longrightarrow> grows_by D' b f"
  by (rule grows_byI) (blast dest: grows_byD grows_mono)

lemma grows_by_id [pass_intros]: "grows_by D b Inr"
  by (simp add: grows_by_def grows.same)

lemma settles_id [pass_intros]: "settles D b Inr"
  by (simp add: settles_def)

lemma grows_by_setdefault [pass_intros]:
  assumes "structured b" and "k \<in> D"
  shows "grows_by D b (setdefault k v)"
proof (rule grows_byI)
  fix x y assume "setdefault k v x = Inr y"
  then obtain d where x: "x = JObj d" and y: "y = JObj (dict_setdefault k v d)"
    by (auto simp: res_simps)
  show "grows D b x y"
    unfolding x y using assms
    by (intro grows.fields) (auto simp: dict_simps intro: grows.same split: if_splits)
qed

lemma settles_setdefault [pass_intros]:
  assumes b: "structured b"
  shows "settles D b (setdefault k v)"
proof (rule settlesI)
  fix x y z assume "setdefault k v x = Inr y" and g: "grows D b y z"
  then obtain d where y: "y = JObj (dict_setdefault k v d)" by (auto simp: res_simps)
  have "dict_get (dict_setdefault k v d) k \<noteq> None" by (auto simp: dict_simps)
  then obtain e where "z = JObj e" and "dict_get e k \<noteq> None"
    using g unfolding y grows_fields_iff[OF b] by blast
  then show "setdefault k v z = Inr z" by simp
qed

lemma upd_item_Inr_iff:
  "upd_item k f x = Inr y \<longleftrightarrow>
     (\<exists>d v w. x = JObj d \<and> dict_get d k = Some v \<and> f v = Inr w \<and> y = JObj (dict_set k w d))"
  by (auto simp: upd_item_def res_simps)

lemma grows_by_upd_item [pass_intros]:
  assumes b: "structured b" and f: "grows_by D (child_kind b k) f"
  shows "grows_by D b (upd_item k f)"
proof (rule grows_byI)
  fix x y assume "upd_item k f x = Inr y"
  then obtain d v w where
    *: "x = JObj d" "dict_get d k = Some v" "f v = Inr w" "y = JObj (dict_set k w d)"
    by (auto simp: upd_item_Inr_iff)
  have "grows D (child_kind b k) v w" using f *(3) by (rule grows_byD)
  with b * show "grows D b x y"
    by (auto simp: dict_simps intro!: grows.fields intro: grows.same split: if_splits)
qed

lemma dict_set_id: "dict_get d k = Some v \<Longrightarrow> dict_set k v d = d"
  by (induction d) auto

lemma settles_upd_item [pass_intros]:
  assumes b: "structured b" and f: "settles D (child_kind b k) f"
  shows "settles D b (upd_item k f)"
proof (rule settlesI)
  fix x y z assume "upd_item k f x = Inr y" and g: "grows D b y z"
  then obtain d v w where fv: "f v = Inr w" and y: "y = JObj (dict_set k w d)"
    by (auto simp: upd_item_Inr_iff)
  have "item y k = Inr w" by (simp add: y dict_simps)
  with b g obtain u where u: "item z k = Inr u" "grows D (child_kind b k) w u"
    by (rule grows_item)
  then have "f u = Inr u" using settlesD[OF f fv] by blast
  with u(1) show "upd_item k f z = Inr z"
    by (auto simp: upd_item_def res_simps dict_set_id)
qed

lemma grows_by_each_elem [pass_intros]:
  assumes "grows_by D Struct f"
  shows "grows_by D b (each_elem f)"
proof (rule grows_byI)
  fix x y assume "each_elem f x = Inr y"
  with assms show "grows D b x y"
    by (cases x) (auto simp: res_simps map_res_Inr_iff grows_by_def intro: grows.same
        intro!: grows.elems elim!: list_all2_mono split: if_splits)
qed

lemma map_res_settled:
  assumes "\<And>x y z. f x = Inr y \<Longrightarrow> r y z \<Longrightarrow> f z = Inr z"
    and "list_all2 (\<lambda>x y. f x = Inr y) xs ys" and "list_all2 r ys zs"
  shows "map_res f zs = Inr zs"
  using assms by (auto simp: map_res_Inr_iff list_all2_conv_all_nth)

lemma settles_each_elem [pass_intros]:
  assumes "settles D Struct f"
  shows "settles D Seq (each_elem f)"
proof (rule settlesI)
  fix x y z assume fx: "each_elem f x = Inr y" and g: "grows D Seq y z"
  show "each_elem f z = Inr z"
  proof (cases x)
    case (JList xs)
    with fx obtain ys where y: "y = JList ys" and all: "list_all2 (\<lambda>x y. f x = Inr y) xs ys"
      by (auto simp: res_simps map_res_Inr_iff)
    with g obtain zs where z: "z = JList zs" and zs: "list_all2 (grows D Struct) ys zs"
      by (auto simp: grows_elems_iff)
    have "map_res f zs = Inr zs"
      by (rule map_res_settled[OF settlesD[OF assms] all zs])
    with z show ?thesis by simp
  next
    case (JObj d)
    with fx have "y = x" by (auto simp: res_simps)
    with g fx JObj show ?thesis by (auto dest: grows_Seq_obj)
  qed (use fx g in \<open>auto simp: res_simps\<close>)
qed

lemma on_value_Inr_iff: "on_value f p = Inr q \<longleftrightarrow> fst p = fst q \<and> f (snd p) = Inr (snd q)"
  by (cases q) (auto simp: on_value_def res_simps)

lemma each_value_Inr_iff:
  "each_value f x = Inr y \<longleftrightarrow> (\<exists>d e. x = JObj d \<and> y = JObj e \<and>
     map fst d = map fst e \<and> list_all2 (\<lambda>v w. f v = Inr w) (map snd d) (map snd e))"
proof (cases x)
  case (JObj d)
  have "list_all2 (\<lambda>p q. on_value f p = Inr q) d e \<longleftrightarrow>
      map fst d = map fst e \<and> list_all2 (\<lambda>v w. f v = Inr w) (map snd d) (map snd e)" for e
    by (auto simp: on_value_Inr_iff list_all2_conv_all_nth list_eq_iff_nth_eq)
  with JObj show ?thesis by (auto simp: res_simps map_res_Inr_iff)
qed auto

lemma grows_by_each_value [pass_intros]:
  assumes "grows_by D Struct f"
  shows "grows_by D Table (each_value f)"
proof (rule grows_byI)
  fix x y assume "each_value f x = Inr y"
  then obtain d e where *: "x = JObj d" "y = JObj e" "map fst d = map fst e"
    and vals: "list_all2 (\<lambda>v w. f v = Inr w) (map snd d) (map snd e)"
    by (auto simp only: each_value_Inr_iff)
  from vals have "list_all2 (grows D Struct) (map snd d) (map snd e)"
    by (rule list_all2_mono) (rule grows_byD[OF assms])
  with * show "grows D Table x y" by (auto intro: grows.entries)
qed

lemma settles_each_value [pass_intros]:
  assumes "settles D Struct f"
  shows "settles D Table (each_value f)"
proof (rule settlesI)
  fix x y z assume fx: "each_value f x = Inr y" and g: "grows D Table y z"
  from fx obtain d e where "x = JObj d" and y: "y = JObj e" and "map fst d = map fst e"
    and e: "list_all2 (\<lambda>v w. f v = Inr w) (map snd d) (map snd e)"
    by (auto simp only: each_value_Inr_iff)
  with g obtain h where z: "z = JObj h" and h: "list_all2 (grows D Struct) (map snd e) (map snd h)"
    by (auto simp: grows_entries_iff)
  have "map_res f (map snd h) = Inr (map snd h)"
    by (rule map_res_settled[OF settlesD[OF assms] e h])
  with z show "each_value f z = Inr z" by (simp only: each_value_Inr_iff map_res_Inr_iff) blast
qed

lemma grows_by_steps [pass_intros]:
  assumes "grows_by D b f" and "grows_by D b (run_steps fs)"
  shows "grows_by D b (run_steps (f # fs))"
proof (rule grows_byI)
  fix x y assume "run_steps (f # fs) x = Inr y"
  then obtain u where "f x = Inr u" "run_steps fs u = Inr y" by (auto simp: res_simps)
  with assms have "grows D b x u" "grows D b u y" by (auto dest: grows_byD)
  then show "grows D b x y" by (rule grows_trans)
qed

lemma grows_by_no_steps [pass_intros]: "grows_by D b (run_steps [])"
  by (simp add: grows_by_def grows.same)

lemma settles_steps_weaken:
  assumes f: "settles D b f" and g: "grows_by D b (run_steps fs)" "settles D' b (run_steps fs)"
    and D: "D' \<subseteq> D"
  shows "settles D' b (run_steps (f # fs))"
proof (rule settlesI)
  fix x y z assume "run_steps (f # fs) x = Inr y" and yz: "grows D' b y z"
  then obtain u where u: "f x = Inr u" "run_steps fs u = Inr y" by (auto simp: res_simps)
  have "grows D b u z"
    using grows_byD[OF g(1) u(2)] grows_mono[OF yz D] by (rule grows_trans)
  with f u(1) have "f z = Inr z" by (rule settlesD)
  moreover have "run_steps fs z = Inr z" using g(2) u(2) yz by (rule settlesD)
  ultimately show "run_steps (f # fs) z = Inr z" by simp
qed

lemma settles_steps [pass_intros]:
  "settles D b f \<Longrightarrow> grows_by D b (run_steps fs) \<Longrightarrow> settles D b (run_steps fs)
    \<Longrightarrow> settles D b (run_steps (f # fs))"
  by (rule settles_steps_weaken) auto

lemma settles_no_steps [pass_intros]: "settles D b (run_steps [])"
  by (simp add: settles_def)

text \<open>
  A branch on a field: growing a value does not change the outcome of comparing the field
  with string literals.
\<close>

definition branch :: "string \<Rightarrow> (json \<Rightarrow> bool res) \<Rightarrow> (json \<Rightarrow> json res) \<Rightarrow> (json \<Rightarrow> json res) \<Rightarrow> json \<Rightarrow> json res" where
  "branch k c f g x = and_then (item x k) (\<lambda>t. and_then (c t) (\<lambda>b. if b then f x else g x))"

definition is_text :: "string \<Rightarrow> json \<Rightarrow> bool res" where
  "is_text s t = Inr (t = JStr s)"

definition text_among :: "string list \<Rightarrow> json \<Rightarrow> bool res" where
  "text_among ss t = in_strs t ss"

definition stable_test :: "(json \<Rightarrow> bool res) \<Rightarrow> bool" where
  "stable_test c \<longleftrightarrow> (\<forall>D b v w q. grows D b v w \<longrightarrow> c v = Inr q \<longrightarrow> c w = Inr q)"

lemma stable_is_text [pass_intros]: "stable_test (is_text s)"
  unfolding stable_test_def is_text_def by (auto elim: grows.cases)

lemma stable_text_among [pass_intros]: "stable_test (text_among ss)"
  unfolding stable_test_def text_among_def by (auto elim: grows.cases)

lemma list_all2_map_of:
  assumes "map fst d = map fst e" and "list_all2 r (map snd d) (map snd e)" and "dict_get d k = Some v"
  shows "\<exists>w. dict_get e k = Some w \<and> r v w"
proof -
  have "list_all2 (\<lambda>p q. fst p = fst q \<and> r (snd p) (snd q)) d e"
    using assms(1,2) by (auto simp: list_all2_conv_all_nth list_eq_iff_nth_eq)
  then show ?thesis using assms(3)
    by (induction rule: list_all2_induct) (auto split: if_splits)
qed

lemma stable_field_test [pass_intros]:
  assumes c: "stable_test c"
  shows "stable_test (\<lambda>t. and_then (item t k) c)"
  unfolding stable_test_def
proof (intro allI impI)
  fix D b v w q
  assume g: "grows D b v w" and "and_then (item v k) c = Inr q"
  then obtain d t where v: "v = JObj d" "dict_get d k = Some t" "c t = Inr q"
    by (auto simp: res_simps)
  from g v(1,2) have "\<exists>e u b. w = JObj e \<and> dict_get e k = Some u \<and> grows D b t u"
    by (cases rule: grows.cases) (blast intro: grows.same dest: list_all2_map_of)+
  then obtain e u b' where "w = JObj e" "dict_get e k = Some u" "grows D b' t u" by blast
  with c v(3) show "and_then (item w k) c = Inr q" by (auto simp: stable_test_def)
qed

lemma grows_by_branch [pass_intros]:
  "grows_by D b f \<Longrightarrow> grows_by D b g \<Longrightarrow> grows_by D b (branch k c f g)"
  unfolding grows_by_def branch_def by (auto simp: res_simps split: if_splits)

lemma settles_branch:
  assumes b: "structured b" and c: "stable_test c" and gf: "grows_by D' b f" "grows_by D' b g"
    and sf: "settles D b f" "settles D b g"
  shows "settles D b (branch k c f g)"
proof (rule settlesI)
  fix x y z assume "branch k c f g x = Inr y" and yz: "grows D b y z"
  then obtain t q where t: "item x k = Inr t" "c t = Inr q" "(if q then f x else g x) = Inr y"
    by (auto simp: branch_def and_then_Inr_iff)
  then have xy: "grows D' b x y"
    using gf by (auto dest: grows_byD split: if_splits)
  from b xy t(1) obtain u where u: "item y k = Inr u" "grows D' (child_kind b k) t u"
    by (rule grows_item)
  from b yz u(1) obtain v where v: "item z k = Inr v" "grows D (child_kind b k) u v"
    by (rule grows_item)
  have "c v = Inr q" using c t(2) u(2) v(2) unfolding stable_test_def by blast
  moreover have "(if q then f z else g z) = Inr z"
    using sf t(3) yz by (auto dest: settlesD split: if_splits)
  ultimately show "branch k c f g z = Inr z" using v(1) by (simp add: branch_def)
qed

text \<open>Bodies that run only when a key is present, for keys that no pass adds.\<close>

definition when_key :: "string \<Rightarrow> (json \<Rightarrow> json res) \<Rightarrow> json \<Rightarrow> json res" where
  "when_key k f x = and_then (has_key x k) (\<lambda>b. if b then f x else Inr x)"

lemma grows_by_when_key [pass_intros]: "grows_by D b f \<Longrightarrow> grows_by D b (when_key k f)"
  unfolding grows_by_def when_key_def by (auto simp: res_simps intro: grows.same split: if_splits)

lemma list_all2_grows_JStr:
  "list_all2 (grows D b) xs ys \<Longrightarrow> JStr k \<in> set xs \<longleftrightarrow> JStr k \<in> set ys"
  by (induction rule: list_all2_induct) auto

lemma has_key_grows:
  assumes b: "structured b" and g: "grows D b y z" and k: "k \<notin> D"
  shows "has_key z k = has_key y k"
proof (cases y)
  case (JObj d)
  with g obtain e where z: "z = JObj e"
    and keep: "\<forall>k v. dict_get d k = Some v \<longrightarrow> (\<exists>u. dict_get e k = Some u \<and> grows D (child_kind b k) v u)"
    and new: "\<forall>k. dict_get d k = None \<longrightarrow> dict_get e k \<noteq> None \<longrightarrow> k \<in> D"
    by (auto simp only: grows_fields_iff[OF b])
  have "(dict_get e k \<noteq> None) = (dict_get d k \<noteq> None)" using keep new k by blast
  with JObj z show ?thesis by simp
next
  case (JList xs)
  with g obtain ys where "z = JList ys" "list_all2 (grows D Struct) xs ys"
    by (auto simp: grows_elems_iff)
  with JList show ?thesis by (simp add: list_all2_grows_JStr)
qed (use g in \<open>auto elim: grows.cases\<close>)

lemma get_grows:
  assumes b: "structured b" and g: "grows D b y z" and k: "k \<notin> D" and v: "get y k = Inr v"
  shows "\<exists>w c. get z k = Inr w \<and> grows D c v w"
proof -
  from v obtain d where d: "y = JObj d" by (cases y) auto
  with g obtain e where z: "z = JObj e"
    and keep: "\<forall>k v. dict_get d k = Some v \<longrightarrow> (\<exists>u. dict_get e k = Some u \<and> grows D (child_kind b k) v u)"
    and new: "\<forall>k. dict_get d k = None \<longrightarrow> dict_get e k \<noteq> None \<longrightarrow> k \<in> D"
    by (auto simp only: grows_fields_iff[OF b])
  show ?thesis
  proof (cases "dict_get d k")
    case None
    with new k have "dict_get e k = None" by blast
    with None v d z show ?thesis by (auto intro: grows.same)
  next
    case (Some u)
    then obtain w where "dict_get e k = Some w" "grows D (child_kind b k) u w" using keep by blast
    with Some v d z show ?thesis by auto
  qed
qed

lemma has_key_kept:
  assumes b: "structured b" and g: "grows D b y z" and k: "has_key y k = Inr True" and y: "is_obj y"
  shows "has_key z k = Inr True"
proof -
  obtain d where d: "y = JObj d" using y by (cases y) auto
  with k obtain v where "item y k = Inr v" by auto
  with b g obtain w where "item z k = Inr w" by (rule grows_item)
  then show ?thesis by (auto simp: item_Inr_iff)
qed

lemma settles_when_key:
  assumes b: "structured b" and k: "k \<notin> D" "k \<notin> D'" and f: "settles D b f" "grows_by D' b f"
  shows "settles D b (when_key k f)"
proof (rule settlesI)
  fix x y z assume "when_key k f x = Inr y" and yz: "grows D b y z"
  then obtain q where q: "has_key x k = Inr q" "(if q then f x else Inr x) = Inr y"
    by (auto simp: when_key_def and_then_Inr_iff)
  have "grows D' b x y" using f(2) q(2) by (auto dest: grows_byD intro: grows.same split: if_splits)
  then have "has_key z k = Inr q" using has_key_grows[OF b] k q(1) yz by metis
  moreover have "q \<Longrightarrow> f z = Inr z" using f(1) q(2) yz by (auto dest: settlesD)
  ultimately show "when_key k f z = Inr z" by (simp add: when_key_def)
qed

declare run_steps.simps [simp del]

end
