(* ===== verification/V2_Routes.thy ===== *)
theory V2_Routes
  imports Py_Json "HOL-Library.Sublist"
begin

text \<open>
  Route paths (\<open>services/nas_v2_spec.py\<close>, \<open>_routes_conflict\<close>, \<open>_route_path_is_unsafe\<close>,
  \<open>_canonical_route_path\<close>): percent-decoding, the canonical key of a path and the shadowing
  test. The lemmas give the shape of a canonical key and show that the shadowing test is the
  prefix order on path segments.
\<close>

section \<open>Percent-decoding\<close>

fun hex_value :: "char \<Rightarrow> nat option" where
  "hex_value c =
     (let n = code c
      in if 48 \<le> n \<and> n \<le> 57 then Some (n - 48)
         else if 65 \<le> n \<and> n \<le> 70 then Some (n - 55)
         else if 97 \<le> n \<and> n \<le> 102 then Some (n - 87)
         else None)"

text \<open>\<open>_PERCENT_ESCAPE.search(value)\<close>: a percent sign not followed by two hex digits.\<close>

fun bad_escape :: "string \<Rightarrow> bool" where
  "bad_escape [] = False"
| "bad_escape (c # cs) =
     (if c = CHR 0x25 then
        (case cs of
           a # b # rest \<Rightarrow> hex_value a = None \<or> hex_value b = None \<or> bad_escape cs
         | _ \<Rightarrow> True)
      else bad_escape cs)"

text \<open>\<open>urllib.parse.unquote_to_bytes\<close> on an ASCII run.\<close>

fun unquote_bytes :: "string \<Rightarrow> string" where
  "unquote_bytes [] = []"
| "unquote_bytes [c] = [c]"
| "unquote_bytes [c, d] = [c, d]"
| "unquote_bytes (c # a # b # cs) =
     (if c = CHR 0x25 then
        (case (hex_value a, hex_value b) of
           (Some x, Some y) \<Rightarrow> char_of (16 * x + y) # unquote_bytes cs
         | _ \<Rightarrow> c # unquote_bytes (a # b # cs))
      else c # unquote_bytes (a # b # cs))"

definition is_cont :: "char \<Rightarrow> bool" where
  "is_cont c \<longleftrightarrow> 128 \<le> code c \<and> code c < 192"

text \<open>Strict UTF-8: no overlong forms, no surrogates, nothing above U+10FFFF.\<close>

fun utf8_valid :: "string \<Rightarrow> bool" where
  "utf8_valid [] = True"
| "utf8_valid (c # cs) =
     (let n = code c
      in if n < 128 then utf8_valid cs
         else if 194 \<le> n \<and> n < 224 then
           (case cs of a # r \<Rightarrow> is_cont a \<and> utf8_valid r | _ \<Rightarrow> False)
         else if 224 \<le> n \<and> n < 240 then
           (case cs of a # b # r \<Rightarrow> is_cont a \<and> is_cont b
                \<and> (n = 224 \<longrightarrow> 160 \<le> code a) \<and> (n = 237 \<longrightarrow> code a < 160) \<and> utf8_valid r | _ \<Rightarrow> False)
         else if 240 \<le> n \<and> n < 245 then
           (case cs of a # b # d # r \<Rightarrow> is_cont a \<and> is_cont b \<and> is_cont d
                \<and> (n = 240 \<longrightarrow> 144 \<le> code a) \<and> (n = 244 \<longrightarrow> code a < 144) \<and> utf8_valid r | _ \<Rightarrow> False)
         else False)"

abbreviation is_ascii :: "char \<Rightarrow> bool" where
  "is_ascii c \<equiv> code c < 128"

text \<open>
  \<open>unquote(value, errors="strict")\<close>: each maximal ASCII run is decoded on its own.
\<close>

function unquote :: "string \<Rightarrow> string res" where
  "unquote [] = Inr []"
| "unquote (c # cs) =
     (if is_ascii c then
        (let decoded = unquote_bytes (takeWhile is_ascii (c # cs))
         in if utf8_valid decoded
            then and_then (unquote (dropWhile is_ascii (c # cs))) (\<lambda>r. Inr (decoded @ r))
            else Inl UnicodeError)
      else and_then (unquote cs) (\<lambda>r. Inr (c # r)))"
  by pat_completeness auto
termination
  by (relation "measure length") (auto simp: length_dropWhile_le less_Suc_eq_le)

section \<open>Canonical paths\<close>

definition invalid_route_path_characters :: string where
  "invalid_route_path_characters = [CHR ''*'', CHR ''?'', CHR ''#'', CHR 0x5C]"

definition unsafe_char :: "char \<Rightarrow> bool" where
  "unsafe_char c \<longleftrightarrow> code c < 32 \<or> code c = 127 \<or> c \<in> set invalid_route_path_characters \<or> is_space c"

definition route_path_is_unsafe :: "string \<Rightarrow> bool" where
  "route_path_is_unsafe s = list_ex unsafe_char s"

definition reserved_route_prefixes :: "string list" where
  "reserved_route_prefixes = [''/outpost.goauthentik.io'']"

definition segments_of :: "string \<Rightarrow> string list" where
  "segments_of s = filter (\<lambda>p. p \<noteq> []) (py_split (CHR ''/'') s)"

definition uses_reserved :: "string \<Rightarrow> bool" where
  "uses_reserved folded =
     list_ex (\<lambda>prefix. folded = casefold prefix \<or> starts_with folded (casefold prefix @ ''/''))
       reserved_route_prefixes"

definition canonical_route_path :: "json \<Rightarrow> string \<Rightarrow> string res" where
  "canonical_route_path v path =
     (case v of
        JStr s \<Rightarrow>
          if \<not> starts_with s ''/'' then Inl (V2Error ''route-path'' path)
          else if route_path_is_unsafe s then Inl (V2Error ''route-wildcard'' path)
          else if bad_escape s then Inl (V2Error ''route-encoding'' path)
          else (case unquote s of
            Inl e \<Rightarrow> Inl (V2Error ''route-encoding'' path)
          | Inr decoded \<Rightarrow>
              if route_path_is_unsafe decoded then Inl (V2Error ''route-wildcard'' path)
              else let segments = segments_of decoded
                in if list_ex (\<lambda>p. p = ''.'' \<or> p = ''..'') segments
                   then Inl (V2Error ''route-path'' path)
                   else let canonical = (if segments \<noteq> [] then ''/'' @ py_join ''/'' segments else ''/'');
                            folded = casefold canonical
                     in if uses_reserved folded then Inl (V2Error ''route-reserved'' path)
                        else Inr folded)
      | _ \<Rightarrow> Inl (V2Error ''route-path'' path))"

section \<open>Shadowing\<close>

definition slash :: "char \<Rightarrow> bool" where
  "slash c \<longleftrightarrow> c = CHR ''/''"

definition or_root :: "string \<Rightarrow> string" where
  "or_root s = (if s = [] then ''/'' else s)"

definition path_parts :: "string \<Rightarrow> string list" where
  "path_parts s = filter (\<lambda>p. p \<noteq> []) (py_split (CHR ''/'') (rstrip_chars slash (lstrip_chars slash s)))"

definition routes_conflict :: "string \<Rightarrow> string \<Rightarrow> bool" where
  "routes_conflict first second =
     (let f = or_root (rstrip_chars slash (casefold first));
          s = or_root (rstrip_chars slash (casefold second))
      in if f = ''/'' \<or> s = ''/'' then True
         else let fp = path_parts f; sp = path_parts s
           in take (length sp) fp = sp \<or> take (length fp) sp = fp)"

section \<open>Facts about segments\<close>

lemma segments_of_Nil [simp]: "segments_of [] = []"
  by (simp add: segments_of_def)

lemma segments_of_slash [simp]: "segments_of (CHR ''/'' # s) = segments_of s"
  by (simp add: segments_of_def)

lemma py_split_snoc: "py_split sep (s @ [sep]) = py_split sep s @ [[]]"
  by (induction s) (auto split: list.splits)

lemma segments_of_snoc_slash [simp]: "segments_of (s @ [CHR ''/'']) = segments_of s"
  by (simp add: segments_of_def py_split_snoc)

lemma segments_lstrip [simp]: "segments_of (lstrip_chars slash s) = segments_of s"
  by (induction s) (auto simp: lstrip_chars_def slash_def)

lemma segments_rstrip [simp]: "segments_of (rstrip_chars slash s) = segments_of s"
proof (induction s rule: rev_induct)
  case (snoc c s)
  then show ?case by (auto simp: rstrip_chars_def slash_def)
qed (simp add: rstrip_chars_def)

lemma segments_casefold: "segments_of (casefold s) = map casefold (segments_of s)"
  by (simp add: segments_of_def filter_map comp_def flip: casefold_split)

lemma segments_or_root [simp]: "segments_of (or_root s) = segments_of s"
  by (simp add: or_root_def)

lemma path_parts_segments: "path_parts s = segments_of s"
  using segments_rstrip [of "lstrip_chars slash s"] segments_lstrip [of s]
  by (simp add: path_parts_def segments_of_def)

lemma segments_of_no_slash: "p \<in> set (segments_of s) \<Longrightarrow> p \<noteq> [] \<and> CHR ''/'' \<notin> set p"
  by (auto simp: segments_of_def dest: py_split_parts)

lemma segments_of_join:
  assumes "\<And>p. p \<in> set ps \<Longrightarrow> p \<noteq> [] \<and> CHR ''/'' \<notin> set p"
  shows "segments_of (py_join ''/'' ps) = ps"
proof (cases "ps = []")
  case False
  then have "py_split (CHR ''/'') (py_join ''/'' ps) = ps"
    using assms by (intro py_split_join) auto
  then show ?thesis using assms by (simp add: segments_of_def filter_id_conv)
qed simp

lemma segments_Nil_iff: "segments_of s = [] \<longleftrightarrow> (\<forall>c \<in> set s. slash c)"
proof (induction s)
  case (Cons c s)
  show ?case
  proof (cases "c = CHR ''/''")
    case False
    then have "segments_of (c # s) \<noteq> []"
      by (auto simp: segments_of_def split: list.splits)
    with False show ?thesis by (simp add: slash_def)
  qed (use Cons in \<open>simp add: slash_def\<close>)
qed simp

lemma rstrip_root_iff: "or_root (rstrip_chars slash s) = ''/'' \<longleftrightarrow> segments_of s = []"
proof -
  have "rstrip_chars slash s = [] \<longleftrightarrow> (\<forall>c \<in> set s. slash c)"
    by (auto simp: rstrip_chars_def dropWhile_eq_Nil_conv)
  moreover have "rstrip_chars slash s \<noteq> ''/''"
    by (metis (no_types, opaque_lifting) append_Nil append_Nil2 append_eq_append_conv2 hd_dropWhile
        list.sel(1) list.simps(3) rev_singleton_conv rstrip_chars_def slash_def)
  ultimately show ?thesis by (simp add: or_root_def segments_Nil_iff)
qed

lemma take_prefix_iff: "take (length ys) xs = ys \<longleftrightarrow> prefix ys xs"
  by (metis append_eq_conv_conj prefix_def take_is_prefix)

text \<open>The shadowing test is comparability of the two segment lists.\<close>

lemma routes_conflict_prefix:
  "routes_conflict a b \<longleftrightarrow>
     prefix (segments_of (casefold a)) (segments_of (casefold b)) \<or>
     prefix (segments_of (casefold b)) (segments_of (casefold a))"
proof (cases "segments_of (casefold a) = [] \<or> segments_of (casefold b) = []")
  case True
  then show ?thesis by (auto simp: routes_conflict_def rstrip_root_iff)
next
  case False
  then show ?thesis
    by (auto simp: routes_conflict_def rstrip_root_iff path_parts_segments take_prefix_iff Let_def)
qed

lemma routes_conflict_sym: "routes_conflict a b = routes_conflict b a"
  by (auto simp: routes_conflict_prefix)

lemma routes_conflict_root: "segments_of a = [] \<Longrightarrow> routes_conflict a b"
  by (simp add: routes_conflict_prefix segments_casefold)

section \<open>The shape of a canonical key\<close>

text \<open>
  A canonical key starts with a slash, has no empty, \<open>.\<close> or \<open>..\<close> segment, is folded to lower
  case and lies outside the reserved prefix.
\<close>

definition canonical_key :: "string \<Rightarrow> bool" where
  "canonical_key q \<longleftrightarrow> (\<exists>segs. q = ''/'' @ py_join ''/'' segs \<and> segments_of q = segs \<and>
      ''.'' \<notin> set segs \<and> ''..'' \<notin> set segs) \<and> casefold q = q \<and> \<not> uses_reserved q"

lemma canonical_route_path_Inr:
  assumes "canonical_route_path v path = Inr q"
  obtains s decoded where "v = JStr s" "starts_with s ''/''" "\<not> route_path_is_unsafe s" "\<not> bad_escape s"
    "unquote s = Inr decoded" "\<not> route_path_is_unsafe decoded"
    "''.'' \<notin> set (segments_of decoded)" "''..'' \<notin> set (segments_of decoded)"
    "q = casefold (''/'' @ py_join ''/'' (segments_of decoded))" "\<not> uses_reserved q"
proof (cases v)
  case (JStr s)
  note simps = canonical_route_path_def Let_def
  from assms JStr have "starts_with s ''/''" "\<not> route_path_is_unsafe s" "\<not> bad_escape s"
    by (simp_all add: simps split: if_split_asm)
  moreover from this assms JStr obtain decoded where "unquote s = Inr decoded"
    by (cases "unquote s") (simp_all add: simps)
  moreover from calculation assms JStr
  have "\<not> route_path_is_unsafe decoded" "\<not> list_ex (\<lambda>p. p = ''.'' \<or> p = ''..'') (segments_of decoded)"
    by (simp_all add: simps split: if_split_asm)
  moreover from calculation assms JStr
  have "\<not> uses_reserved q \<and> q = casefold (''/'' @ py_join ''/'' (segments_of decoded))"
    by (simp add: simps del: casefold_append casefold_Cons split: if_split_asm)
  ultimately show ?thesis using that JStr by (auto simp: list_ex_iff simp del: casefold_append casefold_Cons)
qed (use assms in \<open>simp_all add: canonical_route_path_def\<close>)

lemma lower_char_dot [simp]: "lower_char c = CHR ''.'' \<longleftrightarrow> c = CHR ''.''"
  by (rule lower_char_eq_fixed) (simp_all add: is_upper_def is_lower_def)

lemma casefold_dots: "casefold p = ''.'' \<longleftrightarrow> p = ''.''" "casefold p = ''..'' \<longleftrightarrow> p = ''..''"
  by (auto simp: casefold_def map_eq_Cons_conv)

lemma segments_canonical: "segments_of (''/'' @ py_join ''/'' (segments_of d)) = segments_of d"
  using segments_of_join [of "segments_of d"] segments_of_no_slash by simp

lemma canonical_route_path_key:
  assumes "canonical_route_path v path = Inr q"
  shows "canonical_key q"
  using assms
proof (rule canonical_route_path_Inr)
  fix s decoded
  let ?segs = "segments_of decoded"
  assume dots: "''.'' \<notin> set ?segs" "''..'' \<notin> set ?segs"
    and q: "q = casefold (''/'' @ py_join ''/'' ?segs)" and res: "\<not> uses_reserved q"
  have segs: "segments_of q = map casefold ?segs"
    unfolding q by (simp only: segments_casefold segments_canonical)
  have "q = ''/'' @ py_join ''/'' (map casefold ?segs)"
    by (simp add: q casefold_join)
  moreover have "''.'' \<notin> set (map casefold ?segs)"
    using dots(1) casefold_dots(1) by (metis (no_types) imageE list.set_map)
  moreover have "''..'' \<notin> set (map casefold ?segs)"
    using dots(2) casefold_dots(2) by (metis (no_types) imageE list.set_map)
  ultimately show ?thesis
    unfolding canonical_key_def using segs res q by (metis casefold_idem)
qed

text \<open>Two canonical keys with the same segments are equal.\<close>

lemma canonical_key_inj:
  assumes "canonical_key p" "canonical_key q" "segments_of p = segments_of q"
  shows "p = q"
  using assms unfolding canonical_key_def by auto

end
