(* ===== verification/V2_Graph.thy ===== *)
theory V2_Graph
  imports Py_Json
begin

text \<open>
  Dependency-cycle detection (\<open>services/nas_v2_spec.py\<close>, \<open>_validate_dependency_graph\<close>): a
  depth-first search over the service table. The set \<open>visiting\<close> of the source is restored on
  every normal return, so it is an argument here; \<open>visited\<close> is threaded through. The search
  terminates because each nested call adds a declared service to \<open>visiting\<close>. The lemmas show
  that it accepts exactly the graphs without a cycle.
\<close>

section \<open>Definitions\<close>

definition dependencies_path :: "string \<Rightarrow> string" where
  "dependencies_path sid = ''$.services.'' @ sid @ ''.dependencies''"

definition declared_dependencies :: "json_dict \<Rightarrow> string \<Rightarrow> json list res" where
  "declared_dependencies services sid =
     (case dict_get services sid of
        None \<Rightarrow> Inl KeyError
      | Some service \<Rightarrow> item_list service ''dependencies'')"

function visit ::
  "json_dict \<Rightarrow> string set \<Rightarrow> string list \<Rightarrow> string \<Rightarrow> string set \<Rightarrow> string set res" where
  "visit services visiting trail sid visited =
     (if sid \<in> visited then Inr visited
      else if sid \<in> visiting then
        (if sid \<in> set trail then Inl (V2Error ''dependency-cycle'' (dependencies_path sid))
         else Inl (ValueError ''trail.index''))
      else and_then (declared_dependencies services sid) (\<lambda>deps.
        and_then
          (for_each deps
             (\<lambda>dependency vis. and_then (item_str dependency ''service'') (\<lambda>target.
                visit services (insert sid visiting) (trail @ [sid]) target vis))
             visited)
          (\<lambda>vis. Inr (insert sid vis))))"
  by pat_completeness auto

termination
proof (relation "measure (\<lambda>(services, visiting, trail, sid, visited). card (dom (map_of services) - visiting))",
    goal_cases)
  case (2 services visiting trail sid visited deps d vis target)
  then have "sid \<in> dom (map_of services)"
    by (auto simp: declared_dependencies_def split: option.splits)
  moreover have "finite (dom (map_of services) - visiting)" by (simp add: finite_dom_map_of)
  ultimately have "card (dom (map_of services) - insert sid visiting) < card (dom (map_of services) - visiting)"
    using 2 by (intro psubset_card_mono) auto
  then show ?case by simp
qed simp

declare visit.simps [simp del]

definition validate_dependency_graph :: "json_dict \<Rightarrow> unit res" where
  "validate_dependency_graph services =
     and_then (for_each (sort (map fst services)) (\<lambda>sid. visit services {} [] sid) {}) (\<lambda>_. Inr ())"

section \<open>The dependency relation\<close>

definition edge :: "json_dict \<Rightarrow> string \<Rightarrow> string \<Rightarrow> bool" where
  "edge services a b \<longleftrightarrow>
     (\<exists>deps d. declared_dependencies services a = Inr deps \<and> d \<in> set deps \<and> item_str d ''service'' = Inr b)"

text \<open>Every service lists well-formed references to declared services.\<close>

definition closed_graph :: "json_dict \<Rightarrow> bool" where
  "closed_graph services \<longleftrightarrow>
     (\<forall>a \<in> set (map fst services). \<exists>deps. declared_dependencies services a = Inr deps \<and>
        (\<forall>d \<in> set deps. \<exists>b. item_str d ''service'' = Inr b \<and> b \<in> set (map fst services)))"

definition acyclic_graph :: "json_dict \<Rightarrow> bool" where
  "acyclic_graph services \<longleftrightarrow> (\<forall>a. \<not> (edge services)\<^sup>+\<^sup>+ a a)"

text \<open>A service is grounded when every dependency chain below it ends.\<close>

inductive grounded :: "json_dict \<Rightarrow> string \<Rightarrow> bool" for services where
  "(\<And>b. edge services a b \<Longrightarrow> grounded services b) \<Longrightarrow> grounded services a"

lemma grounded_step: "(edge services)\<^sup>+\<^sup>+ a b \<Longrightarrow> grounded services a \<Longrightarrow> grounded services b"
  by (induction rule: tranclp_induct) (auto elim: grounded.cases)

lemma grounded_no_cycle: "grounded services a \<Longrightarrow> \<not> (edge services)\<^sup>+\<^sup>+ a a"
proof (induction rule: grounded.induct)
  case (1 a)
  show ?case
  proof
    assume cyc: "(edge services)\<^sup>+\<^sup>+ a a"
    then obtain b where b: "edge services a b" "(edge services)\<^sup>*\<^sup>* b a"
      by (meson tranclpD)
    then have "(edge services)\<^sup>+\<^sup>+ b b"
      by (metis rtranclp_into_tranclp1)
    with 1(2) [OF b(1)] show False by blast
  qed
qed

section \<open>Soundness\<close>

text \<open>A loop that only adds to a set, and adds the key of every element it processes.\<close>

lemma for_each_collects:
  assumes "for_each xs f s = Inr s'" and "P s"
    and "\<And>x t t'. x \<in> set xs \<Longrightarrow> P t \<Longrightarrow> f x t = Inr t' \<Longrightarrow> P t' \<and> t \<subseteq> t' \<and> key x \<in> t'"
  shows "P s' \<and> s \<subseteq> s' \<and> key ` set xs \<subseteq> s'"
  using assms
proof (induction xs arbitrary: s)
  case (Cons x xs)
  then obtain t where t: "f x s = Inr t" "for_each xs f t = Inr s'" by (auto simp: and_then_Inr_iff)
  have "P t \<and> s \<subseteq> t \<and> key x \<in> t" using Cons.prems(3) [OF _ Cons.prems(2) t(1)] by simp
  moreover have "P s' \<and> t \<subseteq> s' \<and> key ` set xs \<subseteq> s'"
    by (rule Cons.IH [OF t(2)]) (use calculation Cons.prems(3) in auto)
  ultimately show ?case by auto
qed simp

lemma visit_cases:
  assumes "visit services visiting trail sid visited = Inr vis'" and "sid \<notin> visited"
  obtains deps vis where "sid \<notin> visiting" "declared_dependencies services sid = Inr deps"
    "for_each deps (\<lambda>d vis. and_then (item_str d ''service'') (\<lambda>t.
        visit services (insert sid visiting) (trail @ [sid]) t vis)) visited = Inr vis"
    "vis' = insert sid vis"
  using assms by (subst (asm) visit.simps) (auto simp: and_then_Inr_iff split: if_splits)

lemma visit_grounded:
  "visit services visiting trail sid visited = Inr vis' \<Longrightarrow> \<forall>a \<in> visited. grounded services a
    \<Longrightarrow> visited \<subseteq> vis' \<and> sid \<in> vis' \<and> (\<forall>a \<in> vis'. grounded services a)"
proof (induction services visiting trail sid visited arbitrary: vis' rule: visit.induct)
  case (1 services visiting trail sid visited)
  show ?case
  proof (cases "sid \<in> visited")
    case True
    with 1(2,3) show ?thesis by (subst (asm) visit.simps) auto
  next
    case False
    let ?body = "\<lambda>d vis. and_then (item_str d ''service'') (\<lambda>t.
        visit services (insert sid visiting) (trail @ [sid]) t vis)"
    obtain deps vis where d: "sid \<notin> visiting" "declared_dependencies services sid = Inr deps"
      "for_each deps ?body visited = Inr vis" "vis' = insert sid vis"
      using 1(2) False by (rule visit_cases)
    have step: "(\<forall>a \<in> t'. grounded services a) \<and> t \<subseteq> t' \<and> projr (item_str x ''service'') \<in> t'"
      if "x \<in> set deps" "\<forall>a \<in> t. grounded services a" "?body x t = Inr t'" for x t t'
    proof -
      from that(3) obtain b where b: "item_str x ''service'' = Inr b"
        "visit services (insert sid visiting) (trail @ [sid]) b t = Inr t'"
        by (auto simp only: and_then_Inr_iff)
      from 1(1) [OF False d(1,2) that(1) b that(2)] b(1) show ?thesis by simp
    qed
    have inv: "(\<forall>a \<in> vis. grounded services a) \<and> visited \<subseteq> vis \<and>
        (\<lambda>x. projr (item_str x ''service'')) ` set deps \<subseteq> vis"
      by (rule for_each_collects [where P = "\<lambda>t. \<forall>a \<in> t. grounded services a", OF d(3) 1(3) step])
    have "b \<in> vis" if "edge services sid b" for b
    proof -
      from that d(2) obtain x where "x \<in> set deps" "item_str x ''service'' = Inr b"
        by (auto simp only: edge_def sum.inject)
      with inv show ?thesis by (metis (no_types, lifting) image_subset_iff sum.sel(2))
    qed
    then have "\<And>b. edge services sid b \<Longrightarrow> grounded services b" using inv by simp
    then have "grounded services sid" by (rule grounded.intros)
    with inv d(4) show ?thesis by auto
  qed
qed

lemma validate_graph_sound:
  assumes "validate_dependency_graph services = Inr u"
  shows "acyclic_graph services"
proof -
  obtain vis where vis: "for_each (sort (map fst services)) (\<lambda>sid. visit services {} [] sid) {} = Inr vis"
    using assms by (auto simp: validate_dependency_graph_def and_then_Inr_iff)
  have g: "grounded services a" if "a \<in> set (map fst services)" for a
  proof -
    have "a \<in> set (sort (map fst services))" using that by simp
    then obtain xs ys t t' where s: "for_each xs (\<lambda>sid. visit services {} [] sid) {} = Inr t"
      "visit services {} [] a t = Inr t'"
      using for_each_set_at [OF vis] by metis
    have "\<forall>b \<in> t. grounded services b"
      using s(1) by (rule for_each_invariant) (use visit_grounded in blast)+
    then show ?thesis using visit_grounded s(2) by blast
  qed
  show ?thesis
    unfolding acyclic_graph_def
  proof (intro allI notI)
    fix a assume cyc: "(edge services)\<^sup>+\<^sup>+ a a"
    then obtain b where "edge services a b" by (meson tranclpD)
    then have "dict_get services a \<noteq> None"
      by (auto simp: edge_def declared_dependencies_def split: option.splits)
    then have "a \<in> set (map fst services)" by (simp add: map_of_eq_None_iff)
    with g cyc grounded_no_cycle show False by blast
  qed
qed

section \<open>Completeness\<close>

text \<open>
  The trail of a call is a chain of dependencies that ends in the visited service, so an
  error names a real cycle.
\<close>

fun chain :: "('a \<Rightarrow> 'a \<Rightarrow> bool) \<Rightarrow> 'a list \<Rightarrow> bool" where
  "chain r (a # b # xs) = (r a b \<and> chain r (b # xs))"
| "chain r _ = True"

lemma chain_snoc: "chain r (xs @ [a]) \<Longrightarrow> r a b \<Longrightarrow> chain r (xs @ [a, b])"
  by (induction r "xs @ [a]" arbitrary: xs rule: chain.induct) (auto simp: Cons_eq_append_conv)

lemma chain_tranclp:
  "chain r (xs @ a # ys @ [b]) \<Longrightarrow> r\<^sup>+\<^sup>+ a b"
proof (induction xs)
  case Nil
  then show ?case
  proof (induction ys arbitrary: a)
    case (Cons y ys)
    then show ?case by (auto intro: tranclp_into_tranclp2)
  qed auto
next
  case (Cons x xs)
  then show ?case by (cases xs) auto
qed

lemma for_each_Inl:
  assumes "for_each xs f s = Inl e"
  obtains x t where "x \<in> set xs" "f x t = Inl e"
  using assms
proof (induction xs arbitrary: s)
  case (Cons x xs)
  then show ?case by (cases "f x s") auto
qed simp

lemma visit_error:
  "visit services visiting trail sid visited = Inl e \<Longrightarrow> visiting = set trail
    \<Longrightarrow> chain (edge services) (trail @ [sid]) \<Longrightarrow> closed_graph services
    \<Longrightarrow> sid \<in> set (map fst services)
    \<Longrightarrow> (\<exists>a. e = V2Error ''dependency-cycle'' (dependencies_path a) \<and> (edge services)\<^sup>+\<^sup>+ a a)"
proof (induction services visiting trail sid visited rule: visit.induct)
  case (1 services visiting trail sid visited)
  from 1(6,5) obtain deps where deps: "declared_dependencies services sid = Inr deps"
    and refs: "\<forall>d \<in> set deps. \<exists>b. item_str d ''service'' = Inr b \<and> b \<in> set (map fst services)"
    by (auto simp: closed_graph_def)
  have nv: "sid \<notin> visited" using 1(2) by (subst (asm) visit.simps) auto
  show ?case
  proof (cases "sid \<in> visiting")
    case True
    with 1(3) obtain xs ys where t: "trail = xs @ sid # ys" by (metis split_list)
    with 1(4) have "(edge services)\<^sup>+\<^sup>+ sid sid" using chain_tranclp [of _ xs sid ys sid] by simp
    moreover have "e = V2Error ''dependency-cycle'' (dependencies_path sid)"
      using 1(2) nv True 1(3) by (subst (asm) visit.simps) auto
    ultimately show ?thesis by blast
  next
    case False
    let ?body = "\<lambda>d vis. and_then (item_str d ''service'') (\<lambda>t.
        visit services (insert sid visiting) (trail @ [sid]) t vis)"
    have "for_each deps ?body visited = Inl e"
      using 1(2) nv False deps by (subst (asm) visit.simps) (auto simp: and_then_Inl_iff)
    then obtain d vis where d: "d \<in> set deps" "?body d vis = Inl e" by (rule for_each_Inl)
    obtain b where b: "item_str d ''service'' = Inr b" "b \<in> set (map fst services)"
      using refs d(1) by blast
    have "edge services sid b" using deps d(1) b(1) by (auto simp: edge_def)
    then have "chain (edge services) ((trail @ [sid]) @ [b])"
      using chain_snoc [OF 1(4)] by simp
    then show ?thesis
      using 1(1) [OF nv False deps d(1) b(1)] d(2) b 1(3,5) by auto
  qed
qed

lemma validate_graph_error:
  assumes "closed_graph services" and "validate_dependency_graph services = Inl e"
  shows "\<exists>a. e = V2Error ''dependency-cycle'' (dependencies_path a) \<and> (edge services)\<^sup>+\<^sup>+ a a"
proof -
  from assms(2) have "for_each (sort (map fst services)) (\<lambda>sid. visit services {} [] sid) {} = Inl e"
    by (auto simp: validate_dependency_graph_def and_then_Inl_iff)
  then obtain sid vis where "sid \<in> set (sort (map fst services))" "visit services {} [] sid vis = Inl e"
    by (rule for_each_Inl)
  with assms(1) show ?thesis using visit_error [of services "{}" "[]" sid vis e] by simp
qed

lemma validate_graph_iff:
  assumes "closed_graph services"
  shows "validate_dependency_graph services = Inr () \<longleftrightarrow> acyclic_graph services"
proof
  assume "acyclic_graph services"
  with validate_graph_error [OF assms] show "validate_dependency_graph services = Inr ()"
    by (cases "validate_dependency_graph services") (auto simp: acyclic_graph_def)
qed (rule validate_graph_sound)

end
