(* ===== verification/Posix_Path.thy ===== *)
theory Posix_Path
  imports Py_Prelude
begin

text \<open>
  \<open>pathlib.PurePosixPath\<close> as the compiler uses it, and the path checks of
  \<open>services/nas_v2_spec.py\<close> built on it (\<open>_safe_absolute_path\<close>, \<open>_under\<close>,
  \<open>_safe_host_path_under\<close>). A pure path is its root (empty, one or two slashes) and its
  components; the constructor drops empty and \<open>.\<close> components and keeps \<open>..\<close>. Symbolic links
  are the host's: \<open>Path.resolve\<close> is a parameter.
\<close>

section \<open>Pure paths\<close>

datatype pure_path = PurePath (path_root: string) (path_tail: "string list")

definition split_root :: "string \<Rightarrow> string \<times> string" where
  "split_root s =
     (if starts_with s ''//'' \<and> \<not> starts_with s ''///'' then (''//'', drop 2 s)
      else if starts_with s ''/'' then (''/'', dropWhile (\<lambda>c. c = CHR ''/'') s)
      else ('''', s))"

definition pure_path :: "string \<Rightarrow> pure_path" where
  "pure_path s =
     PurePath (fst (split_root s))
       (filter (\<lambda>p. p \<noteq> [] \<and> p \<noteq> ''.'') (py_split (CHR ''/'') (snd (split_root s))))"

definition path_str :: "pure_path \<Rightarrow> string" where
  "path_str p =
     (if path_root p = [] \<and> path_tail p = [] then ''.''
      else path_root p @ py_join ''/'' (path_tail p))"

definition is_absolute :: "pure_path \<Rightarrow> bool" where
  "is_absolute p \<longleftrightarrow> path_root p \<noteq> []"

text \<open>\<open>p / s\<close>: an absolute right operand replaces the left one.\<close>

definition path_join :: "pure_path \<Rightarrow> string \<Rightarrow> pure_path" where
  "path_join p s =
     (let q = pure_path s
      in if path_root q \<noteq> [] then q else PurePath (path_root p) (path_tail p @ path_tail q))"

text \<open>
  \<open>_under\<close>: \<open>candidate.relative_to(root)\<close> does not raise, that is, the root and the
  components of \<open>root\<close> are a prefix of those of \<open>candidate\<close>.
\<close>

definition under :: "pure_path \<Rightarrow> pure_path \<Rightarrow> bool" where
  "under root candidate \<longleftrightarrow>
     path_root root = path_root candidate \<and>
     take (length (path_tail root)) (path_tail candidate) = path_tail root"

section \<open>Path checks of the compiler\<close>

definition safe_absolute_path :: "string \<Rightarrow> string \<Rightarrow> pure_path res" where
  "safe_absolute_path s path =
     (if list_ex is_control s then Inl (V2Error ''unsafe-path'' path)
      else let candidate = pure_path s
           in if \<not> is_absolute candidate \<or> ''..'' \<in> set (path_tail candidate)
              then Inl (V2Error ''unsafe-path'' path)
              else Inr candidate)"

definition safe_host_path_under ::
  "(pure_path \<Rightarrow> pure_path) \<Rightarrow> pure_path \<Rightarrow> string \<Rightarrow> string \<Rightarrow> pure_path res" where
  "safe_host_path_under resolve root s path =
     and_then (safe_absolute_path s path) (\<lambda>candidate.
       if \<not> under root candidate then Inl (V2Error ''path-containment'' path)
       else if \<not> under (resolve root) (resolve candidate) then Inl (V2Error ''symlink-escape'' path)
       else Inr candidate)"

section \<open>Facts\<close>

lemma under_iff:
  "under r c \<longleftrightarrow> path_root r = path_root c \<and> (\<exists>t. path_tail c = path_tail r @ t)"
proof
  assume "under r c"
  then show "path_root r = path_root c \<and> (\<exists>t. path_tail c = path_tail r @ t)"
    unfolding under_def by (metis append_take_drop_id)
qed (auto simp: under_def)

lemma under_refl [simp]: "under p p"
  by (simp add: under_def)

lemma under_trans: "under a b \<Longrightarrow> under b c \<Longrightarrow> under a c"
  by (auto simp: under_iff)

lemma under_antisym: "under a b \<Longrightarrow> under b a \<Longrightarrow> a = b"
  by (cases a; cases b) (auto simp: under_iff)

lemma under_chain: "under a c \<Longrightarrow> under b c \<Longrightarrow> under a b \<or> under b a"
  unfolding under_iff by (metis append_eq_append_conv2)

lemma safe_absolute_path_Inr_iff [res_simps]:
  "safe_absolute_path s path = Inr p \<longleftrightarrow>
     p = pure_path s \<and> \<not> list_ex is_control s \<and> is_absolute p \<and> ''..'' \<notin> set (path_tail p)"
  by (auto simp: safe_absolute_path_def Let_def)

lemma safe_absolute_path_Inl:
  "safe_absolute_path s path = Inl e \<Longrightarrow> e = V2Error ''unsafe-path'' path"
  by (auto simp: safe_absolute_path_def Let_def split: if_splits)

lemma safe_host_path_under_Inr_iff [res_simps]:
  "safe_host_path_under resolve root s path = Inr p \<longleftrightarrow>
     safe_absolute_path s path = Inr p \<and> under root p \<and> under (resolve root) (resolve p)"
  by (auto simp: safe_host_path_under_def and_then_Inr_iff split: if_splits)

text \<open>Components of a constructed path contain no separator and are neither empty nor a dot.\<close>

lemma pure_path_tail:
  assumes "p \<in> set (path_tail (pure_path s))"
  shows "p \<noteq> [] \<and> p \<noteq> ''.'' \<and> CHR ''/'' \<notin> set p"
  using assms by (auto simp: pure_path_def dest: py_split_parts)

lemma pure_path_root: "path_root (pure_path s) \<in> {'''', ''/'', ''//''}"
  by (auto simp: pure_path_def split_root_def)

lemma py_join_hd:
  assumes "ps \<noteq> []" and "\<And>p. p \<in> set ps \<Longrightarrow> p \<noteq> [] \<and> c \<notin> set p"
  shows "\<exists>d t. py_join sep ps = d # t \<and> d \<noteq> c"
proof -
  obtain p qs where ps: "ps = p # qs" using assms(1) by (cases ps) auto
  with assms(2) have "p \<noteq> []" "c \<notin> set p" by auto
  then obtain d t where "p = d # t" "d \<noteq> c" by (cases p) auto
  with ps show ?thesis by (cases qs) auto
qed

text \<open>Printing a constructed path and parsing it again gives the same path.\<close>

lemma pure_path_str: "pure_path (path_str (pure_path s)) = pure_path s"
proof -
  obtain r t where p: "pure_path s = PurePath r t" by (cases "pure_path s")
  have r: "r \<in> {'''', ''/'', ''//''}" using pure_path_root [of s] p by simp
  have t: "\<And>x. x \<in> set t \<Longrightarrow> x \<noteq> [] \<and> x \<noteq> ''.'' \<and> CHR ''/'' \<notin> set x"
    using pure_path_tail [of _ s] p by simp
  have flt: "filter (\<lambda>p. p \<noteq> [] \<and> p \<noteq> ''.'') t = t" using t by (simp add: filter_id_conv)
  show ?thesis
  proof (cases "t = []")
    case True
    with r p show ?thesis
      by (auto simp: path_str_def pure_path_def split_root_def)
  next
    case False
    obtain d u where j: "py_join ''/'' t = d # u" and d: "d \<noteq> CHR ''/''"
      using py_join_hd [of t "CHR ''/''" "''/''"] t False by blast
    have "split_root (r @ py_join ''/'' t) = (r, py_join ''/'' t)"
      using r j d by (auto simp: split_root_def)
    moreover have "py_split (CHR ''/'') (py_join ''/'' t) = t"
      using py_split_join [OF False] t by simp
    ultimately show ?thesis
      using False flt by (simp add: p path_str_def pure_path_def [of "r @ _"])
  qed
qed

end
