(* ===== verification/V2_Semantic.thy ===== *)
theory V2_Semantic
  imports V2_Routes V2_Graph Posix_Path
begin

text \<open>
  The semantic validator of the Managed Services compiler (\<open>services/nas_v2_spec.py\<close>,
  \<open>semantic_validate\<close> and the checks it calls), one definition per block of the source, in
  the order of the source. A check is a \<^typ>\<open>unit res\<close>; a block is the first failure of its
  checks. The three registries that the service loop fills (path routes, hostname routes,
  listener ports) are a record. \<open>resolve\<close> is the host's \<open>Path.resolve\<close>, and
  \<open>platform\<close> the optional inventory of platform capabilities.
\<close>

section \<open>Combining checks\<close>

definition all_ok :: "unit res list \<Rightarrow> unit res" where
  "all_ok us = check_all us (\<lambda>u. u)"

definition raise_when :: "bool res \<Rightarrow> exn \<Rightarrow> unit res" where
  "raise_when c e = and_then c (\<lambda>b. if b then Inl e else Inr ())"

definition and_also :: "bool res \<Rightarrow> bool res \<Rightarrow> bool res" where
  "and_also c d = and_then c (\<lambda>b. if b then d else Inr False)"

definition or_else :: "bool res \<Rightarrow> bool res \<Rightarrow> bool res" where
  "or_else c d = and_then c (\<lambda>b. if b then Inr True else d)"

definition negate :: "bool res \<Rightarrow> bool res" where
  "negate c = and_then c (\<lambda>b. Inr (\<not> b))"

definition item_is :: "json \<Rightarrow> string \<Rightarrow> string \<Rightarrow> bool res" where
  "item_is v k s = and_then (item v k) (\<lambda>w. Inr (w = JStr s))"

definition item_in :: "json \<Rightarrow> string \<Rightarrow> string list \<Rightarrow> bool res" where
  "item_in v k ss = and_then (item v k) (\<lambda>w. in_strs w ss)"

definition item_true :: "json \<Rightarrow> string \<Rightarrow> bool res" where
  "item_true v k = and_then (item v k) (\<lambda>w. Inr (truthy w))"

definition get_true :: "json \<Rightarrow> string \<Rightarrow> bool res" where
  "get_true v k = and_then (get v k) (\<lambda>w. Inr (truthy w))"

text \<open>\<open>v[0]\<close>.\<close>

fun first_item :: "json \<Rightarrow> json res" where
  "first_item (JList (x # _)) = Inr x"
| "first_item (JList []) = Inl IndexError"
| "first_item (JStr (c # _)) = Inr (JStr [c])"
| "first_item (JStr []) = Inl IndexError"
| "first_item (JObj _) = Inl KeyError"
| "first_item _ = Inl TypeError"

abbreviation index_str :: "nat \<Rightarrow> string" where
  "index_str n \<equiv> ''['' @ nat_digits n @ '']''"

abbreviation service_path :: "string \<Rightarrow> string" where
  "service_path sid \<equiv> ''$.services.'' @ sid"

section \<open>Runtime paths\<close>

definition app_root :: pure_path where
  "app_root = PurePath ''/'' [''var'', ''lib'', ''nas-control'', ''apps'']"

definition secret_root :: pure_path where
  "secret_root = PurePath ''/'' [''run'', ''nas-secrets'']"

definition unit_suffixes :: "string list" where
  "unit_suffixes = [''.service'', ''.timer'', ''.target'', ''.path'', ''.socket'', ''.mount'']"

definition unit_char :: "char \<Rightarrow> bool" where
  "unit_char c \<longleftrightarrow> is_upper c \<or> is_lower c \<or> is_digit c \<or> c \<in> set ''_.@:-''"

text \<open>\<open>SYSTEMD_UNIT_RE.fullmatch\<close>.\<close>

definition systemd_unit_matches :: "string \<Rightarrow> bool" where
  "systemd_unit_matches unit =
     list_ex (\<lambda>suffix.
        let n = length unit - length suffix
        in length suffix < length unit \<and> drop n unit = suffix \<and> n \<le> 255 \<and> list_all unit_char (take n unit))
       unit_suffixes"

definition validate_runtime_paths ::
  "(pure_path \<Rightarrow> pure_path) \<Rightarrow> string \<Rightarrow> json \<Rightarrow> unit res" where
  "validate_runtime_paths resolve sid service =
     and_then (item service ''runtime'') (\<lambda>runtime.
     and_then (item runtime ''type'') (\<lambda>rtype.
     and_then (in_strs rtype [''quadlet'', ''compose'', ''vm'']) (\<lambda>sourced.
       let root = path_join app_root sid; here = service_path sid @ ''.runtime''
       in if sourced then
            and_then (item_str runtime ''source'') (\<lambda>source.
            and_then (safe_host_path_under resolve root source (here @ ''.source'')) (\<lambda>_. Inr ()))
          else if rtype = JStr ''python'' then
            and_then (item runtime ''dependencies'') (\<lambda>deps. all_ok [
              and_then (has_key deps ''requirementsFile'') (\<lambda>b. if \<not> b then Inr () else
                and_then (item_str deps ''requirementsFile'') (\<lambda>f.
                and_then (safe_host_path_under resolve root f (here @ ''.dependencies.requirementsFile''))
                  (\<lambda>_. Inr ()))),
              and_then (item runtime ''entrypoint'') (\<lambda>entry.
                and_then (has_key entry ''script'') (\<lambda>b. if \<not> b then Inr () else
                  and_then (item_str entry ''script'') (\<lambda>f.
                  and_then (safe_host_path_under resolve root f (here @ ''.entrypoint.script''))
                    (\<lambda>_. Inr ()))))])
          else if rtype = JStr ''exec'' then
            and_then (item runtime ''command'') (\<lambda>command.
            and_then (first_item command) (\<lambda>arg.
            and_then (as_str arg) (\<lambda>arg0.
            and_then (safe_absolute_path arg0 (here @ ''.command[0]'')) (\<lambda>executable.
              if executable = pure_path ''/'' then Inl (V2Error ''runtime-command'' (here @ ''.command[0]''))
              else Inr ()))))
          else if rtype = JStr ''systemd'' then
            and_then (item_str runtime ''unit'') (\<lambda>unit.
              if \<not> systemd_unit_matches unit then Inl (V2Error ''runtime-unit'' (here @ ''.unit''))
              else Inr ())
          else Inr ())))"

section \<open>Listeners and route publications\<close>

text \<open>\<open>range(port, port + 1)\<close> or \<open>range(start, end + 1)\<close>.\<close>

definition listener_ports :: "json \<Rightarrow> int list res" where
  "listener_ports exposure =
     and_then (has_key exposure ''port'') (\<lambda>single.
       if single then and_then (item_int exposure ''port'') (\<lambda>p. Inr [p..p])
       else and_then (item_int exposure ''start'') (\<lambda>a.
            and_then (item_int exposure ''end'') (\<lambda>b. Inr [a..b])))"

type_synonym port_owners = "(int, (string \<times> string) set) dict"

definition owners_at :: "port_owners \<Rightarrow> int \<Rightarrow> (string \<times> string) set" where
  "owners_at owners port = (case dict_get owners port of None \<Rightarrow> {} | Some s \<Rightarrow> s)"

definition add_owner :: "int \<Rightarrow> string \<times> string \<Rightarrow> port_owners \<Rightarrow> port_owners" where
  "add_owner port x owners = dict_set port (insert x (owners_at owners port)) owners"

definition owner_service :: "string \<Rightarrow> string" where
  "owner_service owner = takeWhile (\<lambda>c. c \<noteq> CHR '':'') owner"

text \<open>The policy a service runs under, as the publication check reads it.\<close>

definition publication_policy :: "json \<Rightarrow> json \<Rightarrow> json res" where
  "publication_policy profiles service =
     and_then (has_key service ''networkProfile'') (\<lambda>b.
       if b then and_then (item_str service ''networkProfile'') (item profiles)
       else get_or service ''network'' JEmpty)"

definition host_listener_owners :: "string \<Rightarrow> json \<Rightarrow> port_owners \<Rightarrow> port_owners res" where
  "host_listener_owners sid service owners =
     and_then (item_dict service ''listeners'') (\<lambda>listeners.
       for_each listeners (\<lambda>(lid, listener) owners.
         and_then (and_also (item_is listener ''protocol'' ''tcp'') (has_key listener ''targetPort'')) (\<lambda>b.
           if b then and_then (item_int listener ''targetPort'') (\<lambda>p.
             Inr (add_owner p (sid, sid @ '':'' @ lid) owners))
           else Inr owners)) owners)"

text \<open>One route: a loopback target of an isolated service is collected, of a host service recorded.\<close>

definition route_publication ::
  "string \<Rightarrow> json \<Rightarrow> string \<times> json \<Rightarrow> port_owners \<times> (string \<times> string \<times> int) list
     \<Rightarrow> (port_owners \<times> (string \<times> string \<times> int) list) res" where
  "route_publication sid mode = (\<lambda>(rid, route) (owners, isolated).
     and_then (item route ''target'') (\<lambda>target.
     and_then (item_in target ''type'' [''http'', ''https'']) (\<lambda>web.
       if \<not> web then Inr (owners, isolated)
       else and_then (item_str target ''host'') (\<lambda>raw.
         let host = (if mode = JStr ''host'' then py_lower raw else raw)
         in if host \<notin> set [''127.0.0.1'', ''localhost'', ''::1''] then Inr (owners, isolated)
            else if mode = JStr ''isolated'' then
              and_then (item_int target ''port'') (\<lambda>p. Inr (owners, isolated @ [(sid, rid, p)]))
            else if mode = JStr ''host'' then
              and_then (item_int target ''port'') (\<lambda>p.
                Inr (add_owner p (sid, sid @ '':'' @ rid) owners, isolated))
            else Inr (owners, isolated)))))"

definition service_publications ::
  "json \<Rightarrow> string \<times> json \<Rightarrow> port_owners \<times> (string \<times> string \<times> int) list
     \<Rightarrow> (port_owners \<times> (string \<times> string \<times> int) list) res" where
  "service_publications profiles = (\<lambda>(sid, service) (owners, isolated).
     and_then (publication_policy profiles service) (\<lambda>policy.
     and_then (get_or policy ''mode'' (JStr ''host'')) (\<lambda>mode.
     and_then (if mode = JStr ''host'' then host_listener_owners sid service owners else Inr owners) (\<lambda>owners.
     and_then (item_dict service ''routes'') (\<lambda>routes.
       for_each routes (route_publication sid mode) (owners, isolated))))))"

definition claim_isolated ::
  "string \<times> string \<times> int \<Rightarrow> port_owners \<Rightarrow> port_owners res" where
  "claim_isolated = (\<lambda>(sid, rid, port) owners.
     if \<exists>(s, _) \<in> owners_at owners port. s \<noteq> sid
     then Inl (V2Error ''route-port-conflict'' (service_path sid @ ''.routes.'' @ rid @ ''.target.port''))
     else Inr (add_owner port (sid, sid @ '':'' @ rid) owners))"

definition tcp_owners :: "(string \<times> int, string) dict \<Rightarrow> port_owners" where
  "tcp_owners listener_owners =
     fold (\<lambda>((protocol, port), owner) owners.
         if protocol = ''tcp'' then add_owner port (owner_service owner, owner) owners else owners)
       listener_owners []"

text \<open>\<open>sorted\<close> on triples of strings and ports is lexicographic.\<close>

definition publication_order :: "(string \<times> string \<times> int) list \<Rightarrow> (string \<times> string \<times> int) list" where
  "publication_order xs = sort_key (\<lambda>(s, r, p). s) (sort_key (\<lambda>(s, r, p). r) (sort_key (\<lambda>(s, r, p). p) xs))"

definition validate_route_publications :: "json \<Rightarrow> (string \<times> int, string) dict \<Rightarrow> unit res" where
  "validate_route_publications document listener_owners =
     and_then (item_dict document ''services'') (\<lambda>services.
     and_then (item document ''networkProfiles'') (\<lambda>profiles.
     and_then (for_each services (service_publications profiles) (tcp_owners listener_owners, []))
       (\<lambda>(owners, isolated).
     and_then (for_each (publication_order isolated) claim_isolated owners) (\<lambda>_. Inr ()))))"

section \<open>Managed files\<close>

definition reserved_roots :: "pure_path list" where
  "reserved_roots = map pure_path
     [''/proc'', ''/sys'', ''/dev'', ''/nix/store'', ''/run/nas-control'', ''/run/credentials'',
      ''/var/lib/nas-control'']"

definition overlap :: "pure_path \<Rightarrow> pure_path \<Rightarrow> bool" where
  "overlap a b \<longleftrightarrow> under a b \<or> under b a"

definition storage_overlap :: "json \<Rightarrow> pure_path \<Rightarrow> string \<Rightarrow> unit res" where
  "storage_overlap service target here =
     and_then (item_list service ''storage'') (\<lambda>attachments.
       check_all attachments (\<lambda>a. and_then (item_str a ''mountPath'') (\<lambda>m.
         if overlap (pure_path m) target
         then Inl (V2Error ''managed-file-conflict'' (here @ ''.destination'')) else Inr ())))"

definition credential_overlap :: "json \<Rightarrow> pure_path \<Rightarrow> string \<Rightarrow> unit res" where
  "credential_overlap service target here =
     and_then (item_list service ''credentials'') (\<lambda>attachments.
       check_all attachments (\<lambda>a.
         and_then (or_else (negate (item_is a ''use'' ''file'')) (negate (has_key a ''mountPath''))) (\<lambda>skip.
           if skip then Inr ()
           else and_then (item_str a ''mountPath'') (\<lambda>m.
             if overlap (pure_path m) target
             then Inl (V2Error ''managed-file-conflict'' (here @ ''.destination'')) else Inr ()))))"

definition validate_managed_file ::
  "string \<Rightarrow> json \<Rightarrow> nat \<times> json \<Rightarrow> string set \<times> pure_path list \<Rightarrow> (string set \<times> pure_path list) res" where
  "validate_managed_file sid service = (\<lambda>(index, entry) (seen, destinations).
     let here = service_path sid @ ''.files'' @ index_str index in
     and_then (item_str entry ''id'') (\<lambda>file_id.
     if file_id \<in> seen then Inl (V2Error ''managed-file-conflict'' (here @ ''.id'')) else
     and_then (item_str entry ''destination'') (\<lambda>destination.
     and_then (safe_absolute_path destination (here @ ''.destination'')) (\<lambda>target.
     if path_str target \<noteq> destination \<or> starts_with destination ''//''
     then Inl (V2Error ''managed-file-path'' (here @ ''.destination''))
     else if target = pure_path ''/'' \<or> list_ex (\<lambda>root. under root target) reserved_roots
     then Inl (V2Error ''managed-file-path'' (here @ ''.destination''))
     else if list_ex (\<lambda>previous. overlap previous target) destinations
     then Inl (V2Error ''managed-file-conflict'' (here @ ''.destination''))
     else and_then (item2 entry ''content'' ''literal'') (\<lambda>literal.
     and_then (as_str literal) (\<lambda>payload.
     if CHR 0x00 \<in> set payload \<or> length payload > 65536
     then Inl (V2Error ''managed-file-content'' (here @ ''.content.literal''))
     else and_then (storage_overlap service target here) (\<lambda>_.
     and_then (credential_overlap service target here) (\<lambda>_.
     Inr (insert file_id seen, destinations @ [target])))))))))"

definition validate_managed_files :: "string \<Rightarrow> json \<Rightarrow> unit res" where
  "validate_managed_files sid service =
     and_then (get_or service ''files'' (JList [])) (\<lambda>entries.
       if \<not> truthy entries then Inr ()
       else and_then (iter entries) (\<lambda>xs.
         and_then (for_each (enumerate 0 xs) (validate_managed_file sid service) ({}, [])) (\<lambda>_.
           Inl (V2Error ''managed-file-unavailable'' (service_path sid @ ''.files'')))))"

section \<open>Document-level checks\<close>

definition template_lacks :: "json \<Rightarrow> string \<Rightarrow> bool" where
  "template_lacks template marker =
     (case template of JStr t \<Rightarrow> \<not> contains t marker | _ \<Rightarrow> True)"

definition check_resource :: "string \<times> json \<Rightarrow> unit res" where
  "check_resource = (\<lambda>(rid, resource).
     let here = ''$.storageResources.'' @ rid in
     and_then (item_str resource ''path'') (\<lambda>p.
     and_then (safe_absolute_path p (here @ ''.path'')) (\<lambda>_.
     and_then (get resource ''pathTemplate'') (\<lambda>template.
     and_then (if template = JNull then Inr ()
               else and_then (as_str template) (\<lambda>t.
                 and_then (safe_absolute_path t (here @ ''.pathTemplate'')) (\<lambda>_. Inr ()))) (\<lambda>_.
     and_then (item resource ''scope'') (\<lambda>scope.
     if scope = JStr ''user'' \<and> template_lacks template ''{user}''
     then Inl (V2Error ''storage-template'' (here @ ''.pathTemplate''))
     else if scope = JStr ''instance'' \<and> template_lacks template ''{instance}''
     then Inl (V2Error ''storage-template'' (here @ ''.pathTemplate''))
     else and_then (item resource ''backup'') (\<lambda>backup. all_ok [
       raise_when (and_also (item_in resource ''stateClass'' [''cache'', ''ephemeral'']) (item_true backup ''enabled''))
         (V2Error ''backup-state-class'' (here @ ''.backup.enabled'')),
       raise_when (and_also (item_is backup ''consistency'' ''zfs-snapshot'') (negate (get_true resource ''dataset'')))
         (V2Error ''backup-consistency'' (here @ ''.dataset''))])))))))"

definition check_credential :: "(pure_path \<Rightarrow> pure_path) \<Rightarrow> string \<times> json \<Rightarrow> unit res" where
  "check_credential resolve = (\<lambda>(cid, credential).
     let here = ''$.credentials.'' @ cid @ ''.path'' in
     and_then (item_str credential ''path'') (\<lambda>p.
       case safe_host_path_under resolve secret_root p here of
         Inl e \<Rightarrow> Inl (case e of V2Error c _ \<Rightarrow>
                         if c = ''path-containment'' then V2Error ''credential-path'' here else e
                       | _ \<Rightarrow> e)
       | Inr _ \<Rightarrow> Inr ()))"

definition check_profile :: "string \<times> json \<Rightarrow> unit res" where
  "check_profile = (\<lambda>(pid, profile).
     raise_when (and_also (has_key profile ''vlanId'') (negate (item_is profile ''mode'' ''isolated'')))
       (V2Error ''network-vlan'' (''$.networkProfiles.'' @ pid @ ''.vlanId'')))"

section \<open>Checks of one service\<close>

definition check_workload :: "string \<Rightarrow> json \<Rightarrow> unit res" where
  "check_workload sid service =
     and_then (item service ''workload'') (\<lambda>workload.
     and_then (item workload ''kind'') (\<lambda>kind.
       let here = service_path sid @ ''.workload'' in
       if kind = JStr ''daemon'' then all_ok [
         raise_when (and_also (item_is workload ''activation'' ''on-demand'') (negate (has_key workload ''idleSeconds'')))
           (V2Error ''workload-lifecycle'' (here @ ''.idleSeconds'')),
         raise_when (get_true workload ''schedules'')
           (V2Error ''workload-lifecycle'' (here @ ''.schedules''))]
       else if kind = JStr ''job'' then
         raise_when (or_else (has_key workload ''activation'') (has_key workload ''idleSeconds''))
           (V2Error ''workload-lifecycle'' here)
       else if kind = JStr ''session'' then all_ok [
         raise_when (or_else (has_key workload ''activation'')
             (or_else (has_key workload ''schedules'') (has_key workload ''idleSeconds'')))
           (V2Error ''workload-lifecycle'' here),
         raise_when (and_then (item2 service ''runtime'' ''type'') (\<lambda>t. Inr (t \<noteq> JStr ''oci'')))
           (V2Error ''runtime-session'' (service_path sid @ ''.runtime.type''))]
       else Inr ()))"

definition check_platform :: "string set option \<Rightarrow> string \<Rightarrow> json \<Rightarrow> unit res" where
  "check_platform platform sid service =
     (case platform of
        None \<Rightarrow> Inr ()
      | Some available \<Rightarrow>
          and_then (item_list service ''requiresCapabilities'') (\<lambda>xs.
          and_then (map_res as_str xs) (\<lambda>required.
            if sort (remdups (filter (\<lambda>c. c \<notin> available) required)) \<noteq> []
            then Inl (V2Error ''platform-capability'' (service_path sid @ ''.requiresCapabilities''))
            else Inr ())))"

text \<open>Not a runtime with a stable bridge: V2-managed OCI, Quadlet or Compose.\<close>

definition lacks_bridge :: "json \<Rightarrow> json \<Rightarrow> bool res" where
  "lacks_bridge service rtype =
     or_else (negate (item_true service ''managed'')) (negate (in_strs rtype [''oci'', ''quadlet'', ''compose'']))"

text \<open>The policy that applies to a service: a named profile, else its own \<open>network\<close>.\<close>

definition service_policy :: "json \<Rightarrow> string \<Rightarrow> json \<Rightarrow> json res" where
  "service_policy profiles sid service =
     and_then (has_key service ''networkProfile'') (\<lambda>profiled.
     and_then (has_key service ''network'') (\<lambda>direct.
     if profiled \<and> direct then Inl (V2Error ''network-policy'' (service_path sid))
     else if profiled then and_then (item_str service ''networkProfile'') (\<lambda>p.
       and_then (has_key profiles p) (\<lambda>known.
         if known then item profiles p
         else Inl (V2Error ''missing-reference'' (service_path sid @ ''.networkProfile''))))
     else get service ''network''))"

definition check_vlan :: "string \<Rightarrow> json \<Rightarrow> json \<Rightarrow> unit res" where
  "check_vlan sid service policy =
     and_then (has_key policy ''vlanId'') (\<lambda>vlan.
       if \<not> vlan then Inr () else all_ok [
         raise_when (negate (item_is policy ''mode'' ''isolated''))
           (V2Error ''network-vlan'' (service_path sid @ ''.network.vlanId'')),
         raise_when (and_then (item2 service ''runtime'' ''type'') (lacks_bridge service))
           (V2Error ''network-vlan-runtime'' (service_path sid @ ''.network.vlanId''))])"

definition check_isolated :: "string \<Rightarrow> json \<Rightarrow> json \<Rightarrow> unit res" where
  "check_isolated sid service policy =
     and_then (get policy ''mode'') (\<lambda>mode.
       if mode \<noteq> JStr ''isolated'' then Inr ()
       else and_then (item2 service ''workload'' ''kind'') (\<lambda>kind.
         and_then (item2 service ''runtime'' ''type'') (\<lambda>rtype.
           if kind \<noteq> JStr ''session'' then
             raise_when (lacks_bridge service rtype)
               (V2Error ''network-isolated-runtime'' (service_path sid @ ''.network.mode''))
           else
             raise_when (or_else (item_true service ''routes'') (item_true service ''listeners''))
               (V2Error ''network-session-endpoints'' (service_path sid)))))"

definition check_network :: "json \<Rightarrow> string \<Rightarrow> json \<Rightarrow> unit res" where
  "check_network profiles sid service =
     and_then (service_policy profiles sid service) (\<lambda>policy.
       if is_obj policy then all_ok [check_vlan sid service policy, check_isolated sid service policy]
       else Inr ())"

definition check_storage_attachment ::
  "json \<Rightarrow> string \<Rightarrow> json \<Rightarrow> nat \<times> json \<Rightarrow> string set \<Rightarrow> string set res" where
  "check_storage_attachment resources sid service = (\<lambda>(index, attachment) mount_targets.
     let here = service_path sid @ ''.storage'' @ index_str index in
     and_then (item_str attachment ''resource'') (\<lambda>rid.
     and_then (has_key resources rid) (\<lambda>known.
     if \<not> known then Inl (V2Error ''missing-reference'' (here @ ''.resource'')) else
     and_then (item_str attachment ''mountPath'') (\<lambda>m.
     and_then (safe_absolute_path m (here @ ''.mountPath'')) (\<lambda>mount.
     if path_str mount \<in> mount_targets then Inl (V2Error ''storage-conflict'' (here @ ''.mountPath'')) else
     and_then (item2 service ''runtime'' ''type'') (\<lambda>rtype.
     and_then (all_ok [
       raise_when (and_also (Inr (rtype = JStr ''compose'')) (negate (get_true attachment ''target'')))
         (V2Error ''compose-target'' (here @ ''.target'')),
       raise_when (and_also (Inr (rtype = JStr ''vm'')) (negate (get_true attachment ''mountTag'')))
         (V2Error ''vm-storage'' (here @ ''.mountTag''))]) (\<lambda>_.
     Inr (insert (path_str mount) mount_targets))))))))"

definition check_storage :: "json \<Rightarrow> string \<Rightarrow> json \<Rightarrow> unit res" where
  "check_storage resources sid service =
     and_then (item_list service ''storage'') (\<lambda>xs.
     and_then (for_each (enumerate 0 xs) (check_storage_attachment resources sid service) {}) (\<lambda>_. Inr ()))"

definition check_credential_attachment :: "json \<Rightarrow> string \<Rightarrow> json \<Rightarrow> nat \<times> json \<Rightarrow> unit res" where
  "check_credential_attachment credentials sid service = (\<lambda>(index, attachment).
     let here = service_path sid @ ''.credentials'' @ index_str index in
     and_then (item_str attachment ''credential'') (\<lambda>cid.
     and_then (has_key credentials cid) (\<lambda>known.
     if \<not> known then Inl (V2Error ''missing-reference'' (here @ ''.credential'')) else
     and_then (item_is attachment ''use'' ''file'') (\<lambda>file. all_ok [
       if \<not> file then Inr () else
         and_then (has_key attachment ''mountPath'') (\<lambda>b.
         if \<not> b then Inl (V2Error ''credential-attachment'' (here @ ''.mountPath'')) else
         and_then (item_str attachment ''mountPath'') (\<lambda>m.
         and_then (safe_absolute_path m (here @ ''.mountPath'')) (\<lambda>_. Inr ()))),
       raise_when (and_also (and_then (item2 service ''runtime'' ''type'') (\<lambda>t. Inr (t = JStr ''compose'')))
           (negate (get_true attachment ''target'')))
         (V2Error ''compose-target'' (here @ ''.target''))]))))"

definition check_credentials :: "json \<Rightarrow> string \<Rightarrow> json \<Rightarrow> unit res" where
  "check_credentials credentials sid service =
     and_then (item_list service ''credentials'') (\<lambda>xs.
       check_all (enumerate 0 xs) (check_credential_attachment credentials sid service))"

definition check_accelerator :: "string \<Rightarrow> json \<Rightarrow> nat \<times> json \<Rightarrow> unit res" where
  "check_accelerator sid service = (\<lambda>(index, accelerator).
     let here = service_path sid @ ''.resources.accelerators'' @ index_str index in
     and_then (item2 service ''runtime'' ''type'') (\<lambda>rtype.
       if rtype = JStr ''vm'' then
         and_then (get_or accelerator ''device'' (JStr [])) (\<lambda>selector.
           raise_when (or_else (negate (item_is accelerator ''mode'' ''passthrough''))
               (and_then (as_str selector) (\<lambda>s. Inr (\<not> starts_with s ''pci:''))))
             (V2Error ''gpu-passthrough'' here))
       else and_then (and_also (Inr (rtype = JStr ''compose'')) (negate (get_true accelerator ''target''))) (\<lambda>b.
         if b then Inl (V2Error ''compose-target'' (here @ ''.target''))
         else raise_when (item_is accelerator ''mode'' ''passthrough'') (V2Error ''gpu-mode'' (here @ ''.mode'')))))"

definition check_accelerators :: "string \<Rightarrow> json \<Rightarrow> unit res" where
  "check_accelerators sid service =
     and_then (item service ''resources'') (\<lambda>res.
     and_then (item_list res ''accelerators'') (\<lambda>xs.
       check_all (enumerate 0 xs) (check_accelerator sid service)))"

definition declared_capabilities :: "json \<Rightarrow> string list res" where
  "declared_capabilities service =
     and_then (item2 service ''authorization'' ''capabilities'') (\<lambda>caps.
     and_then (iter caps) (map_res (\<lambda>c. item_str c ''id'')))"

section \<open>Routes, listeners and dependencies of one service\<close>

record registry =
  route_paths :: "(string, string) dict"
  route_hostpaths :: "(string \<times> string, string) dict"
  listener_owners :: "(string \<times> int, string) dict"

definition empty_registry :: registry where
  "empty_registry = \<lparr>route_paths = [], route_hostpaths = [], listener_owners = []\<rparr>"

text \<open>
  A path may be registered unless it equals a registered path, or one of the two is the
  root; parent and child paths may coexist.
\<close>

definition check_path_free :: "string \<Rightarrow> string \<Rightarrow> string \<Rightarrow> string \<Rightarrow> unit res" where
  "check_path_free normalized registered duplicate_at overlap_at =
     (if \<not> routes_conflict normalized registered then Inr ()
      else if normalized = registered then Inl (V2Error ''route-conflict'' duplicate_at)
      else if normalized = ''/'' \<or> registered = ''/'' then Inl (V2Error ''route-overlap'' overlap_at)
      else Inr ())"

definition claim_path :: "string \<Rightarrow> string \<Rightarrow> string \<Rightarrow> registry \<Rightarrow> registry res" where
  "claim_path at normalized owner reg =
     and_then (check_all (route_paths reg) (\<lambda>(registered, _). check_path_free normalized registered at at)) (\<lambda>_.
     Inr (reg\<lparr>route_paths := dict_set normalized owner (route_paths reg)\<rparr>))"

definition register_path :: "string \<Rightarrow> string \<Rightarrow> json \<Rightarrow> registry \<Rightarrow> registry res" where
  "register_path sid rid route_path reg =
     (let at = service_path sid @ ''.routes.'' @ rid @ ''.exposure.paths'' in
      and_then (canonical_route_path route_path at) (\<lambda>normalized.
        claim_path at normalized (sid @ '':'' @ rid) reg))"

definition claim_hostpath :: "string \<Rightarrow> string \<times> string \<Rightarrow> string \<Rightarrow> registry \<Rightarrow> registry res" where
  "claim_hostpath at = (\<lambda>(host, normalized) owner reg.
     and_then (check_all (route_hostpaths reg) (\<lambda>((registered_host, registered_path), _).
         if registered_host \<noteq> host then Inr ()
         else check_path_free normalized registered_path (at @ ''.hostnames'') (at @ ''.path''))) (\<lambda>_.
     Inr (reg\<lparr>route_hostpaths := dict_set (host, normalized) owner (route_hostpaths reg)\<rparr>)))"

definition register_hostname ::
  "string \<Rightarrow> string \<Rightarrow> string \<Rightarrow> json \<Rightarrow> registry \<Rightarrow> registry res" where
  "register_hostname sid rid normalized hostname reg =
     (let at = service_path sid @ ''.routes.'' @ rid @ ''.exposure'' in
      and_then (as_str hostname) (\<lambda>name.
        claim_hostpath at (casefold name, normalized) (sid @ '':'' @ rid) reg))"

definition check_route_auth :: "string list \<Rightarrow> string \<Rightarrow> string \<times> json \<Rightarrow> unit res" where
  "check_route_auth declared sid = (\<lambda>(rid, route).
     let at = service_path sid @ ''.routes.'' @ rid @ ''.auth.capability'' in
     and_then (item route ''auth'') (\<lambda>auth.
     and_then (item_is auth ''mode'' ''identity'') (\<lambda>identity.
       if identity then
         and_then (item_str auth ''capability'') (\<lambda>capability.
           if capability \<noteq> ''access'' \<and> capability \<notin> set declared
           then Inl (V2Error ''capability-reference'' at) else Inr ())
       else raise_when (has_key auth ''capability'') (V2Error ''route-auth'' at))))"

definition check_route :: "string list \<Rightarrow> string \<Rightarrow> string \<times> json \<Rightarrow> registry \<Rightarrow> registry res" where
  "check_route declared sid = (\<lambda>(rid, route) reg.
     and_then (check_route_auth declared sid (rid, route)) (\<lambda>_.
     and_then (item route ''exposure'') (\<lambda>exposure.
     and_then (item_is exposure ''type'' ''path'') (\<lambda>by_path.
       if by_path then
         and_then (item_list exposure ''paths'') (\<lambda>paths. for_each paths (register_path sid rid) reg)
       else
         and_then (item exposure ''path'') (\<lambda>p.
         and_then (canonical_route_path p (service_path sid @ ''.routes.'' @ rid @ ''.exposure.path'')) (\<lambda>normalized.
         and_then (item_list exposure ''hostnames'') (\<lambda>hostnames.
           for_each hostnames (register_hostname sid rid normalized) reg)))))))"

definition check_routes :: "string \<Rightarrow> json \<Rightarrow> registry \<Rightarrow> registry res" where
  "check_routes sid service reg =
     and_then (declared_capabilities service) (\<lambda>declared.
       if \<not> distinct declared
       then Inl (V2Error ''capability-duplicate'' (service_path sid @ ''.authorization.capabilities''))
       else and_then (item_dict service ''routes'') (\<lambda>routes.
         for_each routes (check_route declared sid) reg))"

definition claim_port :: "string \<Rightarrow> string \<Rightarrow> string \<Rightarrow> int \<Rightarrow> registry \<Rightarrow> registry res" where
  "claim_port sid lid protocol port reg =
     (case dict_get (listener_owners reg) (protocol, port) of
        Some _ \<Rightarrow> Inl (V2Error ''listener-conflict'' (service_path sid @ ''.listeners.'' @ lid @ ''.exposure''))
      | None \<Rightarrow> Inr (reg\<lparr>listener_owners :=
          dict_set (protocol, port) (sid @ '':'' @ lid) (listener_owners reg)\<rparr>))"

definition check_listener :: "string \<Rightarrow> string \<times> json \<Rightarrow> registry \<Rightarrow> registry res" where
  "check_listener sid = (\<lambda>(lid, listener) reg.
     let at = service_path sid @ ''.listeners.'' @ lid in
     and_then (item listener ''exposure'') (\<lambda>exposure.
     and_then (all_ok [
       raise_when (and_also (has_key exposure ''start'')
           (and_then (item_int exposure ''end'') (\<lambda>b. and_then (item_int exposure ''start'') (\<lambda>a. Inr (b < a)))))
         (V2Error ''listener-range'' (at @ ''.exposure'')),
       raise_when (and_also (has_key listener ''targetPort'') (negate (has_key exposure ''port'')))
         (V2Error ''listener-target-port'' (at @ ''.targetPort''))]) (\<lambda>_.
     and_then (listener_ports exposure) (\<lambda>ports.
       for_each ports (\<lambda>port reg. and_then (item_str listener ''protocol'') (\<lambda>protocol.
         claim_port sid lid protocol port reg)) reg))))"

definition check_listeners :: "string \<Rightarrow> json \<Rightarrow> registry \<Rightarrow> registry res" where
  "check_listeners sid service reg =
     and_then (item_dict service ''listeners'') (\<lambda>listeners. for_each listeners (check_listener sid) reg)"

definition check_condition :: "string \<Rightarrow> json \<Rightarrow> json \<Rightarrow> unit res" where
  "check_condition at dependency target =
     and_then (item dependency ''condition'') (\<lambda>condition.
     and_then (item2 target ''workload'' ''kind'') (\<lambda>kind.
       if condition = JStr ''completed'' \<and> kind \<noteq> JStr ''job''
       then Inl (V2Error ''dependency-condition'' (at @ ''.condition''))
       else if condition = JStr ''ready'' then
         (if kind = JStr ''job'' then Inl (V2Error ''dependency-condition'' (at @ ''.condition''))
          else raise_when (negate (has_key target ''readiness''))
            (V2Error ''dependency-condition'' (at @ ''.condition'')))
       else Inr ()))"

definition check_dependency ::
  "json_dict \<Rightarrow> string \<Rightarrow> json \<Rightarrow> nat \<times> json \<Rightarrow> string set \<Rightarrow> string set res" where
  "check_dependency services sid service = (\<lambda>(index, dependency) seen.
     let at = service_path sid @ ''.dependencies'' @ index_str index in
     and_then (item_str dependency ''service'') (\<lambda>target_id.
     if target_id = sid then Inl (V2Error ''dependency-self'' at)
     else if target_id \<in> seen then Inl (V2Error ''dependency-duplicate'' at)
     else (case dict_get services target_id of
       None \<Rightarrow> Inl (V2Error ''missing-reference'' (at @ ''.service''))
     | Some target \<Rightarrow>
         and_then (raise_when (and_also (item_true service ''enabled'') (negate (item_true target ''enabled'')))
           (V2Error ''dependency-disabled'' (at @ ''.service''))) (\<lambda>_.
         and_then (check_condition at dependency target) (\<lambda>_.
         Inr (insert target_id seen))))))"

definition check_dependencies :: "json_dict \<Rightarrow> string \<Rightarrow> json \<Rightarrow> unit res" where
  "check_dependencies services sid service =
     and_then (item_list service ''dependencies'') (\<lambda>xs.
     and_then (for_each (enumerate 0 xs) (check_dependency services sid service) {}) (\<lambda>_. Inr ()))"

section \<open>The validator\<close>

definition check_service ::
  "(pure_path \<Rightarrow> pure_path) \<Rightarrow> string set option \<Rightarrow> json \<Rightarrow> json \<Rightarrow> json \<Rightarrow> json_dict
     \<Rightarrow> string \<times> json \<Rightarrow> registry \<Rightarrow> registry res" where
  "check_service resolve platform resources credentials profiles services = (\<lambda>(sid, service) reg.
     and_then (all_ok [
       validate_runtime_paths resolve sid service,
       check_workload sid service,
       check_platform platform sid service,
       check_network profiles sid service,
       check_storage resources sid service,
       check_credentials credentials sid service,
       validate_managed_files sid service,
       check_accelerators sid service]) (\<lambda>_.
     and_then (check_routes sid service reg) (\<lambda>reg.
     and_then (check_listeners sid service reg) (\<lambda>reg.
     and_then (check_dependencies services sid service) (\<lambda>_. Inr reg)))))"

definition semantic_validate ::
  "(pure_path \<Rightarrow> pure_path) \<Rightarrow> json \<Rightarrow> string set option \<Rightarrow> unit res" where
  "semantic_validate resolve document platform =
     and_then (item document ''storageResources'') (\<lambda>resources.
     and_then (item document ''credentials'') (\<lambda>credentials.
     and_then (item document ''networkProfiles'') (\<lambda>profiles.
     and_then (item_dict document ''services'') (\<lambda>services.
     and_then (dict_items resources) (\<lambda>rs.
     and_then (check_all rs check_resource) (\<lambda>_.
     and_then (dict_items credentials) (\<lambda>cs.
     and_then (check_all cs (check_credential resolve)) (\<lambda>_.
     and_then (dict_items profiles) (\<lambda>ps.
     and_then (check_all ps check_profile) (\<lambda>_.
     and_then (for_each services (check_service resolve platform resources credentials profiles services)
         empty_registry) (\<lambda>reg.
     and_then (validate_route_publications document (listener_owners reg)) (\<lambda>_.
     validate_dependency_graph services))))))))))))"

end
