(* ===== verification/Claim_Registry.thy ===== *)
theory Claim_Registry
  imports Py_Prelude
begin

text \<open>
  Registries of claims, the interface that several loops of the program share: a loop visits
  owners and registers their claims one by one, and a claim is admitted only when it is
  compatible with every earlier one. The lemmas turn this step law into a statement about all
  claims of a finished loop.
\<close>

section \<open>Registries of claims\<close>

locale claim_registry =
  fixes keys :: "'s \<Rightarrow> 'k list"
    and claim :: "'k \<Rightarrow> 'o \<Rightarrow> 's \<Rightarrow> 'e + 's"
    and compatible :: "'k \<Rightarrow> 'k \<Rightarrow> bool"
  assumes claim_admits:
    "claim k owner s = Inr s' \<Longrightarrow> (\<forall>k' \<in> set (keys s). compatible k' k) \<and> keys s' = keys s @ [k]"
begin

definition claimed :: "'s \<Rightarrow> 'k list \<Rightarrow> 's \<Rightarrow> bool" where
  "claimed s ks s' \<longleftrightarrow> keys s' = keys s @ ks \<and>
     (sorted_wrt compatible (keys s) \<longrightarrow> sorted_wrt compatible (keys s'))"

lemma claimed_none: "keys s' = keys s \<Longrightarrow> claimed s [] s'"
  by (simp add: claimed_def)

lemma claimed_one: "claim k owner s = Inr s' \<Longrightarrow> claimed s [k] s'"
  using claim_admits by (auto simp: claimed_def sorted_wrt_append)

lemma claimed_trans: "claimed s ks t \<Longrightarrow> claimed t ls u \<Longrightarrow> claimed s (ks @ ls) u"
  by (auto simp: claimed_def)

lemma claimed_loop:
  assumes "for_each xs f s = Inr s'"
    and "\<And>x t t'. x \<in> set xs \<Longrightarrow> f x t = Inr t' \<Longrightarrow> claimed t (g x) t'"
  shows "claimed s (concat (map g xs)) s'"
  using assms
proof (induction xs arbitrary: s)
  case (Cons x xs)
  then obtain t where t: "f x s = Inr t" "for_each xs f t = Inr s'"
    by (auto simp: and_then_Inr_iff)
  have "claimed s (g x) t" using Cons.prems(2) t(1) by simp
  moreover have "claimed t (concat (map g xs)) s'" using Cons.IH [OF t(2)] Cons.prems(2) by simp
  ultimately show ?case by (simp add: claimed_trans)
qed (simp add: claimed_none)

lemma claimed_from_empty: "claimed s ks s' \<Longrightarrow> keys s = [] \<Longrightarrow> sorted_wrt compatible ks"
  by (auto simp: claimed_def)

end

lemma dict_set_new_keys: "dict_get d k = None \<Longrightarrow> map fst (dict_set k v d) = map fst d @ [k]"
  by (induction d) (auto split: if_splits)

definition distinct_from :: "'k \<Rightarrow> 'k \<Rightarrow> bool" where
  "distinct_from a b \<longleftrightarrow> a \<noteq> b"

lemma distinct_from_sorted: "sorted_wrt distinct_from xs \<longleftrightarrow> distinct xs"
  by (induction xs) (auto simp: distinct_from_def)

lemma for_each_frame:
  assumes "for_each xs f s = Inr s'" and "\<And>x t t'. f x t = Inr t' \<Longrightarrow> view t' = view t"
  shows "view s' = view s"
  using assms(1) by (rule for_each_invariant [where I = "\<lambda>t. view t = view s"]) (auto dest: assms(2))

end
