(* ===== verification/V2_Validated.thy ===== *)
theory V2_Validated
  imports V2_Semantic Claim_Registry
begin

text \<open>
  What acceptance by the semantic validator means. The locale of claim registries is
  interpreted on the three registries of the service loop, which gives port, path and
  hostname exclusivity over the whole document. The remaining sections invert the per-service checks: references
  resolve, dependencies are ordered, isolated publications do not share ports, secrets stay
  below their root.
\<close>

section \<open>Inversion of checks\<close>

lemma all_ok_Inr_iff [res_simps]: "all_ok us = Inr u \<longleftrightarrow> (\<forall>u \<in> set us. u = Inr ())"
  by (simp add: all_ok_def check_all_Inr_iff)

lemma raise_when_Inr_iff [res_simps]: "raise_when c e = Inr u \<longleftrightarrow> c = Inr False"
  by (auto simp: raise_when_def and_then_Inr_iff)

lemma and_also_False_iff: "and_also c d = Inr False \<longleftrightarrow> c = Inr False \<or> c = Inr True \<and> d = Inr False"
  by (auto simp: and_also_def and_then_Inr_iff split: if_splits)

lemma or_else_False_iff: "or_else c d = Inr False \<longleftrightarrow> c = Inr False \<and> d = Inr False"
  by (auto simp: or_else_def and_then_Inr_iff split: if_splits)

lemma negate_Inr_iff: "negate c = Inr b \<longleftrightarrow> c = Inr (\<not> b)"
  by (auto simp: negate_def and_then_Inr_iff)

lemmas check_simps = res_simps and_also_False_iff or_else_False_iff negate_Inr_iff

section \<open>The registries of the service loop\<close>

definition paths_coexist :: "string \<Rightarrow> string \<Rightarrow> bool" where
  "paths_coexist a b \<longleftrightarrow> a \<noteq> b \<and> a \<noteq> ''/'' \<and> b \<noteq> ''/''"

definition hostpaths_coexist :: "string \<times> string \<Rightarrow> string \<times> string \<Rightarrow> bool" where
  "hostpaths_coexist a b \<longleftrightarrow> fst a = fst b \<longrightarrow> paths_coexist (snd a) (snd b)"

text \<open>The root conflicts with everything and every path with itself.\<close>

lemma segments_root [simp]: "segments_of ''/'' = []"
  using segments_of_slash [of "[]"] by simp

lemma check_path_free_Inr:
  assumes "check_path_free n r at at' = Inr u"
  shows "paths_coexist r n"
proof -
  have "routes_conflict n n" by (simp add: routes_conflict_prefix)
  moreover have "routes_conflict ''/'' x" "routes_conflict x ''/''" for x
    using routes_conflict_root [of "''/''" x] routes_conflict_sym by auto
  ultimately show ?thesis
    using assms by (auto simp: check_path_free_def paths_coexist_def split: if_splits)
qed

lemma claim_port_admits:
  assumes "claim_port sid lid (fst k) (snd k) reg = Inr reg'"
  shows "(\<forall>k' \<in> set (map fst (listener_owners reg)). distinct_from k' k) \<and>
    map fst (listener_owners reg') = map fst (listener_owners reg) @ [k]"
  using assms
  by (auto simp: claim_port_def distinct_from_def dict_set_new_keys map_of_eq_None_iff split: option.splits)

lemma claim_path_admits:
  assumes "claim_path at k owner reg = Inr reg'"
  shows "(\<forall>k' \<in> set (map fst (route_paths reg)). paths_coexist k' k) \<and>
    map fst (route_paths reg') = map fst (route_paths reg) @ [k]"
proof -
  have c: "\<forall>k' \<in> set (map fst (route_paths reg)). paths_coexist k' k"
    using assms by (auto simp: claim_path_def check_simps dest!: check_path_free_Inr)
  then have "dict_get (route_paths reg) k = None"
    by (force simp: map_of_eq_None_iff paths_coexist_def)
  with c assms show ?thesis by (auto simp: claim_path_def and_then_Inr_iff dict_set_new_keys)
qed

lemma claim_hostpath_admits:
  assumes "claim_hostpath at k owner reg = Inr reg'"
  shows "(\<forall>k' \<in> set (map fst (route_hostpaths reg)). hostpaths_coexist k' k) \<and>
    map fst (route_hostpaths reg') = map fst (route_hostpaths reg) @ [k]"
proof -
  obtain host n where k: "k = (host, n)" by (cases k)
  have c: "\<forall>k' \<in> set (map fst (route_hostpaths reg)). hostpaths_coexist k' k"
    using assms unfolding k claim_hostpath_def
    by (fastforce simp: check_simps hostpaths_coexist_def split: if_splits dest!: check_path_free_Inr)
  then have "dict_get (route_hostpaths reg) k = None"
    by (force simp: map_of_eq_None_iff hostpaths_coexist_def paths_coexist_def)
  with c assms k show ?thesis by (auto simp: claim_hostpath_def and_then_Inr_iff dict_set_new_keys)
qed

interpretation ports: claim_registry
  "\<lambda>reg. map fst (listener_owners reg)"
  "\<lambda>k owner. claim_port (fst owner) (snd owner) (fst k) (snd k)"
  distinct_from
  by unfold_locales (rule claim_port_admits)

interpretation paths: claim_registry
  "\<lambda>reg. map fst (route_paths reg)" "\<lambda>k owner. claim_path (fst owner) k (snd owner)" paths_coexist
  by unfold_locales (rule claim_path_admits)

interpretation hosts: claim_registry
  "\<lambda>reg. map fst (route_hostpaths reg)" "\<lambda>k owner. claim_hostpath (fst owner) k (snd owner)" hostpaths_coexist
  by unfold_locales (rule claim_hostpath_admits)

section \<open>The claims of a document\<close>

text \<open>
  The ports, paths and hostname routes that a document asks for, read off the document
  without any bookkeeping.
\<close>

definition listener_claims :: "string \<times> json \<Rightarrow> (string \<times> int) list" where
  "listener_claims = (\<lambda>(lid, listener).
     case (item_str listener ''protocol'', and_then (item listener ''exposure'') listener_ports) of
       (Inr protocol, Inr ports) \<Rightarrow> map (\<lambda>port. (protocol, port)) ports
     | _ \<Rightarrow> [])"

definition service_port_claims :: "string \<times> json \<Rightarrow> (string \<times> int) list" where
  "service_port_claims = (\<lambda>(sid, service).
     case item_dict service ''listeners'' of
       Inr listeners \<Rightarrow> concat (map listener_claims listeners) | Inl _ \<Rightarrow> [])"

definition route_path_claims :: "string \<times> json \<Rightarrow> string list" where
  "route_path_claims = (\<lambda>(rid, route).
     case and_then (item route ''exposure'') (\<lambda>exposure.
            and_then (item_is exposure ''type'' ''path'') (\<lambda>by_path.
              if by_path then item_list exposure ''paths'' else Inr [])) of
       Inr ps \<Rightarrow> map (\<lambda>p. projr (canonical_route_path p [])) ps | Inl _ \<Rightarrow> [])"

definition service_path_claims :: "string \<times> json \<Rightarrow> string list" where
  "service_path_claims = (\<lambda>(sid, service).
     case item_dict service ''routes'' of
       Inr routes \<Rightarrow> concat (map route_path_claims routes) | Inl _ \<Rightarrow> [])"

definition route_host_claims :: "string \<times> json \<Rightarrow> (string \<times> string) list" where
  "route_host_claims = (\<lambda>(rid, route).
     case and_then (item route ''exposure'') (\<lambda>exposure.
            and_then (item_is exposure ''type'' ''path'') (\<lambda>by_path.
              if by_path then Inr [] else
              and_then (item exposure ''path'') (\<lambda>p.
              and_then (canonical_route_path p []) (\<lambda>n.
              and_then (item_list exposure ''hostnames'') (\<lambda>hs.
              and_then (map_res as_str hs) (\<lambda>names.
                Inr (map (\<lambda>h. (casefold h, n)) names))))))) of
       Inr ks \<Rightarrow> ks | Inl _ \<Rightarrow> [])"

definition service_host_claims :: "string \<times> json \<Rightarrow> (string \<times> string) list" where
  "service_host_claims = (\<lambda>(sid, service).
     case item_dict service ''routes'' of
       Inr routes \<Rightarrow> concat (map route_host_claims routes) | Inl _ \<Rightarrow> [])"

text \<open>The error path of a canonical path does not influence its value.\<close>

lemma canonical_route_path_at:
  assumes "canonical_route_path v at = Inr n"
  shows "canonical_route_path v at' = Inr n"
  using assms
proof (rule canonical_route_path_Inr)
  fix s decoded
  assume f: "v = JStr s" "starts_with s ''/''" "\<not> route_path_is_unsafe s" "\<not> bad_escape s"
    "unquote s = Inr decoded" "\<not> route_path_is_unsafe decoded"
    "''.'' \<notin> set (segments_of decoded)" "''..'' \<notin> set (segments_of decoded)"
    and n: "n = casefold (''/'' @ py_join ''/'' (segments_of decoded))" "\<not> uses_reserved n"
  have "\<not> list_ex (\<lambda>p. p = ''.'' \<or> p = ''..'') (segments_of decoded)"
    using f by (auto simp: list_ex_iff)
  moreover have "casefold (if segments_of decoded \<noteq> [] then ''/'' @ py_join ''/'' (segments_of decoded) else ''/'') = n"
    by (simp add: n(1))
  ultimately show ?thesis using f n(2) by (simp only: canonical_route_path_def Let_def json.case sum.case if_False if_True not_True_eq_False not_False_eq_True)
qed

subsection \<open>What each step registers\<close>

lemma claim_port_claimed: "claim_port sid lid protocol port reg = Inr reg' \<Longrightarrow> ports.claimed reg [(protocol, port)] reg'"
  using ports.claimed_one [where k = "(protocol, port)" and owner = "(sid, lid)"] by simp

lemma claim_path_claimed: "claim_path at n owner reg = Inr reg' \<Longrightarrow> paths.claimed reg [n] reg'"
  using paths.claimed_one [where k = n and owner = "(at, owner)"] by simp

lemma claim_hostpath_claimed: "claim_hostpath at k owner reg = Inr reg' \<Longrightarrow> hosts.claimed reg [k] reg'"
  using hosts.claimed_one [where k = k and owner = "(at, owner)"] by simp

lemma concat_singletons: "concat (map (\<lambda>x. [f x]) xs) = map f xs"
  by (induction xs) auto

lemma check_listener_claimed:
  assumes "check_listener sid (lid, listener) reg = Inr reg'"
  shows "ports.claimed reg (listener_claims (lid, listener)) reg'"
proof -
  obtain exposure ps where e: "item listener ''exposure'' = Inr exposure" "listener_ports exposure = Inr ps"
    and loop: "for_each ps (\<lambda>port reg. and_then (item_str listener ''protocol'') (\<lambda>protocol.
         claim_port sid lid protocol port reg)) reg = Inr reg'"
    using assms by (auto simp: check_listener_def Let_def and_then_Inr_iff)
  show ?thesis
  proof (cases "item_str listener ''protocol''")
    case (Inr protocol)
    have "ports.claimed reg (concat (map (\<lambda>p. [(protocol, p)]) ps)) reg'"
      using loop by (rule ports.claimed_loop) (simp add: Inr claim_port_claimed)
    then show ?thesis using e Inr by (simp add: listener_claims_def concat_singletons)
  next
    case (Inl err)
    then have "ps = []" using loop by (cases ps) auto
    with loop e Inl show ?thesis by (simp add: listener_claims_def ports.claimed_none)
  qed
qed

lemma check_listeners_claimed:
  assumes "check_listeners sid service reg = Inr reg'"
  shows "ports.claimed reg (service_port_claims (sid, service)) reg'"
proof -
  obtain ls where ls: "item_dict service ''listeners'' = Inr ls"
    and loop: "for_each ls (check_listener sid) reg = Inr reg'"
    using assms by (auto simp: check_listeners_def and_then_Inr_iff)
  have "ports.claimed reg (concat (map listener_claims ls)) reg'"
    using loop by (rule ports.claimed_loop) (auto intro: check_listener_claimed)
  with ls show ?thesis by (simp add: service_port_claims_def)
qed

text \<open>Frames: each step fills one registry only.\<close>

lemma register_path_frame:
  assumes "register_path sid rid p reg = Inr reg'"
  shows "listener_owners reg' = listener_owners reg" "route_hostpaths reg' = route_hostpaths reg"
  using assms by (auto simp: register_path_def claim_path_def Let_def and_then_Inr_iff)

lemma register_hostname_frame:
  assumes "register_hostname sid rid n h reg = Inr reg'"
  shows "listener_owners reg' = listener_owners reg" "route_paths reg' = route_paths reg"
  using assms by (auto simp: register_hostname_def claim_hostpath_def Let_def and_then_Inr_iff)

lemma check_listener_frame:
  assumes "check_listener sid l reg = Inr reg'"
  shows "route_paths reg' = route_paths reg" "route_hostpaths reg' = route_hostpaths reg"
proof -
  obtain lid listener where l: "l = (lid, listener)" by (cases l)
  obtain ps where loop: "for_each ps (\<lambda>port reg. and_then (item_str listener ''protocol'') (\<lambda>protocol.
         claim_port sid lid protocol port reg)) reg = Inr reg'"
    using assms by (auto simp: l check_listener_def Let_def and_then_Inr_iff)
  show "route_paths reg' = route_paths reg" "route_hostpaths reg' = route_hostpaths reg"
    by (rule for_each_frame [OF loop]; auto simp: and_then_Inr_iff claim_port_def split: option.splits)+
qed

lemma check_route_cases:
  assumes "check_route declared sid (rid, route) reg = Inr reg'"
  obtains exposure ps where "item route ''exposure'' = Inr exposure" "item_is exposure ''type'' ''path'' = Inr True"
      "item_list exposure ''paths'' = Inr ps" "for_each ps (register_path sid rid) reg = Inr reg'"
  | exposure at p n hs where "item route ''exposure'' = Inr exposure" "item_is exposure ''type'' ''path'' = Inr False"
      "item exposure ''path'' = Inr p" "canonical_route_path p at = Inr n"
      "item_list exposure ''hostnames'' = Inr hs" "for_each hs (register_hostname sid rid n) reg = Inr reg'"
  using assms by (auto simp: check_route_def and_then_Inr_iff split: if_split_asm)

lemma check_route_frame:
  assumes "check_route declared sid r reg = Inr reg'"
  shows "listener_owners reg' = listener_owners reg"
proof -
  obtain rid route where r: "r = (rid, route)" by (cases r)
  from assms show ?thesis
    unfolding r
    by (rule check_route_cases)
      (erule for_each_frame, erule register_path_frame register_hostname_frame)+
qed

lemma register_path_claimed:
  assumes "register_path sid rid p reg = Inr reg'"
  shows "paths.claimed reg [projr (canonical_route_path p [])] reg'"
proof -
  obtain at n owner where n: "canonical_route_path p at = Inr n" "claim_path at n owner reg = Inr reg'"
    using assms by (auto simp: register_path_def Let_def and_then_Inr_iff)
  then show ?thesis using canonical_route_path_at [OF n(1), of "[]"] claim_path_claimed by simp
qed

lemma register_hostname_claimed:
  assumes "register_hostname sid rid n h reg = Inr reg'"
  shows "hosts.claimed reg [(casefold (projr (as_str h)), n)] reg'"
  using assms by (auto simp: register_hostname_def Let_def and_then_Inr_iff dest: claim_hostpath_claimed)

lemma check_route_claims_paths:
  assumes "check_route declared sid r reg = Inr reg'"
  shows "paths.claimed reg (route_path_claims r) reg'"
proof -
  obtain rid route where r: "r = (rid, route)" by (cases r)
  from assms show ?thesis
    unfolding r
  proof (rule check_route_cases)
    fix exposure ps
    assume *: "item route ''exposure'' = Inr exposure" "item_is exposure ''type'' ''path'' = Inr True"
      "item_list exposure ''paths'' = Inr ps" and loop: "for_each ps (register_path sid rid) reg = Inr reg'"
    have "paths.claimed reg (concat (map (\<lambda>p. [projr (canonical_route_path p [])]) ps)) reg'"
      using loop by (rule paths.claimed_loop) (rule register_path_claimed)
    with * show "paths.claimed reg (route_path_claims (rid, route)) reg'"
      by (simp add: route_path_claims_def concat_singletons)
  next
    fix exposure hs n
    assume *: "item route ''exposure'' = Inr exposure" "item_is exposure ''type'' ''path'' = Inr False"
      and loop: "for_each hs (register_hostname sid rid n) reg = Inr reg'"
    have "route_paths reg' = route_paths reg"
      using loop by (rule for_each_frame) (rule register_hostname_frame)
    with * show "paths.claimed reg (route_path_claims (rid, route)) reg'"
      by (simp add: route_path_claims_def paths.claimed_none)
  qed
qed

lemma for_each_hostnames:
  assumes "for_each hs (register_hostname sid rid n) reg = Inr reg'"
  shows "map_res as_str hs = Inr (map (\<lambda>h. projr (as_str h)) hs)"
  using assms
  by (induction hs arbitrary: reg) (auto simp: register_hostname_def Let_def and_then_Inr_iff)

lemma check_route_claims_hosts:
  assumes "check_route declared sid r reg = Inr reg'"
  shows "hosts.claimed reg (route_host_claims r) reg'"
proof -
  obtain rid route where r: "r = (rid, route)" by (cases r)
  from assms show ?thesis
    unfolding r
  proof (rule check_route_cases)
    fix exposure ps
    assume *: "item route ''exposure'' = Inr exposure" "item_is exposure ''type'' ''path'' = Inr True"
      and loop: "for_each ps (register_path sid rid) reg = Inr reg'"
    have "route_hostpaths reg' = route_hostpaths reg"
      using loop by (rule for_each_frame) (rule register_path_frame)
    with * show "hosts.claimed reg (route_host_claims (rid, route)) reg'"
      by (simp add: route_host_claims_def hosts.claimed_none)
  next
    fix exposure at p n hs
    assume *: "item route ''exposure'' = Inr exposure" "item_is exposure ''type'' ''path'' = Inr False"
        "item exposure ''path'' = Inr p" "canonical_route_path p at = Inr n" "item_list exposure ''hostnames'' = Inr hs"
      and loop: "for_each hs (register_hostname sid rid n) reg = Inr reg'"
    have "hosts.claimed reg (concat (map (\<lambda>h. [(casefold (projr (as_str h)), n)]) hs)) reg'"
      using loop by (rule hosts.claimed_loop) (rule register_hostname_claimed)
    moreover have "canonical_route_path p [] = Inr n" using *(4) by (rule canonical_route_path_at)
    ultimately show "hosts.claimed reg (route_host_claims (rid, route)) reg'"
      using * for_each_hostnames [OF loop] by (simp add: route_host_claims_def concat_singletons comp_def)
  qed
qed

lemma check_routes_loop:
  assumes "check_routes sid service reg = Inr reg'"
  obtains declared routes where "declared_capabilities service = Inr declared" "distinct declared"
    "item_dict service ''routes'' = Inr routes" "for_each routes (check_route declared sid) reg = Inr reg'"
  using assms by (auto simp: check_routes_def and_then_Inr_iff split: if_split_asm)

lemma check_routes_claimed:
  assumes "check_routes sid service reg = Inr reg'"
  shows "paths.claimed reg (service_path_claims (sid, service)) reg'"
    "hosts.claimed reg (service_host_claims (sid, service)) reg'"
    "listener_owners reg' = listener_owners reg"
proof -
  obtain declared routes where rs: "item_dict service ''routes'' = Inr routes"
    and loop: "for_each routes (check_route declared sid) reg = Inr reg'"
    using assms by (rule check_routes_loop)
  have "paths.claimed reg (concat (map route_path_claims routes)) reg'"
    using loop by (rule paths.claimed_loop) (rule check_route_claims_paths)
  then show "paths.claimed reg (service_path_claims (sid, service)) reg'"
    using rs by (simp add: service_path_claims_def)
  have "hosts.claimed reg (concat (map route_host_claims routes)) reg'"
    using loop by (rule hosts.claimed_loop) (rule check_route_claims_hosts)
  then show "hosts.claimed reg (service_host_claims (sid, service)) reg'"
    using rs by (simp add: service_host_claims_def)
  show "listener_owners reg' = listener_owners reg"
    using loop by (rule for_each_frame) (rule check_route_frame)
qed

lemma check_listeners_frame:
  assumes "check_listeners sid service reg = Inr reg'"
  shows "route_paths reg' = route_paths reg" "route_hostpaths reg' = route_hostpaths reg"
proof -
  obtain ls where loop: "for_each ls (check_listener sid) reg = Inr reg'"
    using assms by (auto simp: check_listeners_def and_then_Inr_iff)
  show "route_paths reg' = route_paths reg"
    using loop by (rule for_each_frame) (rule check_listener_frame)
  show "route_hostpaths reg' = route_hostpaths reg"
    using loop by (rule for_each_frame) (rule check_listener_frame)
qed

lemma check_service_Inr:
  assumes "check_service resolve platform resources credentials profiles services (sid, service) reg = Inr reg'"
  obtains reg1 where "check_routes sid service reg = Inr reg1" "check_listeners sid service reg1 = Inr reg'"
    "check_dependencies services sid service = Inr ()"
    "validate_runtime_paths resolve sid service = Inr ()" "check_workload sid service = Inr ()"
    "check_platform platform sid service = Inr ()" "check_network profiles sid service = Inr ()"
    "check_storage resources sid service = Inr ()" "check_credentials credentials sid service = Inr ()"
    "validate_managed_files sid service = Inr ()" "check_accelerators sid service = Inr ()"
  using assms by (auto simp: check_service_def check_simps)

lemma check_service_claimed:
  assumes "check_service resolve platform resources credentials profiles services svc reg = Inr reg'"
  shows "ports.claimed reg (service_port_claims svc) reg'"
    "paths.claimed reg (service_path_claims svc) reg'"
    "hosts.claimed reg (service_host_claims svc) reg'"
proof -
  obtain sid service where svc: "svc = (sid, service)" by (cases svc)
  obtain reg1 where r: "check_routes sid service reg = Inr reg1" and l: "check_listeners sid service reg1 = Inr reg'"
    using assms unfolding svc by (rule check_service_Inr)
  note rs = check_routes_claimed [OF r] and ls = check_listeners_claimed [OF l] check_listeners_frame [OF l]
  show "ports.claimed reg (service_port_claims svc) reg'"
    using ls(1) rs(3) by (metis svc ports.claimed_def)
  show "paths.claimed reg (service_path_claims svc) reg'"
    using ls(2) rs(1) by (metis svc paths.claimed_def)
  show "hosts.claimed reg (service_host_claims svc) reg'"
    using ls(3) rs(2) by (metis svc hosts.claimed_def)
qed

section \<open>Inversion of the validator\<close>

lemma semantic_validate_Inr:
  assumes "semantic_validate resolve document platform = Inr u"
  obtains rs cs ps services reg where
    "item document ''storageResources'' = Inr (JObj rs)" "item document ''credentials'' = Inr (JObj cs)"
    "item document ''networkProfiles'' = Inr (JObj ps)" "item_dict document ''services'' = Inr services"
    "\<forall>r \<in> set rs. check_resource r = Inr ()" "\<forall>c \<in> set cs. check_credential resolve c = Inr ()"
    "\<forall>p \<in> set ps. check_profile p = Inr ()"
    "for_each services (check_service resolve platform (JObj rs) (JObj cs) (JObj ps) services) empty_registry = Inr reg"
    "validate_route_publications document (listener_owners reg) = Inr ()"
    "validate_dependency_graph services = Inr ()"
  using assms by (auto simp: semantic_validate_def check_simps)

text \<open>Every service of an accepted document passed the checks of the service loop.\<close>

lemma semantic_validate_service:
  assumes "semantic_validate resolve document platform = Inr u" "item_dict document ''services'' = Inr services"
    and "(sid, service) \<in> set services"
  obtains rs cs ps reg reg' where
    "item document ''storageResources'' = Inr (JObj rs)" "item document ''credentials'' = Inr (JObj cs)"
    "item document ''networkProfiles'' = Inr (JObj ps)"
    "check_service resolve platform (JObj rs) (JObj cs) (JObj ps) services (sid, service) reg = Inr reg'"
proof -
  obtain rs cs ps reg where d: "item document ''storageResources'' = Inr (JObj rs)"
      "item document ''credentials'' = Inr (JObj cs)" "item document ''networkProfiles'' = Inr (JObj ps)"
    and loop: "for_each services (check_service resolve platform (JObj rs) (JObj cs) (JObj ps) services)
      empty_registry = Inr reg"
    using assms(1) by (rule semantic_validate_Inr) (use assms(2) in auto)
  from loop assms(3) show ?thesis by (rule for_each_set_at) (rule that [OF d])
qed

lemma claims_accepted:
  assumes "semantic_validate resolve document platform = Inr u" "item_dict document ''services'' = Inr services"
  shows "distinct (concat (map service_port_claims services))"
    "sorted_wrt paths_coexist (concat (map service_path_claims services))"
    "sorted_wrt hostpaths_coexist (concat (map service_host_claims services))"
proof -
  obtain rs cs ps reg where loop:
    "for_each services (check_service resolve platform (JObj rs) (JObj cs) (JObj ps) services) empty_registry = Inr reg"
    using assms by (elim semantic_validate_Inr) auto
  have p: "ports.claimed empty_registry (concat (map service_port_claims services)) reg"
    using loop by (rule ports.claimed_loop) (rule check_service_claimed)
  have "sorted_wrt distinct_from (concat (map service_port_claims services))"
    by (rule ports.claimed_from_empty [OF p]) (simp add: empty_registry_def)
  then show "distinct (concat (map service_port_claims services))"
    by (simp add: distinct_from_sorted)
  have p: "paths.claimed empty_registry (concat (map service_path_claims services)) reg"
    using loop by (rule paths.claimed_loop) (rule check_service_claimed)
  show "sorted_wrt paths_coexist (concat (map service_path_claims services))"
    by (rule paths.claimed_from_empty [OF p]) (simp add: empty_registry_def)
  have p: "hosts.claimed empty_registry (concat (map service_host_claims services)) reg"
    using loop by (rule hosts.claimed_loop) (rule check_service_claimed)
  show "sorted_wrt hostpaths_coexist (concat (map service_host_claims services))"
    by (rule hosts.claimed_from_empty [OF p]) (simp add: empty_registry_def)
qed

section \<open>References and dependencies\<close>

lemma for_each_seen:
  assumes "for_each xs f s = Inr s'"
    and "\<And>x t t'. f x t = Inr t' \<Longrightarrow> key x \<notin> t \<and> t' = insert (key x) t"
  shows "distinct (map key xs) \<and> set (map key xs) \<inter> s = {}"
  using assms
proof (induction xs arbitrary: s)
  case (Cons x xs)
  then obtain t where t: "f x s = Inr t" "for_each xs f t = Inr s'"
    by (auto simp: and_then_Inr_iff)
  then have "key x \<notin> s \<and> t = insert (key x) s" using Cons.prems(2) by blast
  moreover have "distinct (map key xs) \<and> set (map key xs) \<inter> t = {}" using Cons.IH [OF t(2)] Cons.prems(2) by simp
  ultimately show ?case by auto
qed simp

lemma in_enumerate: "x \<in> set xs \<Longrightarrow> \<exists>i. (i, x) \<in> set (enumerate n xs)"
  by (induction xs arbitrary: n) auto

lemma map_snd_enumerate_comp: "map (\<lambda>x. f (snd x)) (enumerate n xs) = map f xs"
  by (induction xs arbitrary: n) auto

text \<open>A reference from a service to another one, and what it may rely on.\<close>

definition dependency_ok :: "json_dict \<Rightarrow> string \<Rightarrow> json \<Rightarrow> json \<Rightarrow> bool" where
  "dependency_ok services sid service d \<longleftrightarrow> (\<exists>tid target kind condition.
     item_str d ''service'' = Inr tid \<and> tid \<noteq> sid \<and> dict_get services tid = Some target \<and>
     (item_true service ''enabled'' = Inr True \<longrightarrow> item_true target ''enabled'' = Inr True) \<and>
     item2 target ''workload'' ''kind'' = Inr kind \<and> item d ''condition'' = Inr condition \<and>
     (condition = JStr ''completed'' \<longrightarrow> kind = JStr ''job'') \<and>
     (condition = JStr ''ready'' \<longrightarrow> kind \<noteq> JStr ''job'' \<and> has_key target ''readiness'' = Inr True))"

definition dependency_target :: "json \<Rightarrow> string" where
  "dependency_target d = projr (item_str d ''service'')"

lemma check_dependency_Inr:
  assumes "check_dependency services sid service (i, d) seen = Inr seen'"
  shows "dependency_ok services sid service d"
    "dependency_target d \<notin> seen \<and> seen' = insert (dependency_target d) seen"
proof -
  obtain tid target e at where t: "item_str d ''service'' = Inr tid" "tid \<noteq> sid" "tid \<notin> seen"
      "dict_get services tid = Some target" "seen' = insert tid seen"
    and en: "raise_when (and_also (item_true service ''enabled'') (negate (item_true target ''enabled'')))
          e = Inr ()"
    and cond: "check_condition at d target = Inr ()"
    using assms
    by (auto simp: check_dependency_def Let_def and_then_Inr_iff split: if_split_asm option.splits)
  have "item_true service ''enabled'' = Inr True \<longrightarrow> item_true target ''enabled'' = Inr True"
    using en by (auto simp: check_simps)
  moreover obtain kind condition where "item2 target ''workload'' ''kind'' = Inr kind"
    "item d ''condition'' = Inr condition" "condition = JStr ''completed'' \<longrightarrow> kind = JStr ''job''"
    "condition = JStr ''ready'' \<longrightarrow> kind \<noteq> JStr ''job'' \<and> has_key target ''readiness'' = Inr True"
    using cond unfolding check_condition_def
    by (auto simp: and_then_Inr_iff raise_when_Inr_iff negate_Inr_iff split: if_split_asm)
  ultimately show "dependency_ok services sid service d"
    using t unfolding dependency_ok_def by blast
  show "dependency_target d \<notin> seen \<and> seen' = insert (dependency_target d) seen"
    using t by (simp add: dependency_target_def)
qed

lemma check_dependencies_Inr:
  assumes "check_dependencies services sid service = Inr u"
  obtains deps where "item_list service ''dependencies'' = Inr deps"
    "\<forall>d \<in> set deps. dependency_ok services sid service d" "distinct (map dependency_target deps)"
proof -
  obtain deps s where d: "item_list service ''dependencies'' = Inr deps"
    and loop: "for_each (enumerate 0 deps) (check_dependency services sid service) {} = Inr s"
    using assms by (auto simp: check_dependencies_def and_then_Inr_iff)
  have "dependency_ok services sid service d" if d: "d \<in> set deps" for d
  proof -
    from in_enumerate [OF d] obtain i where "(i, d) \<in> set (enumerate 0 deps)" by blast
    with loop show ?thesis by (rule for_each_set_at) (rule check_dependency_Inr)
  qed
  moreover have "distinct (map (\<lambda>x. dependency_target (snd x)) (enumerate 0 deps)) \<and>
      set (map (\<lambda>x. dependency_target (snd x)) (enumerate 0 deps)) \<inter> {} = {}"
    using loop by (rule for_each_seen) (metis check_dependency_Inr(2) prod.collapse)
  ultimately show ?thesis using that d by (simp add: map_snd_enumerate_comp)
qed

lemma accepted_closed_graph:
  assumes "semantic_validate resolve document platform = Inr u" "item_dict document ''services'' = Inr services"
  shows "closed_graph services"
  unfolding closed_graph_def
proof
  fix sid assume "sid \<in> set (map fst services)"
  then obtain service where s: "dict_get services sid = Some service" by (metis map_of_eq_None_iff not_None_eq list.set_map)
  then have "(sid, service) \<in> set services" by (rule map_of_SomeD)
  with assms obtain rs cs ps reg reg' where
    "check_service resolve platform (JObj rs) (JObj cs) (JObj ps) services (sid, service) reg = Inr reg'"
    by (rule semantic_validate_service)
  then have "check_dependencies services sid service = Inr ()" by (rule check_service_Inr)
  then obtain deps where "item_list service ''dependencies'' = Inr deps"
    and ok: "\<forall>d \<in> set deps. dependency_ok services sid service d" by (rule check_dependencies_Inr)
  then have "declared_dependencies services sid = Inr deps" by (simp add: declared_dependencies_def s)
  moreover have "\<forall>d \<in> set deps. \<exists>b. item_str d ''service'' = Inr b \<and> b \<in> set (map fst services)"
    using ok unfolding dependency_ok_def by (metis map_of_SomeD fst_conv in_set_zip list.set_map image_eqI)
  ultimately show "\<exists>deps. declared_dependencies services sid = Inr deps \<and>
      (\<forall>d \<in> set deps. \<exists>b. item_str d ''service'' = Inr b \<and> b \<in> set (map fst services))" by blast
qed

text \<open>Storage and credential attachments, as an accepted service has them.\<close>

definition mount_of :: "json \<Rightarrow> string" where
  "mount_of a = path_str (pure_path (projr (item_str a ''mountPath'')))"

definition storage_ok :: "json_dict \<Rightarrow> json \<Rightarrow> bool" where
  "storage_ok resources a \<longleftrightarrow> (\<exists>rid m. item_str a ''resource'' = Inr rid \<and> dict_get resources rid \<noteq> None \<and>
     item_str a ''mountPath'' = Inr m \<and> is_absolute (pure_path m) \<and> ''..'' \<notin> set (path_tail (pure_path m)))"

definition credential_ok :: "json_dict \<Rightarrow> json \<Rightarrow> bool" where
  "credential_ok credentials a \<longleftrightarrow> (\<exists>cid. item_str a ''credential'' = Inr cid \<and> dict_get credentials cid \<noteq> None \<and>
     (item_is a ''use'' ''file'' = Inr True \<longrightarrow> (\<exists>m. item_str a ''mountPath'' = Inr m \<and>
        is_absolute (pure_path m) \<and> ''..'' \<notin> set (path_tail (pure_path m)))))"

lemma check_storage_attachment_Inr:
  assumes "check_storage_attachment (JObj rs) sid service (i, a) seen = Inr seen'"
  shows "storage_ok rs a" "mount_of a \<notin> seen \<and> seen' = insert (mount_of a) seen"
proof -
  obtain rid m where a: "item_str a ''resource'' = Inr rid" "dict_get rs rid \<noteq> None"
      "item_str a ''mountPath'' = Inr m" "is_absolute (pure_path m)" "''..'' \<notin> set (path_tail (pure_path m))"
      "path_str (pure_path m) \<notin> seen" "seen' = insert (path_str (pure_path m)) seen"
    using assms
    by (auto simp: check_storage_attachment_def Let_def and_then_Inr_iff safe_absolute_path_Inr_iff
        split: if_split_asm)
  then show "storage_ok rs a" "mount_of a \<notin> seen \<and> seen' = insert (mount_of a) seen"
    unfolding storage_ok_def mount_of_def by auto
qed

lemma check_storage_Inr:
  assumes "check_storage (JObj rs) sid service = Inr u"
  obtains attachments where "item_list service ''storage'' = Inr attachments"
    "\<forall>a \<in> set attachments. storage_ok rs a" "distinct (map mount_of attachments)"
proof -
  obtain xs s where xs: "item_list service ''storage'' = Inr xs"
    and loop: "for_each (enumerate 0 xs) (check_storage_attachment (JObj rs) sid service) {} = Inr s"
    using assms by (auto simp: check_storage_def and_then_Inr_iff)
  have "storage_ok rs a" if a: "a \<in> set xs" for a
  proof -
    from in_enumerate [OF a] obtain i where "(i, a) \<in> set (enumerate 0 xs)" by blast
    with loop show ?thesis by (rule for_each_set_at) (rule check_storage_attachment_Inr)
  qed
  moreover have "distinct (map (\<lambda>x. mount_of (snd x)) (enumerate 0 xs)) \<and>
      set (map (\<lambda>x. mount_of (snd x)) (enumerate 0 xs)) \<inter> {} = {}"
    using loop by (rule for_each_seen) (metis check_storage_attachment_Inr(2) prod.collapse)
  ultimately show ?thesis using that xs by (simp add: map_snd_enumerate_comp)
qed

lemma check_credential_attachment_Inr:
  assumes "check_credential_attachment (JObj cs) sid service (i, a) = Inr u"
  shows "credential_ok cs a"
proof -
  obtain cid by_file where a: "item_str a ''credential'' = Inr cid" "dict_get cs cid \<noteq> None"
      "item_is a ''use'' ''file'' = Inr by_file"
    and m: "by_file \<longrightarrow> (\<exists>m. item_str a ''mountPath'' = Inr m \<and>
        is_absolute (pure_path m) \<and> ''..'' \<notin> set (path_tail (pure_path m)))"
    using assms
    by (auto simp: check_credential_attachment_def Let_def and_then_Inr_iff all_ok_Inr_iff
        safe_absolute_path_Inr_iff split: if_split_asm)
  then show ?thesis unfolding credential_ok_def by auto
qed

lemma check_credentials_Inr:
  assumes "check_credentials (JObj cs) sid service = Inr u"
  obtains attachments where "item_list service ''credentials'' = Inr attachments"
    "\<forall>a \<in> set attachments. credential_ok cs a"
proof -
  obtain xs where xs: "item_list service ''credentials'' = Inr xs"
    and all: "\<forall>x \<in> set (enumerate 0 xs). check_credential_attachment (JObj cs) sid service x = Inr ()"
    using assms by (auto simp: check_credentials_def and_then_Inr_iff check_all_Inr_iff)
  have "credential_ok cs a" if "a \<in> set xs" for a
    using in_enumerate [OF that] all check_credential_attachment_Inr by blast
  with that xs show ?thesis by blast
qed

lemma check_network_profile:
  assumes "check_network (JObj ps) sid service = Inr u" "item service ''networkProfile'' = Inr p"
  shows "\<exists>name. p = JStr name \<and> dict_get ps name \<noteq> None"
proof -
  obtain d where d: "service = JObj d" "dict_get d ''networkProfile'' = Some p"
    using assms(2) by (auto simp: item_Inr_iff)
  obtain policy where "service_policy (JObj ps) sid service = Inr policy"
    using assms(1) by (auto simp: check_network_def and_then_Inr_iff)
  then show ?thesis
    using d by (auto simp: service_policy_def and_then_Inr_iff item_str_Inr_iff split: if_split_asm)
qed

text \<open>What an identity route may require.\<close>

lemma check_route_capability:
  assumes "check_route declared sid (rid, route) reg = Inr reg'" "item route ''auth'' = Inr auth"
    "item_is auth ''mode'' ''identity'' = Inr True"
  shows "\<exists>c. item_str auth ''capability'' = Inr c \<and> (c = ''access'' \<or> c \<in> set declared)"
proof -
  have "check_route_auth declared sid (rid, route) = Inr ()"
    using assms(1) by (auto simp: check_route_def and_then_Inr_iff)
  then show ?thesis using assms(2,3) by (auto simp: check_route_auth_def Let_def and_then_Inr_iff split: if_split_asm)
qed

lemma rethrow_Inr_iff:
  "(case m of Inl e \<Rightarrow> Inl (f e) | Inr _ \<Rightarrow> Inr ()) = Inr u \<longleftrightarrow> (\<exists>x. m = Inr x)"
  by (cases m) auto

lemma check_credential_Inr:
  assumes "check_credential resolve (cid, credential) = Inr u"
  obtains p where "item_str credential ''path'' = Inr p" "under secret_root (pure_path p)"
    "''..'' \<notin> set (path_tail (pure_path p))" "under (resolve secret_root) (resolve (pure_path p))"
proof -
  obtain p at where p: "item_str credential ''path'' = Inr p"
    and ok: "\<exists>q. safe_host_path_under resolve secret_root p at = Inr q"
    using assms by (simp add: check_credential_def Let_def and_then_Inr_iff rethrow_Inr_iff) blast
  then show ?thesis
    using that by (auto simp: safe_host_path_under_Inr_iff safe_absolute_path_Inr_iff)
qed

lemma validate_managed_files_Inr_iff:
  "validate_managed_files sid service = Inr u \<longleftrightarrow> (\<exists>v. get_or service ''files'' (JList []) = Inr v \<and> \<not> truthy v)"
  by (auto simp: validate_managed_files_def and_then_Inr_iff)

section \<open>Loopback publications of isolated services\<close>

text \<open>
  An isolated service reaches the proxy through a loopback port that the host forwards to its
  bridge. The ports that a document asks for in this way, read off the document.
\<close>

definition loopback_target :: "string \<Rightarrow> string \<times> json \<Rightarrow> (string \<times> string \<times> int) list" where
  "loopback_target sid = (\<lambda>(rid, route).
     case and_then (item route ''target'') (\<lambda>target.
            and_then (item_in target ''type'' [''http'', ''https'']) (\<lambda>web.
              if \<not> web then Inr [] else
              and_then (item_str target ''host'') (\<lambda>host.
                if host \<notin> set [''127.0.0.1'', ''localhost'', ''::1''] then Inr [] else
                and_then (item_int target ''port'') (\<lambda>p. Inr [(sid, rid, p)])))) of
       Inr ts \<Rightarrow> ts | Inl _ \<Rightarrow> [])"

definition isolated_targets :: "json \<Rightarrow> string \<times> json \<Rightarrow> (string \<times> string \<times> int) list" where
  "isolated_targets profiles = (\<lambda>(sid, service).
     if and_then (publication_policy profiles service) (\<lambda>policy. get_or policy ''mode'' (JStr ''host'')) = Inr (JStr ''isolated'')
     then (case item_dict service ''routes'' of
             Inr routes \<Rightarrow> concat (map (loopback_target sid) routes) | Inl _ \<Rightarrow> [])
     else [])"

definition owners_le :: "port_owners \<Rightarrow> port_owners \<Rightarrow> bool" where
  "owners_le a b \<longleftrightarrow> (\<forall>p. owners_at a p \<subseteq> owners_at b p)"

lemma owners_le_refl [simp]: "owners_le a a"
  by (simp add: owners_le_def)

lemma owners_le_trans: "owners_le a b \<Longrightarrow> owners_le b c \<Longrightarrow> owners_le a c"
  by (auto simp: owners_le_def)

lemma owners_at_add [simp]:
  "owners_at (add_owner p x a) q = (if q = p then insert x (owners_at a p) else owners_at a q)"
  by (simp add: owners_at_def add_owner_def dict_simps)

lemma owners_le_add [simp]: "owners_le a (add_owner p x a)"
  by (auto simp: owners_le_def)

lemma host_listener_owners_le:
  assumes "host_listener_owners sid service a = Inr b"
  shows "owners_le a b"
proof -
  obtain ls where loop: "for_each ls (\<lambda>(lid, listener) owners.
         and_then (and_also (item_is listener ''protocol'' ''tcp'') (has_key listener ''targetPort'')) (\<lambda>b.
           if b then and_then (item_int listener ''targetPort'') (\<lambda>p.
             Inr (add_owner p (sid, sid @ '':'' @ lid) owners))
           else Inr owners)) a = Inr b"
    using assms by (auto simp: host_listener_owners_def and_then_Inr_iff)
  show ?thesis
    using loop
    by (rule for_each_invariant [where I = "owners_le a"])
      (auto simp: and_then_Inr_iff split: if_split_asm intro: owners_le_trans [OF _ owners_le_add])
qed

lemma route_publication_isolated:
  assumes "route_publication sid (JStr ''isolated'') r (a, xs) = Inr (b, ys)"
  shows "b = a \<and> ys = xs @ loopback_target sid r"
  using assms
  by (cases r) (auto simp: route_publication_def loopback_target_def Let_def and_then_Inr_iff split: if_split_asm)

lemma route_publication_other:
  assumes "route_publication sid mode r (a, xs) = Inr (b, ys)" "mode \<noteq> JStr ''isolated''"
  shows "owners_le a b \<and> ys = xs"
  using assms
  by (cases r) (auto simp: route_publication_def Let_def and_then_Inr_iff split: if_split_asm)

lemma routes_publication_isolated:
  assumes "for_each routes (route_publication sid (JStr ''isolated'')) (a, xs) = Inr (b, ys)"
  shows "b = a \<and> ys = xs @ concat (map (loopback_target sid) routes)"
  using assms
proof (induction routes arbitrary: a xs)
  case (Cons r routes)
  then obtain c zs where "route_publication sid (JStr ''isolated'') r (a, xs) = Inr (c, zs)"
    and rest: "for_each routes (route_publication sid (JStr ''isolated'')) (c, zs) = Inr (b, ys)"
    by (auto simp: and_then_Inr_iff)
  with route_publication_isolated Cons.IH [OF rest] show ?case by auto
qed auto

lemma routes_publication_other:
  assumes "for_each routes (route_publication sid mode) s = Inr s'" "mode \<noteq> JStr ''isolated''"
  shows "owners_le (fst s) (fst s') \<and> snd s' = snd s"
  using assms(1)
proof (rule for_each_invariant [where I = "\<lambda>t. owners_le (fst s) (fst t) \<and> snd t = snd s"])
  fix r t t' assume t: "owners_le (fst s) (fst t) \<and> snd t = snd s" and "route_publication sid mode r t = Inr t'"
  then have "route_publication sid mode r (fst t, snd t) = Inr (fst t', snd t')" by (metis prod.collapse)
  from route_publication_other [OF this assms(2)] t show "owners_le (fst s) (fst t') \<and> snd t' = snd s"
    using owners_le_trans by auto
qed simp

lemma service_publications_Inr:
  assumes "service_publications profiles svc s = Inr s'"
  shows "owners_le (fst s) (fst s') \<and> snd s' = snd s @ isolated_targets profiles svc"
proof -
  obtain sid service where svc: "svc = (sid, service)" by (cases svc)
  obtain a xs where s: "s = (a, xs)" by (cases s)
  obtain policy mode b routes where p: "publication_policy profiles service = Inr policy"
      "get_or policy ''mode'' (JStr ''host'') = Inr mode" "item_dict service ''routes'' = Inr routes"
    and b: "(if mode = JStr ''host'' then host_listener_owners sid service a else Inr a) = Inr b"
    and loop: "for_each routes (route_publication sid mode) (b, xs) = Inr s'"
    using assms by (auto simp: svc s service_publications_def and_then_Inr_iff)
  show ?thesis
  proof (cases "mode = JStr ''isolated''")
    case True
    with b loop have "b = a" "for_each routes (route_publication sid (JStr ''isolated'')) (a, xs) = Inr (fst s', snd s')"
      by auto
    with routes_publication_isolated [OF this(2)] p True show ?thesis
      by (simp add: s svc isolated_targets_def)
  next
    case False
    have "owners_le a b" using b by (auto split: if_split_asm dest: host_listener_owners_le)
    with routes_publication_other [OF loop False] p False show ?thesis
      by (auto simp: s svc isolated_targets_def elim: owners_le_trans)
  qed
qed

lemma all_publications:
  assumes "for_each services (service_publications profiles) (a, []) = Inr (b, ys)"
  shows "owners_le a b \<and> ys = concat (map (isolated_targets profiles) services)"
proof -
  have "for_each services (service_publications profiles) s = Inr s' \<Longrightarrow>
      owners_le (fst s) (fst s') \<and> snd s' = snd s @ concat (map (isolated_targets profiles) services)" for s s'
  proof (induction services arbitrary: s)
    case (Cons svc services)
    then obtain t where "service_publications profiles svc s = Inr t"
      and rest: "for_each services (service_publications profiles) t = Inr s'"
      by (auto simp: and_then_Inr_iff)
    with service_publications_Inr [OF this(1)] Cons.IH [OF rest] show ?case
      by (auto elim: owners_le_trans)
  qed simp
  from this [OF assms] show ?thesis by simp
qed

text \<open>After the last claim, a claimed port has one service as its owner.\<close>

lemma claim_isolated_loop:
  assumes "for_each xs claim_isolated a = Inr b"
  shows "owners_le a b \<and> (\<forall>(sid, rid, p) \<in> set xs. (sid, sid @ '':'' @ rid) \<in> owners_at b p \<and>
     (\<forall>(s, _) \<in> owners_at b p. s = sid))"
  using assms
proof (induction xs arbitrary: b rule: rev_induct)
  case (snoc x xs)
  obtain sid rid p where x: "x = (sid, rid, p)" by (cases x)
  from snoc.prems obtain c where c: "for_each xs claim_isolated a = Inr c" and "claim_isolated x c = Inr b"
    by (auto simp: for_each_append and_then_Inr_iff)
  then have own: "\<forall>(s, _) \<in> owners_at c p. s = sid" and b: "b = add_owner p (sid, sid @ '':'' @ rid) c"
    by (auto simp: x claim_isolated_def split: if_split_asm)
  have "(s, s @ '':'' @ r) \<in> owners_at b q \<and> (\<forall>(s', _) \<in> owners_at b q. s' = s)"
    if t: "(s, r, q) \<in> set xs" for s r q
  proof -
    have ih: "(s, s @ '':'' @ r) \<in> owners_at c q" "\<forall>(s', _) \<in> owners_at c q. s' = s"
      using snoc.IH [OF c] t by auto
    show ?thesis
    proof (cases "q = p")
      case True
      with own ih(1) have "s = sid" by auto
      with own ih True show ?thesis by (auto simp: b)
    qed (use ih in \<open>auto simp: b\<close>)
  qed
  moreover have "owners_le a b" using snoc.IH [OF c] by (auto simp: b elim: owners_le_trans)
  ultimately have "owners_le a b"
    and "\<forall>(s, r, q) \<in> set xs. (s, s @ '':'' @ r) \<in> owners_at b q \<and> (\<forall>(s', _) \<in> owners_at b q. s' = s)"
    by blast+
  moreover have "(sid, sid @ '':'' @ rid) \<in> owners_at b p \<and> (\<forall>(s', _) \<in> owners_at b p. s' = sid)"
    using own by (auto simp: b)
  ultimately show ?case by (simp add: x)
qed simp

text \<open>A property that one iteration establishes and every iteration keeps holds after the loop.\<close>

lemma for_each_established:
  assumes "for_each xs f s = Inr s'" "x \<in> set xs"
    and "\<And>t t'. f x t = Inr t' \<Longrightarrow> P t'"
    and "\<And>y t t'. f y t = Inr t' \<Longrightarrow> P t \<Longrightarrow> P t'"
  shows "P s'"
proof -
  obtain ys zs t t' where "f x t = Inr t'" and rest: "for_each zs f t' = Inr s'"
    using assms(1,2) by (rule for_each_set_at)
  then have "P t'" using assms(3) by blast
  with rest show ?thesis by (rule for_each_invariant) (rule assms(4))
qed

definition owned :: "string \<Rightarrow> string \<times> int \<Rightarrow> registry \<Rightarrow> bool" where
  "owned sid k reg \<longleftrightarrow> (\<exists>lid. dict_get (listener_owners reg) k = Some (sid @ '':'' @ lid))"

lemma claim_port_owned:
  assumes "claim_port sid lid protocol port reg = Inr reg'"
  shows "owned sid (protocol, port) reg'" "owned s k reg \<Longrightarrow> owned s k reg'"
  using assms by (auto simp: claim_port_def owned_def dict_simps split: option.splits)

lemma check_listener_owned:
  assumes "check_listener sid l reg = Inr reg'"
  shows "k \<in> set (listener_claims l) \<Longrightarrow> owned sid k reg'" "owned s k' reg \<Longrightarrow> owned s k' reg'"
proof -
  obtain lid listener where l: "l = (lid, listener)" by (cases l)
  obtain exposure ps where e: "item listener ''exposure'' = Inr exposure" "listener_ports exposure = Inr ps"
    and loop: "for_each ps (\<lambda>port reg. and_then (item_str listener ''protocol'') (\<lambda>protocol.
         claim_port sid lid protocol port reg)) reg = Inr reg'"
    using assms by (auto simp: l check_listener_def Let_def and_then_Inr_iff)
  show "owned s k' reg \<Longrightarrow> owned s k' reg'"
    using loop by (rule for_each_invariant) (auto simp: and_then_Inr_iff dest: claim_port_owned(2))
  assume "k \<in> set (listener_claims l)"
  then obtain protocol port where k: "k = (protocol, port)" "item_str listener ''protocol'' = Inr protocol" "port \<in> set ps"
    using e by (auto simp: l listener_claims_def split: sum.split_asm)
  show "owned sid k reg'"
    using loop k(3)
    by (rule for_each_established) (auto simp: k and_then_Inr_iff dest: claim_port_owned)
qed

lemma check_service_owned:
  assumes "check_service resolve platform resources credentials profiles services svc reg = Inr reg'"
  shows "k \<in> set (service_port_claims svc) \<Longrightarrow> owned (fst svc) k reg'" "owned s k' reg \<Longrightarrow> owned s k' reg'"
proof -
  obtain sid service where svc: "svc = (sid, service)" by (cases svc)
  obtain reg1 where r: "check_routes sid service reg = Inr reg1" and l: "check_listeners sid service reg1 = Inr reg'"
    using assms unfolding svc by (rule check_service_Inr)
  obtain ls where ls: "item_dict service ''listeners'' = Inr ls" and loop: "for_each ls (check_listener sid) reg1 = Inr reg'"
    using l by (auto simp: check_listeners_def and_then_Inr_iff)
  assume "owned s k' reg"
  then have "owned s k' reg1" using check_routes_claimed(3) [OF r] by (simp add: owned_def)
  with loop show "owned s k' reg'" by (rule for_each_invariant) (rule check_listener_owned(2))
next
  obtain sid service where svc: "svc = (sid, service)" by (cases svc)
  obtain reg1 where l: "check_listeners sid service reg1 = Inr reg'"
    using assms unfolding svc by (rule check_service_Inr)
  obtain ls where ls: "item_dict service ''listeners'' = Inr ls" and loop: "for_each ls (check_listener sid) reg1 = Inr reg'"
    using l by (auto simp: check_listeners_def and_then_Inr_iff)
  assume "k \<in> set (service_port_claims svc)"
  then obtain x where x: "x \<in> set ls" "k \<in> set (listener_claims x)"
    using ls by (auto simp: svc service_port_claims_def)
  have "owned sid k reg'"
    using loop x(1) by (rule for_each_established) (use x(2) in \<open>auto dest: check_listener_owned\<close>)
  then show "owned (fst svc) k reg'" by (simp add: svc)
qed

lemma tcp_owners_mono:
  "owners_le a (fold (\<lambda>((protocol, port), owner) owners.
     if protocol = ''tcp'' then add_owner port (owner_service owner, owner) owners else owners) lo a)"
proof (induction lo arbitrary: a)
  case (Cons x lo)
  show ?case
    by (cases x; cases "fst x") (auto intro: owners_le_trans [OF owners_le_add Cons] Cons)
qed simp

lemma tcp_owners_at:
  assumes "dict_get lo (''tcp'', port) = Some owner"
  shows "(owner_service owner, owner) \<in> owners_at (tcp_owners lo) port"
proof -
  let ?step = "\<lambda>((protocol, port), owner) owners.
     if protocol = ''tcp'' then add_owner port (owner_service owner, owner) owners else owners"
  have "((''tcp'', port), owner) \<in> set lo" using assms by (rule map_of_SomeD)
  then obtain xs ys where lo: "lo = xs @ ((''tcp'', port), owner) # ys" by (meson split_list)
  let ?b = "?step ((''tcp'', port), owner) (fold ?step xs [])"
  have "(owner_service owner, owner) \<in> owners_at ?b port" by simp
  moreover have "tcp_owners lo = fold ?step ys ?b" by (simp add: tcp_owners_def lo)
  moreover have "owners_at ?b port \<subseteq> owners_at (fold ?step ys ?b) port"
    using tcp_owners_mono [of ?b ys] unfolding owners_le_def by (rule spec)
  ultimately show ?thesis by (simp only:) (rule subsetD)
qed

lemma owner_service_prefix: "CHR '':'' \<notin> set sid \<Longrightarrow> owner_service (sid @ '':'' @ lid) = sid"
  unfolding owner_service_def by (induction sid) auto

lemma publications_accepted:
  assumes "semantic_validate resolve document platform = Inr u" "item_dict document ''services'' = Inr services"
    and "item document ''networkProfiles'' = Inr profiles"
    and i: "(sid, rid, port) \<in> set (concat (map (isolated_targets profiles) services))"
  shows "(sid', rid', port) \<in> set (concat (map (isolated_targets profiles) services)) \<Longrightarrow> sid' = sid"
    "svc \<in> set services \<Longrightarrow> (''tcp'', port) \<in> set (service_port_claims svc) \<Longrightarrow> CHR '':'' \<notin> set (fst svc)
      \<Longrightarrow> fst svc = sid"
proof -
  obtain rs cs ps reg where loop: "for_each services
      (check_service resolve platform (JObj rs) (JObj cs) (JObj ps) services) empty_registry = Inr reg"
    and "validate_route_publications document (listener_owners reg) = Inr ()"
    using assms(1) by (rule semantic_validate_Inr) (use assms(2) in auto)
  then obtain a xs b where a: "for_each services (service_publications profiles)
        (tcp_owners (listener_owners reg), []) = Inr (a, xs)"
    and b: "for_each (publication_order xs) claim_isolated a = Inr b"
    using assms(2,3) by (auto simp: validate_route_publications_def and_then_Inr_iff)
  have le: "owners_le (tcp_owners (listener_owners reg)) b" and xs: "xs = concat (map (isolated_targets profiles) services)"
    using all_publications [OF a] claim_isolated_loop [OF b] by (auto elim: owners_le_trans)
  have own: "\<forall>(sid, rid, p) \<in> set xs. (sid, sid @ '':'' @ rid) \<in> owners_at b p \<and> (\<forall>(s, _) \<in> owners_at b p. s = sid)"
    using claim_isolated_loop [OF b] by (simp add: publication_order_def)
  have at: "(s, s @ '':'' @ r) \<in> owners_at b p \<and> (\<forall>(s', _) \<in> owners_at b p. s' = s)"
    if "(s, r, p) \<in> set (concat (map (isolated_targets profiles) services))" for s r p
    using bspec [OF own, unfolded xs, OF that] by simp
  have i': "s = sid" if "(s, x) \<in> owners_at b port" for s x
    using at [OF i] that by auto
  show "sid' = sid" if "(sid', rid', port) \<in> set (concat (map (isolated_targets profiles) services))"
  proof -
    from at [OF that] have "(sid', sid' @ '':'' @ rid') \<in> owners_at b port" by blast
    then show ?thesis by (rule i')
  qed
  assume svc: "svc \<in> set services" "(''tcp'', port) \<in> set (service_port_claims svc)" "CHR '':'' \<notin> set (fst svc)"
  have "owned (fst svc) (''tcp'', port) reg"
    using loop svc(1) by (rule for_each_established) (erule check_service_owned(1), rule svc(2), erule (1) check_service_owned(2))
  then obtain lid where lid: "dict_get (listener_owners reg) (''tcp'', port) = Some (fst svc @ '':'' @ lid)"
    unfolding owned_def by blast
  have "(fst svc, fst svc @ '':'' @ lid) \<in> owners_at (tcp_owners (listener_owners reg)) port"
    using tcp_owners_at [OF lid] by (simp only: owner_service_prefix [OF svc(3)])
  with le have "(fst svc, fst svc @ '':'' @ lid) \<in> owners_at b port" unfolding owners_le_def by blast
  then show "fst svc = sid" by (rule i')
qed

end
