(* ===== verification/V2_Normalize.thy ===== *)
theory V2_Normalize
  imports Py_Json
begin

text \<open>
  The default-filling pass of the Managed Services compiler
  (\<open>services/nas_v2_spec.py\<close>, \<open>normalize\<close> and its helpers). The source mutates a deep copy in
  place; here every statement is a pass \<^typ>\<open>json \<Rightarrow> json res\<close> and a block of statements is
  \<^const>\<open>run_steps\<close>. The lemmas show that normalisation keeps every explicit value and every
  table entry, and that normalising twice is normalising once.
\<close>

section \<open>Definitions\<close>

definition normalize_network :: "json \<Rightarrow> json res" where
  "normalize_network = run_steps [
     setdefault ''mode'' (JStr ''host''),
     setdefault ''outboundDefault'' (JStr ''allow''),
     setdefault ''lanAccess'' (JBool False),
     setdefault ''allowedHostPorts'' (JList []),
     setdefault ''allowedEgress'' (JList []),
     upd_item ''allowedEgress'' (each_elem (setdefault ''ports'' (JList [])))]"

definition dynamic_identity :: json where
  "dynamic_identity = JObj [(''mode'', JStr ''dynamic'')]"

definition normalize_runtime :: "json \<Rightarrow> json res" where
  "normalize_runtime =
     branch ''type'' (is_text ''exec'')
       (run_steps [
          setdefault ''environment'' JEmpty,
          setdefault ''identity'' dynamic_identity,
          upd_item ''identity'' (setdefault ''mode'' (JStr ''dynamic'')),
          setdefault ''restart'' (JStr ''on-failure'')])
     (branch ''type'' (is_text ''python'')
       (run_steps [
          setdefault ''interpreter'' (JStr ''/run/current-system/sw/bin/python3''),
          setdefault ''dependencies'' JEmpty,
          upd_item ''dependencies'' (setdefault ''requireHashes'' (JBool True)),
          setdefault ''environment'' JEmpty,
          setdefault ''identity'' dynamic_identity,
          upd_item ''identity'' (setdefault ''mode'' (JStr ''dynamic'')),
          setdefault ''restart'' (JStr ''on-failure''),
          upd_item ''entrypoint'' (setdefault ''args'' (JList []))])
     (branch ''type'' (is_text ''oci'')
       (run_steps [
          setdefault ''command'' (JList []),
          setdefault ''pull'' (JStr ''missing'')])
       Inr))"

text \<open>The \<open>sandbox\<close> block: the default mode depends on whether the runtime is generated.\<close>

definition normalize_sandbox_mode :: "string \<Rightarrow> json \<Rightarrow> json res" where
  "normalize_sandbox_mode mode = run_steps [
     setdefault ''mode'' (JStr mode),
     branch ''mode'' (is_text ''strict'')
       (run_steps [
          setdefault ''readOnlyRoot'' (JBool True),
          setdefault ''writablePaths'' (JList []),
          setdefault ''tmpfs'' (JList []),
          setdefault ''addCapabilities'' (JList []),
          setdefault ''dropCapabilities'' (JList []),
          setdefault ''noNewPrivileges'' (JBool True)])
       Inr]"

definition normalize_sandbox :: "json \<Rightarrow> json res" where
  "normalize_sandbox =
     branch ''runtime'' (\<lambda>t. and_then (item t ''type'') (text_among [''exec'', ''python'', ''oci'']))
       (upd_item ''sandbox'' (normalize_sandbox_mode ''strict''))
       (upd_item ''sandbox'' (normalize_sandbox_mode ''inherit''))"

definition normalize_file :: "json \<Rightarrow> json res" where
  "normalize_file = run_steps [
     setdefault ''delivery'' (JStr ''generation''),
     setdefault ''mode'' (JStr ''0444''),
     setdefault ''onChange'' (JStr ''restart'')]"

definition normalize_workload :: "json \<Rightarrow> json res" where
  "normalize_workload =
     branch ''kind'' (is_text ''daemon'')
       (setdefault ''activation'' (JStr ''persistent''))
     (branch ''kind'' (is_text ''job'')
       (run_steps [
          setdefault ''schedules'' (JList []),
          upd_item ''schedules'' (each_elem (run_steps [
            setdefault ''randomizedDelaySeconds'' (JInt 0),
            setdefault ''persistent'' (JBool True)]))])
       Inr)"

definition normalize_probe :: "json \<Rightarrow> json res" where
  "normalize_probe =
     branch ''type'' (is_text ''tcp'')
       (setdefault ''host'' (JStr ''127.0.0.1''))
     (branch ''type'' (is_text ''http'')
       (run_steps [
          setdefault ''acceptStatusMin'' (JInt 200),
          setdefault ''acceptStatusMax'' (JInt 399)])
       Inr)"

definition normalize_readiness :: "json \<Rightarrow> json res" where
  "normalize_readiness = run_steps [
     setdefault ''timeoutSeconds'' (JInt 60),
     setdefault ''intervalMilliseconds'' (JInt 500),
     upd_item ''probes'' (each_elem normalize_probe)]"

text \<open>An absent network policy of a session becomes an isolated, deny-by-default one.\<close>

definition session_network :: "json \<Rightarrow> json res" where
  "session_network = run_steps [
     setdefault ''network'' JEmpty,
     upd_item ''network'' (run_steps [
       setdefault ''mode'' (JStr ''isolated''),
       setdefault ''outboundDefault'' (JStr ''deny''),
       normalize_network])]"

definition normalize_service_network :: "json \<Rightarrow> json res" where
  "normalize_service_network service =
     and_then (has_key service ''network'') (\<lambda>present.
       if present then upd_item ''network'' normalize_network service
       else and_then (item service ''workload'') (\<lambda>workload.
         and_then (get workload ''kind'') (\<lambda>kind.
           if kind = JStr ''session'' then session_network service
           else Inr service)))"

definition normalize_accelerator :: "json \<Rightarrow> json res" where
  "normalize_accelerator = run_steps [
     setdefault ''vendor'' (JStr ''any''),
     setdefault ''quantity'' (JInt 1),
     setdefault ''required'' (JBool False),
     setdefault ''mode'' (JStr ''shared'')]"

definition normalize_route :: "json \<Rightarrow> json res" where
  "normalize_route = run_steps [
     setdefault ''proxy'' JEmpty,
     upd_item ''proxy'' (run_steps [
       setdefault ''requestHeaders'' JEmpty,
       setdefault ''removeRequestHeaders'' (JList []),
       setdefault ''responseHeaders'' JEmpty,
       setdefault ''trustedIdentityHeaders'' (JList []),
       setdefault ''requireHeaders'' JEmpty]),
     setdefault ''portal'' JEmpty,
     upd_item ''portal'' (run_steps [
       setdefault ''visible'' (JBool False),
       setdefault ''order'' (JInt 0)]),
     upd_item ''auth'' (branch ''mode'' (is_text ''identity'')
       (setdefault ''capability'' (JStr ''access'')) Inr),
     upd_item ''target'' (branch ''type'' (text_among [''http'', ''https''])
       (setdefault ''host'' (JStr ''127.0.0.1'')) Inr),
     upd_item ''exposure'' (branch ''type'' (is_text ''hostname'')
       (setdefault ''path'' (JStr ''/'')) Inr)]"

definition service_defaults :: "(json \<Rightarrow> json res) list" where
  "service_defaults = [
     setdefault ''enabled'' (JBool True),
     setdefault ''managed'' (JBool True),
     setdefault ''dependencies'' (JList []),
     setdefault ''requiresCapabilities'' (JList []),
     setdefault ''authorization'' (JObj [(''capabilities'', JList [])]),
     upd_item ''authorization'' (setdefault ''capabilities'' (JList [])),
     setdefault ''resources'' JEmpty,
     upd_item ''resources'' (setdefault ''accelerators'' (JList [])),
     setdefault ''sandbox'' JEmpty,
     normalize_sandbox,
     setdefault ''storage'' (JList []),
     setdefault ''credentials'' (JList []),
     when_key ''files'' (upd_item ''files'' (each_elem normalize_file)),
     setdefault ''routes'' JEmpty,
     setdefault ''listeners'' JEmpty,
     upd_item ''workload'' normalize_workload,
     upd_item ''runtime'' normalize_runtime,
     when_key ''readiness'' (upd_item ''readiness'' normalize_readiness)]"

definition service_elements :: "(json \<Rightarrow> json res) list" where
  "service_elements = [
     upd_item ''dependencies'' (each_elem (setdefault ''condition'' (JStr ''ready''))),
     upd_item ''storage'' (each_elem (setdefault ''access'' (JStr ''read''))),
     upd_item ''resources'' (upd_item ''accelerators'' (each_elem normalize_accelerator)),
     upd_item ''routes'' (each_value normalize_route),
     upd_item ''listeners'' (each_value (setdefault ''firewall'' (JBool True)))]"

definition normalize_service :: "json \<Rightarrow> json res" where
  "normalize_service = run_steps (service_defaults @ normalize_service_network # service_elements)"

text \<open>
  The backup block: a missing or non-object \<open>backup\<close> (and \<open>backup.remote\<close>) becomes an empty
  object before its defaults are filled in.
\<close>

definition ensure_obj :: "string \<Rightarrow> json \<Rightarrow> json res" where
  "ensure_obj k x =
     and_then (has_key x k) (\<lambda>present.
       if \<not> present then set_item k JEmpty x
       else and_then (item x k) (\<lambda>v. if is_obj v then Inr x else set_item k JEmpty x))"

definition normalize_remote :: "json \<Rightarrow> json res" where
  "normalize_remote = run_steps [
     setdefault ''provider'' (JStr ''local''),
     setdefault ''scope'' (JStr ''config-only''),
     setdefault ''rcloneRemote'' (JStr ''''),
     setdefault ''rcloneConfigFile'' (JStr '''')]"

definition backup_body :: "json \<Rightarrow> json res" where
  "backup_body = run_steps [
     setdefault ''remote'' JEmpty,
     ensure_obj ''remote'',
     upd_item ''remote'' normalize_remote]"

definition normalize_backup :: "json \<Rightarrow> json res" where
  "normalize_backup d = and_then (ensure_obj ''backup'' d) (upd_item ''backup'' backup_body)"

definition normalize_resource :: "json \<Rightarrow> json res" where
  "normalize_resource = run_steps [
     setdefault ''scope'' (JStr ''system''),
     setdefault ''capabilities'' (JList [JStr ''read'']),
     setdefault ''backup'' (JObj [(''enabled'', JBool False), (''consistency'', JStr ''filesystem'')]),
     upd_item ''backup'' (setdefault ''enabled'' (JBool False)),
     upd_item ''backup'' (setdefault ''consistency'' (JStr ''filesystem'')),
     setdefault ''fileBrowser'' (JObj [(''visible'', JBool False)]),
     upd_item ''fileBrowser'' (setdefault ''visible'' (JBool False))]"

definition document_defaults :: "json \<Rightarrow> json res" where
  "document_defaults = run_steps [
     setdefault ''generation'' (JInt 1),
     setdefault ''storageResources'' JEmpty,
     setdefault ''credentials'' JEmpty,
     setdefault ''networkProfiles'' JEmpty]"

definition document_tables :: "json \<Rightarrow> json res" where
  "document_tables = run_steps [
     upd_item ''storageResources'' (each_value normalize_resource),
     upd_item ''credentials'' (each_value (setdefault ''required'' (JBool True))),
     upd_item ''networkProfiles'' (each_value normalize_network),
     upd_item ''services'' (each_value normalize_service)]"

definition normalize :: "json \<Rightarrow> json res" where
  "normalize document =
     and_then (document_defaults document) (\<lambda>d. and_then (normalize_backup d) document_tables)"

section \<open>Normalisation keeps explicit values and is idempotent\<close>

text \<open>
  The keys a pass may add: everything but \<open>files\<close>, \<open>readiness\<close> and \<open>kind\<close>, whose presence is
  tested; after the network block also not \<open>network\<close>.
\<close>

definition addable :: "string set" where
  "addable = - {''files'', ''readiness'', ''kind''}"

definition addable_late :: "string set" where
  "addable_late = - {''files'', ''readiness'', ''kind'', ''network''}"

lemma addable_simps [simp]:
  "k \<in> addable \<longleftrightarrow> k \<noteq> ''files'' \<and> k \<noteq> ''readiness'' \<and> k \<noteq> ''kind''"
  "k \<in> addable_late \<longleftrightarrow> k \<noteq> ''files'' \<and> k \<noteq> ''readiness'' \<and> k \<noteq> ''kind'' \<and> k \<noteq> ''network''"
  "addable_late \<subseteq> addable"
  by (auto simp: addable_def addable_late_def)

lemmas kind_simps = child_kind.simps table_keys_def seq_keys_def

lemmas settles_test = settles_branch [where D' = addable]

text \<open>Every pass before and after the network block grows its argument and settles.\<close>

definition good_pass :: "kind \<Rightarrow> (json \<Rightarrow> json res) \<Rightarrow> bool" where
  "good_pass b f \<longleftrightarrow> grows_by addable_late b f \<and> settles addable b f"

lemma good_passI:
  "grows_by addable_late b f \<Longrightarrow> settles addable b f \<Longrightarrow> good_pass b f"
  by (simp add: good_pass_def)

lemma good_grows: "good_pass b f \<Longrightarrow> grows_by addable_late b f"
  and good_grows': "good_pass b f \<Longrightarrow> grows_by addable b f"
  and good_settles: "good_pass b f \<Longrightarrow> settles addable b f"
  and good_settles': "good_pass b f \<Longrightarrow> settles addable_late b f"
  by (auto simp: good_pass_def intro: grows_by_mono settles_antimono)

named_theorems good_intros "closure properties of good passes"

lemma good_id [good_intros]: "good_pass b Inr"
  by (simp add: good_pass_def pass_intros)

lemma good_setdefault [good_intros]:
  "structured b \<Longrightarrow> k \<in> addable_late \<Longrightarrow> good_pass b (setdefault k v)"
  unfolding good_pass_def by (intro conjI pass_intros) auto

lemma good_upd_item [good_intros]:
  "structured b \<Longrightarrow> good_pass (child_kind b k) f \<Longrightarrow> good_pass b (upd_item k f)"
  unfolding good_pass_def by (intro conjI pass_intros) auto

lemma good_each_elem [good_intros]: "good_pass Struct f \<Longrightarrow> good_pass Seq (each_elem f)"
  unfolding good_pass_def by (intro conjI pass_intros) auto

lemma good_each_value [good_intros]: "good_pass Struct f \<Longrightarrow> good_pass Table (each_value f)"
  unfolding good_pass_def by (intro conjI pass_intros) auto

lemma good_no_steps [good_intros]: "good_pass b (run_steps [])"
  unfolding good_pass_def by (intro conjI pass_intros)

lemma good_steps [good_intros]:
  "good_pass b f \<Longrightarrow> good_pass b (run_steps fs) \<Longrightarrow> good_pass b (run_steps (f # fs))"
  by (intro good_passI pass_intros) (auto dest: good_grows good_grows' good_settles)

lemma good_branch [good_intros]:
  "structured b \<Longrightarrow> stable_test c \<Longrightarrow> good_pass b f \<Longrightarrow> good_pass b g \<Longrightarrow> good_pass b (branch k c f g)"
  by (intro good_passI pass_intros settles_test) (auto dest: good_grows good_grows' good_settles)

lemma good_when_key [good_intros]:
  "structured b \<Longrightarrow> k \<notin> addable \<Longrightarrow> good_pass b f \<Longrightarrow> good_pass b (when_key k f)"
  by (intro good_passI pass_intros settles_when_key [where D' = addable])
    (auto dest: good_grows good_grows' good_settles)

lemmas test_intros = stable_is_text stable_text_among stable_field_test

lemma good_network [good_intros]: "good_pass Struct normalize_network"
  unfolding normalize_network_def by (auto simp: kind_simps intro!: good_intros)

lemma good_runtime [good_intros]: "good_pass Runtime normalize_runtime"
  unfolding normalize_runtime_def by (auto simp: kind_simps intro!: good_intros test_intros)

lemma good_sandbox_mode [good_intros]: "good_pass Struct (normalize_sandbox_mode mode)"
  unfolding normalize_sandbox_mode_def by (auto simp: kind_simps intro!: good_intros test_intros)

lemma good_sandbox [good_intros]: "good_pass Struct normalize_sandbox"
  unfolding normalize_sandbox_def by (auto simp: kind_simps intro!: good_intros test_intros)

lemma good_file [good_intros]: "good_pass Struct normalize_file"
  unfolding normalize_file_def by (auto intro!: good_intros)

lemma good_workload [good_intros]: "good_pass Struct normalize_workload"
  unfolding normalize_workload_def by (auto simp: kind_simps intro!: good_intros test_intros)

lemma good_readiness [good_intros]: "good_pass Struct normalize_readiness"
  unfolding normalize_readiness_def normalize_probe_def
  by (auto simp: kind_simps intro!: good_intros test_intros)

lemma good_accelerator [good_intros]: "good_pass Struct normalize_accelerator"
  unfolding normalize_accelerator_def by (auto intro!: good_intros)

lemma good_route [good_intros]: "good_pass Struct normalize_route"
  unfolding normalize_route_def by (auto simp: kind_simps intro!: good_intros test_intros)

lemma good_resource [good_intros]: "good_pass Struct normalize_resource"
  unfolding normalize_resource_def by (auto simp: kind_simps intro!: good_intros)

lemma good_service_defaults: "list_all (good_pass Struct) service_defaults"
  unfolding service_defaults_def by (auto simp: kind_simps intro!: good_intros)

lemma good_service_elements: "good_pass Struct (run_steps service_elements)"
  unfolding service_elements_def by (auto simp: kind_simps intro!: good_intros)

text \<open>The network block is the one place that adds \<open>network\<close>.\<close>

lemma grows_by_session_network: "grows_by addable Struct session_network"
  unfolding session_network_def
  using good_grows' [OF good_network] by (auto simp: kind_simps intro!: pass_intros)

lemma grows_by_service_network: "grows_by addable Struct normalize_service_network"
proof (rule grows_byI)
  fix x y assume y: "normalize_service_network x = Inr y"
  have "grows_by addable Struct (upd_item ''network'' normalize_network)"
    by (rule good_grows') (auto simp: kind_simps intro!: good_intros)
  with y grows_by_session_network show "grows addable Struct x y"
    unfolding normalize_service_network_def
    by (auto simp: and_then_Inr_iff dest: grows_byD split: if_splits)
qed

lemma service_network_result:
  assumes "normalize_service_network x = Inr y"
  shows "(\<exists>v w. normalize_network v = Inr w \<and> item y ''network'' = Inr w)
    \<or> y = x \<and> has_key x ''network'' = Inr False \<and>
      (\<exists>w k. item x ''workload'' = Inr w \<and> get w ''kind'' = Inr k \<and> k \<noteq> JStr ''session'')"
proof -
  from assms consider "upd_item ''network'' normalize_network x = Inr y" | "session_network x = Inr y"
    | w k where "y = x" "has_key x ''network'' = Inr False" "item x ''workload'' = Inr w"
        "get w ''kind'' = Inr k" "k \<noteq> JStr ''session''"
    unfolding normalize_service_network_def by (auto simp: and_then_Inr_iff split: if_split_asm)
  then show ?thesis
  proof cases
    case 1
    then show ?thesis by (fastforce simp: upd_item_Inr_iff dict_simps)
  next
    case 2
    then obtain u where "upd_item ''network'' (run_steps [setdefault ''mode'' (JStr ''isolated''),
        setdefault ''outboundDefault'' (JStr ''deny''), normalize_network]) u = Inr y"
      by (auto simp: session_network_def run_steps.simps and_then_Inr_iff)
    then show ?thesis
      by (fastforce simp: upd_item_Inr_iff dict_simps run_steps.simps and_then_Inr_iff)
  qed blast
qed

lemma settles_service_network: "settles addable_late Struct normalize_service_network"
proof (rule settlesI)
  fix x y z assume "normalize_service_network x = Inr y" and g: "grows addable_late Struct y z"
  from service_network_result [OF this(1)]
  show "normalize_service_network z = Inr z"
  proof (elim disjE exE conjE)
    fix v w assume w: "normalize_network v = Inr w" "item y ''network'' = Inr w"
    from grows_item [OF _ g w(2)] obtain u where
      u: "item z ''network'' = Inr u" "grows addable_late Struct w u"
      by (auto simp: kind_simps)
    then have "normalize_network u = Inr u"
      using settlesD [OF good_settles' [OF good_network] w(1)] by blast
    with u(1) show ?thesis
      by (auto simp: normalize_service_network_def upd_item_Inr_iff item_Inr_iff dict_set_id)
  next
    fix w k assume yx: "y = x" and *: "has_key x ''network'' = Inr False"
      "item x ''workload'' = Inr w" "get w ''kind'' = Inr k" "k \<noteq> JStr ''session''"
    have "has_key z ''network'' = Inr False"
      using has_key_grows [OF _ g] * yx by simp
    moreover from grows_item [OF _ g *(2) [folded yx]] obtain u where
      u: "item z ''workload'' = Inr u" "grows addable_late Struct w u"
      by (auto simp: kind_simps)
    moreover obtain k' c where "get u ''kind'' = Inr k'" "grows addable_late c k k'"
      using get_grows [OF _ u(2) _ *(3)] by auto
    moreover from this(2) have "k' \<noteq> JStr ''session''" using *(4) by (auto elim: grows.cases)
    ultimately show ?thesis by (simp add: normalize_service_network_def)
  qed
qed

lemma run_steps_append: "run_steps (fs @ gs) x = and_then (run_steps fs x) (run_steps gs)"
proof (induction fs arbitrary: x)
  case (Cons f fs)
  then show ?case by (cases "f x") (simp_all add: run_steps.simps)
qed (simp add: run_steps.simps)

lemma grows_by_append:
  "list_all (good_pass b) fs \<Longrightarrow> grows_by addable b (run_steps gs) \<Longrightarrow> grows_by addable b (run_steps (fs @ gs))"
  by (induction fs) (auto intro!: grows_by_steps dest: good_grows')

lemma settles_append:
  assumes "list_all (good_pass b) fs" and "grows_by addable b (run_steps gs)"
    and "settles addable_late b (run_steps gs)"
  shows "settles addable_late b (run_steps (fs @ gs))"
  using assms(1)
proof (induction fs)
  case (Cons f fs)
  then show ?case
    using settles_steps_weaken [of addable b f "fs @ gs" addable_late] grows_by_append assms(2)
    by (auto dest: good_settles)
qed (simp add: assms)

lemma service_tail:
  "grows_by addable Struct (run_steps (normalize_service_network # service_elements))"
  "settles addable_late Struct (run_steps (normalize_service_network # service_elements))"
  using grows_by_service_network settles_service_network good_service_elements
  by (auto intro!: grows_by_steps settles_steps dest: good_grows good_grows' good_settles')

lemma grows_by_service: "grows_by addable Struct normalize_service"
  unfolding normalize_service_def by (rule grows_by_append [OF good_service_defaults service_tail(1)])

lemma settles_service: "settles addable_late Struct normalize_service"
  unfolding normalize_service_def by (rule settles_append [OF good_service_defaults service_tail])

subsection \<open>The whole document\<close>

text \<open>
  The only values normalisation discards are a \<open>backup\<close> or \<open>backup.remote\<close> that is not an
  object, which the JSON schema rules out.
\<close>

definition obj_or_absent :: "string \<Rightarrow> json \<Rightarrow> bool" where
  "obj_or_absent k x = (case item x k of Inl e \<Rightarrow> e = KeyError | Inr v \<Rightarrow> is_obj v)"

definition backup_ok :: "json \<Rightarrow> bool" where
  "backup_ok x \<longleftrightarrow> obj_or_absent ''backup'' x \<and>
     (case item x ''backup'' of Inl e \<Rightarrow> True | Inr v \<Rightarrow> obj_or_absent ''remote'' v)"

lemma ensure_obj_id:
  assumes "item x k = Inr (JObj d)"
  shows "ensure_obj k x = Inr x"
  using assms by (auto simp: ensure_obj_def item_Inr_iff)

lemma ensure_obj_result:
  assumes "ensure_obj k x = Inr y"
  shows "\<exists>d. item y k = Inr (JObj d)"
proof -
  from assms consider "set_item k JEmpty x = Inr y" | v where "y = x" "item x k = Inr v" "is_obj v"
    unfolding ensure_obj_def and_then_Inr_iff by (auto simp: and_then_Inr_iff split: if_split_asm)
  then show ?thesis
    by cases (auto simp: set_item_Inr_iff dict_simps elim: is_obj.elims)
qed

lemma grows_new_key:
  assumes "structured b" and "dict_get d k = None" and "k \<in> D"
  shows "grows D b (JObj d) (JObj (dict_set k v d))"
  using assms by (auto simp: dict_simps intro!: grows.fields split: if_splits)

lemma grows_ensure_obj:
  assumes b: "structured b" and y: "ensure_obj k x = Inr y" and ok: "obj_or_absent k x" and k: "k \<in> D"
  shows "grows D b x y"
proof (cases "item x k")
  case (Inl e)
  with ok obtain d where "x = JObj d" "dict_get d k = None"
    by (cases x) (auto simp: obj_or_absent_def split: option.splits)
  with y show ?thesis by (auto simp: ensure_obj_def intro: grows_new_key [OF b _ k])
next
  case (Inr v)
  with ok obtain d where "v = JObj d" by (cases v) (auto simp: obj_or_absent_def)
  with Inr y show ?thesis by (simp add: ensure_obj_id)
qed

lemma settles_ensure_obj:
  assumes b: "structured b"
  shows "settles D b (ensure_obj k)"
proof (rule settlesI)
  fix x y z assume "ensure_obj k x = Inr y" and g: "grows D b y z"
  then obtain d where d: "item y k = Inr (JObj d)" using ensure_obj_result by blast
  from grows_item [OF b g d] obtain w where w: "item z k = Inr w" "grows D (child_kind b k) (JObj d) w" by blast
  from w(2) obtain e where "w = JObj e" by (cases rule: grows.cases) auto
  with w(1) show "ensure_obj k z = Inr z" by (simp add: ensure_obj_id)
qed

lemma good_document_defaults: "good_pass Struct document_defaults"
  unfolding document_defaults_def by (auto intro!: good_intros)

lemma good_remote [good_intros]: "good_pass Struct normalize_remote"
  unfolding normalize_remote_def by (auto intro!: good_intros)

lemma document_tables_pass:
  "grows_by addable Struct document_tables" "settles addable_late Struct document_tables"
proof -
  let ?last = "upd_item ''services'' (each_value normalize_service)"
  have last: "grows_by addable Struct ?last" "settles addable_late Struct ?last"
    using grows_by_service settles_service
    by (auto simp: kind_simps intro!: pass_intros)
  let ?tables = "[upd_item ''storageResources'' (each_value normalize_resource),
     upd_item ''credentials'' (each_value (setdefault ''required'' (JBool True))),
     upd_item ''networkProfiles'' (each_value normalize_network)]"
  have tables: "list_all (good_pass Struct) ?tables"
    by (auto simp: kind_simps intro!: good_intros)
  have steps: "document_tables = run_steps (?tables @ [?last])"
    by (simp add: document_tables_def)
  have "grows_by addable Struct (run_steps [?last])" "settles addable_late Struct (run_steps [?last])"
    using last by (auto intro!: pass_intros)
  with tables show "grows_by addable Struct document_tables" "settles addable_late Struct document_tables"
    unfolding steps by (blast intro: grows_by_append settles_append)+
qed

text \<open>The document-level defaults do not touch \<open>backup\<close>.\<close>

lemma document_defaults_backup:
  assumes "document_defaults x = Inr y"
  shows "item y ''backup'' = item x ''backup''"
  using assms by (auto simp: document_defaults_def run_steps.simps and_then_Inr_iff
      setdefault_Inr_iff dict_simps)

definition checked_body :: "json \<Rightarrow> json res" where
  "checked_body = run_steps [setdefault ''remote'' JEmpty, upd_item ''remote'' normalize_remote]"

lemma good_checked_body: "good_pass Struct checked_body"
  unfolding checked_body_def by (auto simp: kind_simps intro!: good_intros)

text \<open>On a well-typed backup section the object checks do nothing.\<close>

lemma backup_body_checked:
  assumes "obj_or_absent ''remote'' v"
  shows "backup_body v = checked_body v"
proof (cases "setdefault ''remote'' JEmpty v")
  case (Inr u)
  then obtain d where u: "u = JObj (dict_setdefault ''remote'' JEmpty d)" and v: "v = JObj d"
    by (auto simp: setdefault_Inr_iff)
  have "\<exists>e. item u ''remote'' = Inr (JObj e)"
  proof (cases "dict_get d ''remote''")
    case (Some w)
    with assms v have "is_obj w" by (simp add: obj_or_absent_def)
    then obtain e where "w = JObj e" by (cases w) auto
    with Some show ?thesis by (simp add: u dict_simps)
  qed (simp add: u dict_simps)
  with Inr show ?thesis
    by (auto simp: backup_body_def checked_body_def run_steps.simps ensure_obj_id)
qed (simp add: backup_body_def checked_body_def run_steps.simps)

lemma checked_body_remote:
  assumes "checked_body v = Inr w"
  shows "obj_or_absent ''remote'' w"
proof -
  from assms obtain u where "upd_item ''remote'' normalize_remote u = Inr w"
    by (auto simp: checked_body_def run_steps.simps and_then_Inr_iff)
  then obtain r q where "item w ''remote'' = Inr q" "normalize_remote r = Inr q"
    by (auto simp: upd_item_Inr_iff dict_simps)
  moreover from this(2) have "is_obj q"
    by (auto simp: normalize_remote_def run_steps.simps and_then_Inr_iff setdefault_Inr_iff)
  ultimately show ?thesis by (simp add: obj_or_absent_def)
qed

lemma normalize_stages:
  assumes "normalize x = Inr y"
  obtains x1 x2 x3 where "document_defaults x = Inr x1" "ensure_obj ''backup'' x1 = Inr x2"
    "upd_item ''backup'' backup_body x2 = Inr x3" "document_tables x3 = Inr y"
  using assms unfolding normalize_def normalize_backup_def by (auto simp: and_then_Inr_iff)

lemma backup_stage:
  assumes ok: "backup_ok x1" and ens: "ensure_obj ''backup'' x1 = Inr x2"
  obtains v where "item x2 ''backup'' = Inr v" "obj_or_absent ''remote'' v"
proof (cases "item x1 ''backup''")
  case (Inl e)
  with ok obtain d where "x1 = JObj d" "dict_get d ''backup'' = None"
    by (cases x1) (auto simp: backup_ok_def obj_or_absent_def split: option.splits)
  with ens have "item x2 ''backup'' = Inr JEmpty" by (auto simp: ensure_obj_def dict_simps)
  moreover have "obj_or_absent ''remote'' JEmpty" by (simp add: obj_or_absent_def)
  ultimately show ?thesis by (rule that)
next
  case (Inr v)
  with ok have "is_obj v" "obj_or_absent ''remote'' v" by (auto simp: backup_ok_def obj_or_absent_def)
  moreover from this(1) Inr ens have "x2 = x1" by (cases v) (auto simp: ensure_obj_id)
  ultimately show ?thesis using Inr that by blast
qed

lemma normalize_growth:
  assumes ok: "backup_ok x" and x1: "document_defaults x = Inr x1"
    and x2: "ensure_obj ''backup'' x1 = Inr x2" and x3: "upd_item ''backup'' backup_body x2 = Inr x3"
    and y: "document_tables x3 = Inr y"
  shows "grows addable Struct x x1" "grows addable Struct x1 x2" "grows addable Struct x2 x3"
    "grows addable Struct x3 y" "\<exists>v w. checked_body v = Inr w \<and> item x3 ''backup'' = Inr w"
proof -
  have ok1: "backup_ok x1"
    using ok document_defaults_backup [OF x1] by (simp add: backup_ok_def obj_or_absent_def)
  show "grows addable Struct x x1" using good_grows' [OF good_document_defaults] x1 by (rule grows_byD)
  show "grows addable Struct x1 x2"
    using x2 ok1 by (auto simp: backup_ok_def intro: grows_ensure_obj)
  obtain v where v: "item x2 ''backup'' = Inr v" "obj_or_absent ''remote'' v"
    using ok1 x2 by (rule backup_stage)
  then have u: "upd_item ''backup'' checked_body x2 = Inr x3"
    using x3 backup_body_checked [OF v(2)] by (simp add: upd_item_def)
  have "grows_by addable Struct (upd_item ''backup'' checked_body)"
    using good_grows' [OF good_checked_body] by (auto simp: kind_simps intro!: pass_intros)
  then show "grows addable Struct x2 x3" using u by (rule grows_byD)
  show "\<exists>v w. checked_body v = Inr w \<and> item x3 ''backup'' = Inr w"
    using u by (auto simp: upd_item_Inr_iff dict_simps)
  show "grows addable Struct x3 y" using document_tables_pass(1) y by (rule grows_byD)
qed

lemma normalize_grows:
  assumes "backup_ok x" and "normalize x = Inr y"
  shows "grows addable Struct x y"
proof -
  obtain x1 x2 x3 where s: "document_defaults x = Inr x1" "ensure_obj ''backup'' x1 = Inr x2"
    "upd_item ''backup'' backup_body x2 = Inr x3" "document_tables x3 = Inr y"
    using assms(2) by (rule normalize_stages)
  note g = normalize_growth [OF assms(1) s]
  show ?thesis by (rule grows_trans [OF g(1) grows_trans [OF g(2) grows_trans [OF g(3,4)]]])
qed

lemma normalize_settles:
  assumes "backup_ok x" and "normalize x = Inr y"
  shows "normalize y = Inr y"
proof -
  obtain x1 x2 x3 where s: "document_defaults x = Inr x1" "ensure_obj ''backup'' x1 = Inr x2"
    "upd_item ''backup'' backup_body x2 = Inr x3" "document_tables x3 = Inr y"
    using assms(2) by (rule normalize_stages)
  note g = normalize_growth [OF assms(1) s]
  have g2: "grows addable Struct x2 y" by (rule grows_trans [OF g(3,4)])
  have "document_defaults y = Inr y"
    using good_settles [OF good_document_defaults] s(1) grows_trans [OF g(2) g2] by (rule settlesD)
  moreover have "ensure_obj ''backup'' y = Inr y"
    using settles_ensure_obj s(2) g2 by (rule settlesD) simp
  moreover have "upd_item ''backup'' backup_body y = Inr y"
  proof -
    obtain v w where w: "checked_body v = Inr w" "item x3 ''backup'' = Inr w" using g(5) by blast
    from grows_item [OF _ g(4) w(2)] obtain u where
      u: "item y ''backup'' = Inr u" "grows addable Struct w u" by (auto simp: kind_simps)
    then have "checked_body u = Inr u" using settlesD [OF good_settles [OF good_checked_body] w(1)] by blast
    moreover from this have "backup_body u = checked_body u"
      by (intro backup_body_checked checked_body_remote)
    ultimately show ?thesis using u(1) by (auto simp: upd_item_Inr_iff item_Inr_iff dict_set_id)
  qed
  moreover have "document_tables y = Inr y"
    using document_tables_pass(2) s(4) by (rule settles_idempotent)
  ultimately show ?thesis by (simp add: normalize_def normalize_backup_def)
qed

end
