(* ===== verification/V2_Guarantees.thy ===== *)
theory V2_Guarantees
  imports V2_Validated V2_Normalize
begin

text \<open>
  The guarantees of the Managed Services compiler front end: what normalization keeps and
  what a document that passed the semantic validator satisfies. Each property is followed by
  an instance on one small document.
\<close>

section \<open>A document\<close>

definition sample_document :: json where
  "sample_document =
     JObj [(''version'', JInt 2), (''storageResources'', JObj [(''media'', JObj [(''path'',
     JStr ''/srv/media''), (''stateClass'', JStr ''persistent'')])]), (''credentials'', JObj [(''token'',
     JObj [(''path'', JStr ''/run/nas-secrets/token'')])]), (''networkProfiles'', JObj [(''quiet'',
     JObj [(''mode'', JStr ''isolated'')])]), (''services'', JObj [(''db'', JObj [(''runtime'',
     JObj [(''type'', JStr ''oci''), (''image'', JStr ''db'')]), (''workload'', JObj [(''kind'',
     JStr ''daemon'')]), (''networkProfile'', JStr ''quiet''), (''readiness'', JObj [(''probes'',
     JList [JObj [(''type'', JStr ''tcp''), (''port'', JInt 5432)]])]), (''routes'', JObj [(''ui'',
     JObj [(''exposure'', JObj [(''type'', JStr ''path''), (''paths'', JList [JStr ''/Db''])]), (''auth'',
     JObj [(''mode'', JStr ''identity'')]), (''target'', JObj [(''type'', JStr ''http''), (''port'',
     JInt 8081)])])])]), (''web'', JObj [(''runtime'', JObj [(''type'', JStr ''systemd''), (''unit'',
     JStr ''web.service'')]), (''workload'', JObj [(''kind'', JStr ''daemon'')]), (''dependencies'',
     JList [JObj [(''service'', JStr ''db'')]]), (''storage'', JList [JObj [(''resource'', JStr ''media''),
     (''mountPath'', JStr ''/data'')]]), (''credentials'', JList [JObj [(''credential'', JStr ''token''),
     (''use'', JStr ''file''), (''mountPath'', JStr ''/run/token'')]]), (''routes'', JObj [(''home'',
     JObj [(''exposure'', JObj [(''type'', JStr ''hostname''), (''hostnames'', JList [JStr ''nas.lan''])]),
     (''auth'', JObj [(''mode'', JStr ''public'')]), (''target'', JObj [(''type'', JStr ''http''), (''port'',
     JInt 8080)])])]), (''listeners'', JObj [(''ssh'', JObj [(''protocol'', JStr ''tcp''), (''exposure'',
     JObj [(''port'', JInt 2222)])])])])])]"

definition sample_normalized :: json where
  "sample_normalized = projr (normalize sample_document)"

definition sample_services :: json_dict where
  "sample_services = projr (item_dict sample_normalized ''services'')"

definition sample_profiles :: json where
  "sample_profiles = projr (item sample_normalized ''networkProfiles'')"

lemma sample_normalizes: "normalize sample_document = Inr sample_normalized"
  by code_simp

lemma sample_services_item: "item_dict sample_normalized ''services'' = Inr sample_services"
  by code_simp

lemma sample_accepted: "semantic_validate (\<lambda>p. p) sample_normalized None = Inr ()"
  by code_simp

section \<open>Helpers\<close>

lemma sorted_paths_coexist:
  assumes "sorted_wrt paths_coexist ps"
  shows "distinct ps \<and> (''/'' \<in> set ps \<longrightarrow> ps = [''/''])"
proof -
  have "distinct ps" using assms by (induction ps) (auto simp: paths_coexist_def)
  moreover have "ps = [''/'']" if "''/'' \<in> set ps"
  proof -
    from that obtain as bs where ps: "ps = as @ ''/'' # bs" by (meson split_list)
    with assms show ?thesis by (auto simp: sorted_wrt_append paths_coexist_def)
  qed
  ultimately show ?thesis by blast
qed

lemma sorted_hostpaths_coexist:
  assumes "sorted_wrt hostpaths_coexist hs"
  shows "distinct hs \<and> (\<forall>host p. (host, ''/'') \<in> set hs \<and> (host, p) \<in> set hs \<longrightarrow> p = ''/'')"
proof -
  have "distinct hs" using assms by (induction hs) (auto simp: hostpaths_coexist_def paths_coexist_def)
  moreover have "p = ''/''" if "(host, ''/'') \<in> set hs" "(host, p) \<in> set hs" for host p
  proof (rule ccontr)
    assume "p \<noteq> ''/''"
    from that(1) obtain as bs where hs: "hs = as @ (host, ''/'') # bs" by (meson split_list)
    with that(2) \<open>p \<noteq> ''/''\<close> have "(host, p) \<in> set as \<or> (host, p) \<in> set bs" by auto
    with assms show False by (auto simp: hs sorted_wrt_append hostpaths_coexist_def paths_coexist_def)
  qed
  ultimately show ?thesis by blast
qed

lemma service_checks:
  assumes "semantic_validate resolve document platform = Inr u" "item_dict document ''services'' = Inr services"
    and "(sid, service) \<in> set services"
    and "item document ''storageResources'' = Inr (JObj rs)" "item document ''credentials'' = Inr (JObj cs)"
      "item document ''networkProfiles'' = Inr (JObj ps)"
  obtains reg reg' where
    "check_service resolve platform (JObj rs) (JObj cs) (JObj ps) services (sid, service) reg = Inr reg'"
  using assms(1-3) by (rule semantic_validate_service) (use assms(4-6) that in auto)

section \<open>Exclusive endpoints\<close>

text \<open>
  C1: In a document that the semantic validator accepts, no protocol and port pair is claimed
  twice, neither by two listeners nor by overlapping ranges of one listener.
\<close>

theorem accepted_ports_exclusive:
  assumes "semantic_validate resolve document platform = Inr u"
    and "item_dict document ''services'' = Inr services"
  shows "distinct (concat (map service_port_claims services))"
  using assms by (rule claims_accepted)

theorem accepted_ports_exclusive_witness:
  "distinct (concat (map service_port_claims sample_services)) \<and>
   concat (map service_port_claims sample_services) = [(''tcp'', 2222)]"
proof
  show "distinct (concat (map service_port_claims sample_services))"
    using accepted_ports_exclusive [OF sample_accepted sample_services_item] .
  show "concat (map service_port_claims sample_services) = [(''tcp'', 2222)]" by code_simp
qed

text \<open>
  C19: In an accepted document all path routes have different canonical paths, and the root
  path is claimed only when it is the only path route of the document.
\<close>

theorem accepted_paths_exclusive:
  assumes "semantic_validate resolve document platform = Inr u"
    and "item_dict document ''services'' = Inr services"
  defines "ps \<equiv> concat (map service_path_claims services)"
  shows "distinct ps \<and> (''/'' \<in> set ps \<longrightarrow> ps = [''/''])"
  unfolding ps_def by (rule sorted_paths_coexist) (rule claims_accepted [OF assms(1,2)])

theorem accepted_paths_exclusive_witness:
  "concat (map service_path_claims sample_services) = [''/db''] \<and>
   distinct (concat (map service_path_claims sample_services))"
proof
  show "concat (map service_path_claims sample_services) = [''/db'']" by code_simp
  show "distinct (concat (map service_path_claims sample_services))"
    using accepted_paths_exclusive [OF sample_accepted sample_services_item] by blast
qed

text \<open>
  C20: In an accepted document no two hostname routes have the same case-folded host and
  canonical path, and a host whose root path is claimed has no other path.
\<close>

theorem accepted_hostnames_exclusive:
  assumes "semantic_validate resolve document platform = Inr u"
    and "item_dict document ''services'' = Inr services"
  defines "hs \<equiv> concat (map service_host_claims services)"
  shows "distinct hs \<and> (\<forall>host p. (host, ''/'') \<in> set hs \<and> (host, p) \<in> set hs \<longrightarrow> p = ''/'')"
  unfolding hs_def by (rule sorted_hostpaths_coexist) (rule claims_accepted [OF assms(1,2)])

theorem accepted_hostnames_exclusive_witness:
  "concat (map service_host_claims sample_services) = [(''nas.lan'', ''/'')] \<and>
   distinct (concat (map service_host_claims sample_services))"
proof
  show "concat (map service_host_claims sample_services) = [(''nas.lan'', ''/'')]" by code_simp
  show "distinct (concat (map service_host_claims sample_services))"
    using accepted_hostnames_exclusive [OF sample_accepted sample_services_item] by blast
qed

text \<open>
  In an accepted document a loopback port that the host forwards to an isolated service
  belongs to that service alone: no other isolated service has a route to it, and no other
  service listens on it with TCP.
\<close>

theorem accepted_isolated_ports:
  assumes "semantic_validate resolve document platform = Inr u"
    and "item_dict document ''services'' = Inr services" "item document ''networkProfiles'' = Inr profiles"
    and "(sid, rid, port) \<in> set (concat (map (isolated_targets profiles) services))"
  shows "(\<forall>sid' rid'. (sid', rid', port) \<in> set (concat (map (isolated_targets profiles) services)) \<longrightarrow> sid' = sid) \<and>
    (\<forall>svc \<in> set services. (''tcp'', port) \<in> set (service_port_claims svc) \<and> CHR '':'' \<notin> set (fst svc) \<longrightarrow> fst svc = sid)"
  using publications_accepted [OF assms] by blast

lemma sample_isolated: "concat (map (isolated_targets sample_profiles) sample_services) = [(''db'', ''ui'', 8081)]"
  by code_simp

theorem accepted_isolated_ports_witness:
  "filter (\<lambda>svc. (''tcp'', 8081) \<in> set (service_port_claims svc) \<and> CHR '':'' \<notin> set (fst svc)
     \<and> fst svc \<noteq> ''db'') sample_services = []"
proof -
  have p: "item sample_normalized ''networkProfiles'' = Inr sample_profiles" by code_simp
  show ?thesis
    using accepted_isolated_ports [OF sample_accepted sample_services_item p, of "''db''" "''ui''" 8081]
    unfolding sample_isolated filter_empty_conv by (metis list.set_intros(1))
qed

section \<open>Dependencies and references\<close>

text \<open>
  C4: The dependencies of an accepted document refer to declared services and have no cycle,
  so the services can be started in dependency order.
\<close>

theorem accepted_dependencies_acyclic:
  assumes "semantic_validate resolve document platform = Inr u"
    and "item_dict document ''services'' = Inr services"
  shows "closed_graph services \<and> acyclic_graph services"
proof
  show "closed_graph services" using assms by (rule accepted_closed_graph)
  have "validate_dependency_graph services = Inr ()"
    using assms(1) by (rule semantic_validate_Inr) (use assms(2) in simp)
  then show "acyclic_graph services" by (rule validate_graph_sound)
qed

theorem accepted_dependencies_acyclic_witness:
  "edge sample_services ''web'' ''db'' \<and> \<not> edge sample_services ''db'' ''web''"
proof
  have "declared_dependencies sample_services ''web'' = Inr [JObj [(''service'', JStr ''db''), (''condition'', JStr ''ready'')]]"
    by code_simp
  then show e: "edge sample_services ''web'' ''db''"
    unfolding edge_def by (simp add: item_str_def)
  show "\<not> edge sample_services ''db'' ''web''"
    using accepted_dependencies_acyclic [OF sample_accepted sample_services_item] e
    unfolding acyclic_graph_def by (meson tranclp.r_into_trancl tranclp.trancl_into_trancl)
qed

text \<open>
  C37: Every dependency of an accepted document can be met: it names another declared service,
  an enabled service depends on enabled services only, \<open>completed\<close> is asked of jobs and
  \<open>ready\<close> of services that are not jobs and have a readiness probe; and no service names the
  same target twice.
\<close>

theorem accepted_dependencies_satisfiable:
  assumes "semantic_validate resolve document platform = Inr u"
    and "item_dict document ''services'' = Inr services" "(sid, service) \<in> set services"
  shows "\<exists>deps. item_list service ''dependencies'' = Inr deps \<and> distinct (map dependency_target deps) \<and>
    (\<forall>d \<in> set deps. dependency_ok services sid service d)"
proof -
  obtain rs cs ps reg reg' where
    "check_service resolve platform (JObj rs) (JObj cs) (JObj ps) services (sid, service) reg = Inr reg'"
    using assms by (rule semantic_validate_service)
  then have "check_dependencies services sid service = Inr ()" by (rule check_service_Inr)
  then show ?thesis by (rule check_dependencies_Inr) blast
qed

lemma sample_resources:
  "item sample_normalized ''storageResources'' = Inr (JObj (projr (item_dict sample_normalized ''storageResources'')))"
  by code_simp

lemma sample_credentials:
  "item sample_normalized ''credentials'' = Inr (JObj (projr (item_dict sample_normalized ''credentials'')))"
  by code_simp

lemma sample_profiles_obj:
  "item sample_normalized ''networkProfiles'' = Inr (JObj (projr (item_dict sample_normalized ''networkProfiles'')))"
  by code_simp

lemma sample_web: "(''web'', projr (item (JObj sample_services) ''web'')) \<in> set sample_services"
  by code_simp

theorem accepted_dependencies_satisfiable_witness:
  "\<exists>deps. item_list (projr (item (JObj sample_services) ''web'')) ''dependencies'' = Inr deps \<and>
     list_all (dependency_ok sample_services ''web'' (projr (item (JObj sample_services) ''web''))) deps"
  using accepted_dependencies_satisfiable [OF sample_accepted sample_services_item sample_web]
  unfolding list_all_iff by blast

text \<open>
  Every reference of an accepted service resolves: each storage attachment names a declared
  resource and mounts it at an absolute path without \<open>..\<close>, no two of them at the same path;
  each credential attachment names a declared credential; a named network profile is
  declared.
\<close>

theorem accepted_references_resolve:
  assumes "semantic_validate resolve document platform = Inr u"
    and "item_dict document ''services'' = Inr services" "(sid, service) \<in> set services"
    and "item document ''storageResources'' = Inr (JObj rs)" "item document ''credentials'' = Inr (JObj cs)"
      "item document ''networkProfiles'' = Inr (JObj ps)"
  shows "(\<exists>xs. item_list service ''storage'' = Inr xs \<and> distinct (map mount_of xs) \<and> (\<forall>a \<in> set xs. storage_ok rs a)) \<and>
    (\<exists>xs. item_list service ''credentials'' = Inr xs \<and> (\<forall>a \<in> set xs. credential_ok cs a)) \<and>
    (\<forall>p. item service ''networkProfile'' = Inr p \<longrightarrow> (\<exists>name. p = JStr name \<and> dict_get ps name \<noteq> None))"
proof -
  obtain reg reg' where s:
    "check_service resolve platform (JObj rs) (JObj cs) (JObj ps) services (sid, service) reg = Inr reg'"
    using assms by (rule service_checks)
  have c: "check_storage (JObj rs) sid service = Inr ()" using s by (rule check_service_Inr)
  obtain xs where "item_list service ''storage'' = Inr xs" "distinct (map mount_of xs)"
    "\<forall>a \<in> set xs. storage_ok rs a" using c by (rule check_storage_Inr)
  moreover have c: "check_credentials (JObj cs) sid service = Inr ()" using s by (rule check_service_Inr)
  obtain ys where "item_list service ''credentials'' = Inr ys" "\<forall>a \<in> set ys. credential_ok cs a"
    using c by (rule check_credentials_Inr)
  moreover have c: "check_network (JObj ps) sid service = Inr ()" using s by (rule check_service_Inr)
  note check_network_profile [OF c]
  ultimately show ?thesis by blast
qed

theorem accepted_references_resolve_witness:
  "\<exists>xs. item_list (projr (item (JObj sample_services) ''web'')) ''storage'' = Inr xs \<and>
     list_all (storage_ok (projr (item_dict sample_normalized ''storageResources''))) xs"
  unfolding list_all_iff using accepted_references_resolve
    [OF sample_accepted sample_services_item sample_web sample_resources sample_credentials sample_profiles_obj]
  by blast

section \<open>Containment\<close>

text \<open>
  Every declared credential of an accepted document lies below the secret root, as written
  and after symbolic links are resolved, and has no \<open>..\<close> component.
\<close>

theorem accepted_credentials_contained:
  assumes "semantic_validate resolve document platform = Inr u"
    and "item_dict document ''credentials'' = Inr cs" "(cid, credential) \<in> set cs"
  shows "\<exists>p. item_str credential ''path'' = Inr p \<and> ''..'' \<notin> set (path_tail (pure_path p)) \<and>
    under secret_root (pure_path p) \<and> under (resolve secret_root) (resolve (pure_path p))"
proof -
  obtain cs' where "item document ''credentials'' = Inr (JObj cs')" "\<forall>c \<in> set cs'. check_credential resolve c = Inr ()"
    using assms(1) by (rule semantic_validate_Inr)
  then have "check_credential resolve (cid, credential) = Inr ()"
    using assms(2,3) by (auto simp: item_dict_Inr_iff)
  then show ?thesis by (rule check_credential_Inr) blast
qed

theorem accepted_credentials_contained_witness:
  "\<exists>p. item_str (projr (item2 sample_normalized ''credentials'' ''token'')) ''path'' = Inr p \<and>
     under secret_root (pure_path p)"
proof -
  have "item_dict sample_normalized ''credentials'' = Inr (projr (item_dict sample_normalized ''credentials''))"
    by code_simp
  moreover have "(''token'', projr (item2 sample_normalized ''credentials'' ''token'')) \<in>
       set (projr (item_dict sample_normalized ''credentials''))"
    by code_simp
  ultimately show ?thesis using accepted_credentials_contained [OF sample_accepted] by blast
qed

end
