(* ===== verification/V2_Document.thy ===== *)
theory V2_Document
  imports Py_Json
begin

text \<open>
  Reading the desired state (\<open>services/nas_v2_spec.py\<close>, from \<open>_json_path\<close> to
  \<open>validate_schema\<close> and \<open>load_platform_capabilities\<close>). The YAML parser returns a graph of
  mutable Python objects in which an alias is a second reference to the same object: a value
  is a scalar, an object of a type JSON does not have, or a reference into a store of
  containers. \<open>plain_bounded\<close> unfolds the graph to a tree under a depth and a node budget and
  refuses cycles. The parser, the schema checker and the files are parameters.
\<close>

section \<open>Unfolding the object graph\<close>

definition MAX_YAML_DEPTH :: nat where
  "MAX_YAML_DEPTH = 200"

definition MAX_YAML_NODES :: nat where
  "MAX_YAML_NODES = 200000"

text \<open>The parts of a path: keys and list indices.\<close>

datatype path_part = PKey string | PIndex nat

fun part_str :: "path_part \<Rightarrow> string" where
  "part_str (PIndex i) = ''['' @ nat_digits i @ '']''"
| "part_str (PKey k) = ''.'' @ k"

definition json_path :: "path_part list \<Rightarrow> string" where
  "json_path parts = ''$'' @ concat (map part_str parts)"

text \<open>
  Scalars are the JSON scalars; \<open>YOther\<close> stands for a date, a set or any other object the safe
  loader builds. Mapping keys are scalars, converted by \<open>str\<close>.
\<close>

datatype yaml_scalar = SNull | SBool bool | SInt int | SFloat string | SStr string

datatype yaml_value = YScalar yaml_scalar | YOther string | YRef nat

datatype yaml_cell = YMapping "(yaml_scalar \<times> yaml_value) list" | YSequence "yaml_value list"

type_synonym yaml_store = "nat \<Rightarrow> yaml_cell"

fun scalar_json :: "yaml_scalar \<Rightarrow> json" where
  "scalar_json SNull = JNull"
| "scalar_json (SBool b) = JBool b"
| "scalar_json (SInt i) = JInt i"
| "scalar_json (SFloat r) = JFloat r"
| "scalar_json (SStr s) = JStr s"

definition key_str :: "yaml_scalar \<Rightarrow> string" where
  "key_str k = py_str (scalar_json k)"

text \<open>\<open>count[0] += 1\<close> and its budget.\<close>

definition count_node :: "path_part list \<Rightarrow> nat \<Rightarrow> nat res" where
  "count_node path count =
     (if Suc count > MAX_YAML_NODES then Inl (V2Error ''yaml-nodes'' (json_path path)) else Inr (Suc count))"

text \<open>
  The comprehensions are loops that add one converted element after the other to the output and
  thread the node count.
\<close>

fun collect_each ::
  "('a \<Rightarrow> nat \<Rightarrow> (json \<times> nat) res) \<Rightarrow> ('a \<Rightarrow> json \<Rightarrow> 's \<Rightarrow> 's) \<Rightarrow> 'a list \<Rightarrow> 's \<Rightarrow> nat \<Rightarrow> ('s \<times> nat) res" where
  "collect_each g add [] out count = Inr (out, count)"
| "collect_each g add (x # xs) out count =
     and_then (g x count) (\<lambda>(j, count). collect_each g add xs (add x j out) count)"

lemma collect_each_cong [fundef_cong]:
  "xs = ys \<Longrightarrow> (\<And>x c. x \<in> set ys \<Longrightarrow> g x c = h x c) \<Longrightarrow> add = add' \<Longrightarrow> out = out' \<Longrightarrow> count = count' \<Longrightarrow>
   collect_each g add xs out count = collect_each h add' ys out' count'"
proof (induction xs arbitrary: ys out out' count count')
  case (Cons x xs)
  then show ?case by (cases "h x count'") auto
qed simp

definition put_key :: "yaml_scalar \<times> yaml_value \<Rightarrow> json \<Rightarrow> json_dict \<Rightarrow> json_dict" where
  "put_key e j out = dict_set (key_str (fst e)) j out"

definition put_last :: "nat \<times> yaml_value \<Rightarrow> json \<Rightarrow> json list \<Rightarrow> json list" where
  "put_last e j out = out @ [j]"

text \<open>
  The set of ancestors holds the identities of the containers being expanded; the source
  removes an identity on every exit, so that it is an argument here. Converted keys that
  coincide override each other as in a dictionary comprehension.
\<close>

function plain_bounded ::
  "yaml_store \<Rightarrow> yaml_value \<Rightarrow> nat set \<Rightarrow> path_part list \<Rightarrow> nat \<Rightarrow> nat \<Rightarrow> (json \<times> nat) res" where
  "plain_bounded store (YRef r) ancestors path depth count =
     (if r \<in> ancestors then Inl (V2Error ''yaml-cycle'' (json_path path))
      else if depth > MAX_YAML_DEPTH then Inl (V2Error ''yaml-depth'' (json_path path))
      else and_then (count_node path count) (\<lambda>n.
        case store r of
          YMapping entries \<Rightarrow>
            and_then (collect_each
                (\<lambda>e c. plain_bounded store (snd e) (insert r ancestors) (path @ [PKey (key_str (fst e))]) (Suc depth) c)
                put_key entries [] n)
              (\<lambda>(out, c). Inr (JObj out, c))
        | YSequence elems \<Rightarrow>
            and_then (collect_each
                (\<lambda>e c. plain_bounded store (snd e) (insert r ancestors) (path @ [PIndex (fst e)]) (Suc depth) c)
                put_last (enumerate 0 elems) [] n)
              (\<lambda>(out, c). Inr (JList out, c))))"
| "plain_bounded store (YScalar s) ancestors path depth count =
     and_then (count_node path count) (\<lambda>n. Inr (scalar_json s, n))"
| "plain_bounded store (YOther t) ancestors path depth count =
     and_then (count_node path count) (\<lambda>n. Inl (V2Error ''yaml-type'' ''$''))"
  by pat_completeness auto

termination
  by (relation "measure (\<lambda>(store, v, ancestors, path, depth, count). Suc MAX_YAML_DEPTH - depth)") auto

definition plain :: "yaml_store \<Rightarrow> yaml_value \<Rightarrow> json res" where
  "plain store v = and_then (plain_bounded store v {} [] 0 0) (\<lambda>(j, _). Inr j)"

section \<open>Documents\<close>

text \<open>
  What the YAML parser does with a text: an error, with the position of its mark when it has
  one, or a value (\<open>None\<close> for YAML null) in a store.
\<close>

datatype yaml_outcome = YamlError "(nat \<times> nat) option" | YamlValue yaml_store yaml_value

definition mark_path :: "(nat \<times> nat) option \<Rightarrow> string" where
  "mark_path mark =
     (case mark of None \<Rightarrow> ''$''
      | Some (line, column) \<Rightarrow> ''$@'' @ nat_digits (line + 1) @ '':'' @ nat_digits (column + 1))"

definition parse_yaml_text :: "(string \<Rightarrow> yaml_outcome) \<Rightarrow> string \<Rightarrow> json res" where
  "parse_yaml_text load txt =
     (if py_strip txt = [] then Inl (V2Error ''yaml-empty'' ''$'')
      else (case load txt of
        YamlError mark \<Rightarrow> Inl (V2Error ''yaml-parse'' (mark_path mark))
      | YamlValue store v \<Rightarrow>
          if v = YScalar SNull then Inl (V2Error ''yaml-empty'' ''$'')
          else and_then (plain store v) (\<lambda>j.
            if \<not> is_obj j then Inl (V2Error ''yaml-root'' ''$'') else Inr j)))"

text \<open>\<open>p.suffix\<close>: from the last dot, unless it is the first or the last character.\<close>

definition path_suffix :: "string \<Rightarrow> string" where
  "path_suffix name =
     (let tail = takeWhile (\<lambda>c. c \<noteq> CHR ''.'') (rev name) in
      if tail = [] \<or> length name \<le> Suc (length tail) then [] else CHR ''.'' # rev tail)"

definition is_yaml_name :: "string \<Rightarrow> bool" where
  "is_yaml_name name \<longleftrightarrow> py_lower (path_suffix name) \<in> {''.yaml'', ''.yml''}"

text \<open>
  The desired state on disk: a directory that lists names with what each name holds, a file, or
  nothing readable. \<open>None\<close> is an entry that is not a regular file or a file that cannot be read.
\<close>

datatype dir_entry = NotFile | FileText string | FileUnreadable

datatype spec_source = SpecDir "(string \<times> dir_entry) list option" | SpecFile "string option"

definition yaml_files_in_dir :: "(string \<times> dir_entry) list option \<Rightarrow> (string \<times> dir_entry) list res" where
  "yaml_files_in_dir entries =
     (case entries of
        None \<Rightarrow> Inl (V2Error ''io-read'' ''$'')
      | Some es \<Rightarrow> Inr (sort_key fst (filter (\<lambda>(name, entry). entry \<noteq> NotFile \<and> is_yaml_name name) es)))"

definition merge_value :: "string \<times> json \<Rightarrow> json_dict \<Rightarrow> json_dict" where
  "merge_value = (\<lambda>(key, v) merged.
     case (dict_get merged key, v) of
       (Some (JObj a), JObj b) \<Rightarrow> dict_set key (JObj (fold (\<lambda>(k, w). dict_set k w) b a)) merged
     | _ \<Rightarrow> dict_set key v merged)"

definition merge_documents :: "json_dict list \<Rightarrow> json_dict res" where
  "merge_documents documents =
     (case documents of
        [] \<Rightarrow> Inl (V2Error ''yaml-empty'' ''$'')
      | d # ds \<Rightarrow> Inr (fold (fold merge_value) ds d))"

definition read_entry :: "(string \<Rightarrow> yaml_outcome) \<Rightarrow> string \<times> dir_entry \<Rightarrow> json_dict res" where
  "read_entry load = (\<lambda>(name, entry).
     case entry of
       FileText txt \<Rightarrow> and_then (parse_yaml_text load txt) (expect_obj AttributeError)
     | _ \<Rightarrow> Inl (V2Error ''io-read'' ''$''))"

definition parse_yaml :: "(string \<Rightarrow> yaml_outcome) \<Rightarrow> spec_source \<Rightarrow> json res" where
  "parse_yaml load source =
     (case source of
        SpecDir entries \<Rightarrow>
          and_then (yaml_files_in_dir entries) (\<lambda>files.
          if files = [] then Inl (V2Error ''yaml-empty'' ''$'')
          else and_then (map_res (read_entry load) files) (\<lambda>docs.
            and_then (merge_documents docs) (\<lambda>d. Inr (JObj d))))
      | SpecFile None \<Rightarrow> Inl (V2Error ''io-read'' ''$'')
      | SpecFile (Some txt) \<Rightarrow> parse_yaml_text load txt)"

section \<open>The schema and the platform inventory\<close>

text \<open>
  \<open>check_schema\<close> and \<open>iter_errors\<close> are those of the JSON Schema validator; an error is known by
  the absolute path of the offending part. A file that cannot be read or decoded is \<open>None\<close>.
\<close>

definition load_schema :: "(json \<Rightarrow> bool) \<Rightarrow> json option \<Rightarrow> json res" where
  "load_schema check_schema contents =
     (case contents of
        None \<Rightarrow> Inl (V2Error ''schema-read'' ''$'')
      | Some v \<Rightarrow>
          if \<not> is_obj v \<or> \<not> check_schema v then Inl (V2Error ''schema-invalid'' ''$'') else Inr v)"

fun part_key :: "path_part \<Rightarrow> string" where
  "part_key (PIndex i) = nat_digits i"
| "part_key (PKey k) = k"

definition validate_schema :: "(json \<Rightarrow> json \<Rightarrow> path_part list list) \<Rightarrow> json \<Rightarrow> json \<Rightarrow> unit res" where
  "validate_schema iter_errors document schema =
     (case sort_key (map part_key) (iter_errors schema document) of
        [] \<Rightarrow> Inr ()
      | first # _ \<Rightarrow> Inl (V2Error ''schema-validation'' (json_path first)))"

definition load_platform_capabilities :: "json option \<Rightarrow> string set res" where
  "load_platform_capabilities contents =
     (case contents of
        None \<Rightarrow> Inl (V2Error ''platform-read'' ''$'')
      | Some (JObj d) \<Rightarrow>
          (case dict_get d ''capabilities'' of
             Some (JObj caps) \<Rightarrow> Inr (set (map fst (filter (\<lambda>(k, v). v = JBool True) caps)))
           | Some (JList xs) \<Rightarrow>
               if list_all is_str xs then Inr (set (map py_str xs)) else Inl (V2Error ''platform-invalid'' ''$'')
           | _ \<Rightarrow> Inl (V2Error ''platform-invalid'' ''$''))
      | Some _ \<Rightarrow> Inl (V2Error ''platform-invalid'' ''$''))"

section \<open>What the unfolding accepts\<close>

text \<open>
  The specification: \<open>unfolds store h v j n\<close> says that \<open>v\<close> stands for the finite tree \<open>j\<close> with at
  most \<open>h\<close> nested containers and \<open>n\<close> nodes before keys that coincide are merged.
\<close>

inductive unfolds :: "yaml_store \<Rightarrow> nat \<Rightarrow> yaml_value \<Rightarrow> json \<Rightarrow> nat \<Rightarrow> bool" for store where
  scalar: "unfolds store h (YScalar s) (scalar_json s) 1"
| mapping: "store r = YMapping entries \<Longrightarrow>
    list_all2 (\<lambda>e t. unfolds store h (snd e) (fst t) (snd t)) entries ts \<Longrightarrow>
    unfolds store (Suc h) (YRef r) (JObj (fold (\<lambda>(e, t). put_key e (fst t)) (zip entries ts) []))
      (Suc (sum_list (map snd ts)))"
| sequence: "store r = YSequence elems \<Longrightarrow>
    list_all2 (\<lambda>v t. unfolds store h v (fst t) (snd t)) elems ts \<Longrightarrow>
    unfolds store (Suc h) (YRef r) (JList (map fst ts)) (Suc (sum_list (map snd ts)))"

inductive_cases unfolds_scalarE: "unfolds store h (YScalar s) j n"
inductive_cases unfolds_otherE: "unfolds store h (YOther t) j n"
inductive_cases unfolds_refE: "unfolds store h (YRef r) j n"

lemma collect_each_sound:
  assumes "collect_each g add xs out c = Inr (out', c')"
    and "\<And>x c j c'. x \<in> set xs \<Longrightarrow> g x c = Inr (j, c') \<Longrightarrow> \<exists>n. P x j n \<and> c' = c + n"
  shows "\<exists>ts. list_all2 (\<lambda>x t. P x (fst t) (snd t)) xs ts \<and>
    out' = fold (\<lambda>(x, t). add x (fst t)) (zip xs ts) out \<and> c' = c + sum_list (map snd ts)"
  using assms
proof (induction xs arbitrary: out c)
  case (Cons x xs)
  from Cons.prems(1) obtain j c1 where g: "g x c = Inr (j, c1)"
    and rest: "collect_each g add xs (add x j out) c1 = Inr (out', c')"
    by (auto simp: res_simps)
  from Cons.prems(2) [OF _ g] obtain n where n: "P x j n" "c1 = c + n" by auto
  from Cons.IH [OF rest Cons.prems(2)] obtain ts where ts:
    "list_all2 (\<lambda>x t. P x (fst t) (snd t)) xs ts"
    "out' = fold (\<lambda>(x, t). add x (fst t)) (zip xs ts) (add x j out)" "c' = c1 + sum_list (map snd ts)"
    by auto
  show ?case by (rule exI [of _ "(j, n) # ts"]) (simp add: ts n)
qed simp

lemma collect_each_complete:
  assumes "list_all2 (\<lambda>x t. \<forall>c. c + snd t \<le> m \<longrightarrow> g x c = Inr (fst t, c + snd t)) xs ts"
    and "c + sum_list (map snd ts) \<le> m"
  shows "collect_each g add xs out c =
    Inr (fold (\<lambda>(x, t). add x (fst t)) (zip xs ts) out, c + sum_list (map snd ts))"
  using assms
proof (induction xs ts arbitrary: out c rule: list_all2_induct)
  case (Cons x xs t ts)
  then have "g x c = Inr (fst t, c + snd t)" by (simp del: split_paired_All)
  with Cons show ?case by (simp add: add.assoc)
qed simp

lemma fold_put_last: "length xs = length ts \<Longrightarrow>
  fold (\<lambda>(x, t). put_last x (fst t)) (zip xs ts) out = out @ map fst ts"
  by (induction xs ts arbitrary: out rule: list_induct2) (simp_all add: put_last_def)

lemma count_node_Inr_iff: "count_node path c = Inr n \<longleftrightarrow> n = Suc c \<and> n \<le> MAX_YAML_NODES"
  by (auto simp: count_node_def)

lemma list_all2_enumerate:
  "list_all2 (\<lambda>e t. R (snd e) t) (enumerate i xs) ts \<longleftrightarrow> list_all2 R xs ts"
  by (simp add: list_all2_conv_all_nth nth_enumerate_eq)

text \<open>Soundness: what the code returns is an unfolding within the budgets.\<close>

lemma plain_bounded_sound:
  assumes "plain_bounded store v ancestors path depth count = Inr (j, c)"
  shows "\<exists>n. unfolds store (Suc MAX_YAML_DEPTH - depth) v j n \<and> c = count + n"
  using assms
proof (induction store v ancestors path depth count arbitrary: j c rule: plain_bounded.induct)
  case (1 store r ancestors path depth count)
  let ?h = "MAX_YAML_DEPTH - depth"
  from 1(3) have r: "r \<notin> ancestors" and depth: "\<not> MAX_YAML_DEPTH < depth"
    and n: "count_node path count = Inr (Suc count)"
    by (auto simp: res_simps count_node_Inr_iff split: if_splits)
  then have h: "Suc MAX_YAML_DEPTH - depth = Suc ?h" by simp
  show ?case
  proof (cases "store r")
    case (YMapping entries)
    from 1(3) r depth n YMapping obtain out where j: "j = JObj out" and
      run: "collect_each (\<lambda>e c. plain_bounded store (snd e) (insert r ancestors)
         (path @ [PKey (key_str (fst e))]) (Suc depth) c) put_key entries [] (Suc count) = Inr (out, c)"
      by (auto simp: res_simps)
    obtain ts where "list_all2 (\<lambda>e t. unfolds store ?h (snd e) (fst t) (snd t)) entries ts"
      "out = fold (\<lambda>(e, t). put_key e (fst t)) (zip entries ts) []" "c = Suc count + sum_list (map snd ts)"
      using collect_each_sound [OF run, of "\<lambda>e. unfolds store ?h (snd e)"] 1(1) [OF r depth n YMapping] by auto
    with unfolds.mapping [of store r, OF YMapping] show ?thesis unfolding h j by fastforce
  next
    case (YSequence elems)
    from 1(3) r depth n YSequence obtain out where j: "j = JList out" and
      run: "collect_each (\<lambda>e c. plain_bounded store (snd e) (insert r ancestors)
         (path @ [PIndex (fst e)]) (Suc depth) c) put_last (enumerate 0 elems) [] (Suc count) = Inr (out, c)"
      by (auto simp: res_simps)
    obtain ts where ts: "list_all2 (\<lambda>e t. unfolds store ?h (snd e) (fst t) (snd t)) (enumerate 0 elems) ts"
      "out = fold (\<lambda>(e, t). put_last e (fst t)) (zip (enumerate 0 elems) ts) []"
      "c = Suc count + sum_list (map snd ts)"
      using collect_each_sound [OF run, of "\<lambda>e. unfolds store ?h (snd e)"] 1(2) [OF r depth n YSequence] by auto
    then have "out = map fst ts" using fold_put_last [of "enumerate 0 elems" ts] list_all2_lengthD by fastforce
    moreover have "list_all2 (\<lambda>v t. unfolds store ?h v (fst t) (snd t)) elems ts"
      using ts(1) list_all2_enumerate [of "\<lambda>v t. unfolds store ?h v (fst t) (snd t)"] by simp
    ultimately show ?thesis using ts(3) unfolds.sequence [of store r, OF YSequence] unfolding h j by fastforce
  qed
qed (auto simp: res_simps count_node_Inr_iff intro: unfolds.scalar [simplified])

lemma collect_each_bound:
  assumes "collect_each g add xs out c = Inr (out', c')" and "c \<le> m"
    and "\<And>x c j c'. x \<in> set xs \<Longrightarrow> g x c = Inr (j, c') \<Longrightarrow> c' \<le> m"
  shows "c' \<le> (m :: nat)"
  using assms
proof (induction xs arbitrary: out c)
  case (Cons x xs)
  from Cons.prems(1) obtain j c1 where g: "g x c = Inr (j, c1)"
    and rest: "collect_each g add xs (add x j out) c1 = Inr (out', c')"
    by (auto simp: res_simps)
  have "c1 \<le> m" using Cons.prems(3) [OF _ g] by simp
  from Cons.IH [OF rest this] Cons.prems(3) show ?case by (meson list.set_intros(2))
qed simp

lemma plain_bounded_count:
  "plain_bounded store v ancestors path depth count = Inr (j, c) \<Longrightarrow> c \<le> MAX_YAML_NODES"
proof (induction store v ancestors path depth count arbitrary: j c rule: plain_bounded.induct)
  case (1 store r ancestors path depth count)
  from 1(3) show ?case
    by (auto simp: res_simps count_node_Inr_iff split: if_splits yaml_cell.splits
        elim!: collect_each_bound dest: 1(1) [rotated -1] 1(2) [rotated -1])
qed (auto simp: res_simps count_node_Inr_iff)

text \<open>Completeness: an unfolding is unique, and a container is larger than its parts, so that no
  container of a finite tree is its own ancestor.\<close>

lemma unfolds_list_unique:
  assumes "list_all2 (\<lambda>x t. P x t \<and> (\<forall>t'. P' x t' \<longrightarrow> t = t')) xs ts" and "list_all2 P' xs ts'"
  shows "ts = ts'"
  using assms by (auto simp: list_all2_conv_all_nth intro: nth_equalityI)

lemma unfolds_unique:
  "unfolds store h v j n \<Longrightarrow> unfolds store h' v j' n' \<Longrightarrow> j = j' \<and> n = n'"
proof (induction arbitrary: h' j' n' rule: unfolds.induct)
  case (scalar h s)
  then show ?case by (auto elim: unfolds_scalarE)
next
  case (mapping r entries h ts)
  from mapping(3) mapping(1) obtain h2 ts' where ts': "list_all2 (\<lambda>e t. unfolds store h2 (snd e) (fst t) (snd t)) entries ts'"
    "j' = JObj (fold (\<lambda>(e, t). put_key e (fst t)) (zip entries ts') [])" "n' = Suc (sum_list (map snd ts'))"
    by (auto elim: unfolds_refE)
  have "ts = ts'"
    by (rule unfolds_list_unique [OF list_all2_mono [OF mapping(2)] ts'(1)]) (auto simp: prod_eq_iff)
  with ts' show ?case by simp
next
  case (sequence r elems h ts)
  from sequence(3) sequence(1) obtain h2 ts' where ts': "list_all2 (\<lambda>v t. unfolds store h2 v (fst t) (snd t)) elems ts'"
    "j' = JList (map fst ts')" "n' = Suc (sum_list (map snd ts'))"
    by (auto elim: unfolds_refE)
  have "ts = ts'"
    by (rule unfolds_list_unique [OF list_all2_mono [OF sequence(2)] ts'(1)]) (auto simp: prod_eq_iff)
  with ts' show ?case by simp
qed

lemma unfolds_parts_smaller: "t \<in> set ts \<Longrightarrow> snd t < Suc (sum_list (map snd ts))" for ts :: "('a \<times> nat) list"
  by (induction ts) auto

text \<open>What the loops over the parts of a container do when every part unfolds.\<close>

lemma parts_loop:
  assumes "list_all2 (\<lambda>x t. \<forall>ancestors path depth count. h \<le> Suc MAX_YAML_DEPTH - depth \<longrightarrow>
        (\<forall>q \<in> ancestors. \<exists>h' j' n'. unfolds store h' (YRef q) j' n' \<and> snd t < n') \<longrightarrow>
        count + snd t \<le> MAX_YAML_NODES \<longrightarrow>
        plain_bounded store (f x) ancestors path depth count = Inr (fst t, count + snd t)) xs ts"
    and "h \<le> Suc MAX_YAML_DEPTH - depth"
    and "\<And>q. q \<in> ancestors \<Longrightarrow> \<exists>h' j' n'. unfolds store h' (YRef q) j' n' \<and> Suc (sum_list (map snd ts)) \<le> n'"
    and "count + sum_list (map snd ts) \<le> MAX_YAML_NODES"
  shows "collect_each (\<lambda>x c. plain_bounded store (f x) ancestors (path x) depth c) add xs out count =
    Inr (fold (\<lambda>(x, t). add x (fst t)) (zip xs ts) out, count + sum_list (map snd ts))"
proof (rule collect_each_complete [OF _ assms(4)], rule list.rel_mono_strong [OF assms(1)], intro allI impI)
  fix x t c assume t: "t \<in> set ts" and c: "c + snd t \<le> MAX_YAML_NODES"
    and IH: "\<forall>ancestors path depth count. h \<le> Suc MAX_YAML_DEPTH - depth \<longrightarrow>
        (\<forall>q \<in> ancestors. \<exists>h' j' n'. unfolds store h' (YRef q) j' n' \<and> snd t < n') \<longrightarrow>
        count + snd t \<le> MAX_YAML_NODES \<longrightarrow>
        plain_bounded store (f x) ancestors path depth count = Inr (fst t, count + snd t)"
  have "\<forall>q \<in> ancestors. \<exists>h' j' n'. unfolds store h' (YRef q) j' n' \<and> snd t < n'"
    using assms(3) unfolds_parts_smaller [OF t] by (meson less_le_trans)
  with IH c assms(2) show "plain_bounded store (f x) ancestors (path x) depth c = Inr (fst t, c + snd t)" by blast
qed

lemma plain_bounded_complete:
  assumes "unfolds store h v j n" and "h \<le> Suc MAX_YAML_DEPTH - depth"
    and "\<forall>q \<in> ancestors. \<exists>h' j' n'. unfolds store h' (YRef q) j' n' \<and> n < n'"
    and "count + n \<le> MAX_YAML_NODES"
  shows "plain_bounded store v ancestors path depth count = Inr (j, count + n)"
  using assms
proof (induction arbitrary: ancestors path depth count rule: unfolds.induct)
  case (scalar h s)
  then show ?case by (simp add: count_node_def)
next
  case (mapping r entries h ts)
  let ?n = "Suc (sum_list (map snd ts))"
  have me: "unfolds store (Suc h) (YRef r) (JObj (fold (\<lambda>(e, t). put_key e (fst t)) (zip entries ts) [])) ?n"
    by (rule unfolds.mapping [of store r, OF mapping(1)], rule list_all2_mono [OF mapping(2)]) simp
  have r: "r \<notin> ancestors" using mapping(4) unfolds_unique [OF me] by fastforce
  have "\<exists>h' j' n'. unfolds store h' (YRef q) j' n' \<and> ?n \<le> n'" if "q \<in> insert r ancestors" for q
    using that me mapping(4) by (metis insertE less_imp_le order_refl)
  note larger = this
  have run: "collect_each (\<lambda>e c. plain_bounded store (snd e) (insert r ancestors)
       (path @ [PKey (key_str (fst e))]) (Suc depth) c) put_key entries [] (Suc count) =
     Inr (fold (\<lambda>(e, t). put_key e (fst t)) (zip entries ts) [], Suc count + sum_list (map snd ts))"
    using mapping(3,5) by (intro parts_loop [OF list_all2_mono [OF mapping(2)] _ larger]) auto
  have "\<not> MAX_YAML_DEPTH < depth" "count_node path count = Inr (Suc count)"
    using mapping(3,5) by (auto simp: count_node_def)
  then show ?case using r by (simp add: mapping(1) run)
next
  case (sequence r elems h ts)
  let ?n = "Suc (sum_list (map snd ts))"
  have me: "unfolds store (Suc h) (YRef r) (JList (map fst ts)) ?n"
    by (rule unfolds.sequence [of store r, OF sequence(1)], rule list_all2_mono [OF sequence(2)]) simp
  have r: "r \<notin> ancestors" using sequence(4) unfolds_unique [OF me] by fastforce
  have "\<exists>h' j' n'. unfolds store h' (YRef q) j' n' \<and> ?n \<le> n'" if "q \<in> insert r ancestors" for q
    using that me sequence(4) by (metis insertE less_imp_le order_refl)
  note larger = this
  have each: "list_all2 (\<lambda>e t. unfolds store h (snd e) (fst t) (snd t) \<and> (\<forall>ancestors path depth count.
        h \<le> Suc MAX_YAML_DEPTH - depth \<longrightarrow>
        (\<forall>q \<in> ancestors. \<exists>h' j' n'. unfolds store h' (YRef q) j' n' \<and> snd t < n') \<longrightarrow>
        count + snd t \<le> MAX_YAML_NODES \<longrightarrow>
        plain_bounded store (snd e) ancestors path depth count = Inr (fst t, count + snd t))) (enumerate 0 elems) ts"
    using sequence(2) by (simp add: list_all2_conv_all_nth nth_enumerate_eq)
  have run: "collect_each (\<lambda>e c. plain_bounded store (snd e) (insert r ancestors)
       (path @ [PIndex (fst e)]) (Suc depth) c) put_last (enumerate 0 elems) [] (Suc count) =
     Inr (fold (\<lambda>(e, t). put_last e (fst t)) (zip (enumerate 0 elems) ts) [], Suc count + sum_list (map snd ts))"
    using sequence(3,5) by (intro parts_loop [OF list_all2_mono [OF each] _ larger]) auto
  have "\<not> MAX_YAML_DEPTH < depth" "count_node path count = Inr (Suc count)"
    using sequence(3,5) by (auto simp: count_node_def)
  moreover have "length elems = length ts" using sequence(2) by (rule list_all2_lengthD)
  ultimately show ?case using r by (simp add: sequence(1) run fold_put_last)
qed

text \<open>
  C34: The unfolding of the parsed object graph returns a tree exactly when the value stands for a
  finite tree with at most 201 nested containers and 200000 nodes: cycles, and documents whose
  aliases expand beyond the budgets, are the only JSON-like inputs refused.
\<close>

theorem plain_accepts_iff:
  "plain store v = Inr j \<longleftrightarrow> (\<exists>n. unfolds store (Suc MAX_YAML_DEPTH) v j n \<and> n \<le> MAX_YAML_NODES)"
proof
  assume "plain store v = Inr j"
  then obtain c where run: "plain_bounded store v {} [] 0 0 = Inr (j, c)" by (auto simp: plain_def res_simps)
  from plain_bounded_sound [OF run] plain_bounded_count [OF run]
  show "\<exists>n. unfolds store (Suc MAX_YAML_DEPTH) v j n \<and> n \<le> MAX_YAML_NODES" by auto
next
  assume "\<exists>n. unfolds store (Suc MAX_YAML_DEPTH) v j n \<and> n \<le> MAX_YAML_NODES"
  then obtain n where "unfolds store (Suc MAX_YAML_DEPTH) v j n" "n \<le> MAX_YAML_NODES" by blast
  then have "plain_bounded store v {} [] 0 0 = Inr (j, 0 + n)" by (intro plain_bounded_complete) auto
  then show "plain store v = Inr j" by (simp add: plain_def)
qed

section \<open>Merging documents\<close>

text \<open>\<open>d[k][k']\<close> where both levels are present.\<close>

definition lookup2 :: "json_dict \<Rightarrow> string \<Rightarrow> string \<Rightarrow> json option" where
  "lookup2 d k k' = (case dict_get d k of Some (JObj m) \<Rightarrow> dict_get m k' | _ \<Rightarrow> None)"

definition table_at :: "string \<Rightarrow> json_dict \<Rightarrow> bool" where
  "table_at k d \<longleftrightarrow> distinct (map fst d) \<and>
     (case dict_get d k of None \<Rightarrow> True | Some (JObj m) \<Rightarrow> distinct (map fst m) | Some _ \<Rightarrow> False)"

definition first_some :: "'a option \<Rightarrow> 'a option \<Rightarrow> 'a option" where
  "first_some a b = (case a of Some v \<Rightarrow> Some v | None \<Rightarrow> b)"

lemma dict_get_fold_set:
  "distinct (map fst b) \<Longrightarrow> dict_get (fold (\<lambda>(k, w). dict_set k w) b a) k = first_some (dict_get b k) (dict_get a k)"
proof (induction b arbitrary: a)
  case (Cons p b)
  obtain key w where p: "p = (key, w)" by (cases p)
  with Cons.prems have "dict_get b key = None" by (simp add: map_of_eq_None_iff)
  with Cons p show ?case by (auto simp: dict_simps first_some_def simp del: map_of_eq_Some_iff split: option.split)
qed (simp add: first_some_def)

lemma distinct_fold_set: "distinct (map fst a) \<Longrightarrow> distinct (map fst (fold (\<lambda>(k, w). dict_set k w) b a))"
  by (induction b arbitrary: a) (auto simp: distinct_update)

lemma merge_value_get:
  "dict_get (merge_value (key, v) m) k =
     (if k = key then (case (dict_get m key, v) of
        (Some (JObj a), JObj b) \<Rightarrow> Some (JObj (fold (\<lambda>(k, w). dict_set k w) b a)) | _ \<Rightarrow> Some v)
      else dict_get m k)"
  by (auto simp: merge_value_def dict_simps split: option.splits json.splits)

lemma merge_value_distinct: "distinct (map fst m) \<Longrightarrow> distinct (map fst (merge_value e m))"
  by (cases e) (auto simp: merge_value_def distinct_update split: option.splits json.splits)

text \<open>Merging one document: the entries of the later document win, none is lost.\<close>

lemma fold_merge_value_other:
  "k \<notin> fst ` set d \<Longrightarrow> dict_get (fold merge_value d m) k = dict_get m k"
  by (induction d arbitrary: m) (auto simp: merge_value_get)

lemma fold_merge_value_get:
  assumes "distinct (map fst d)" and "dict_get d k = Some v"
  shows "dict_get (fold merge_value d m) k = dict_get (merge_value (k, v) m) k"
  using assms
proof (induction d arbitrary: m)
  case (Cons e d)
  show ?case
  proof (cases "fst e = k")
    case True
    with Cons.prems have "k \<notin> fst ` set d" "e = (k, v)" by (cases e; auto)+
    then show ?thesis by (simp add: fold_merge_value_other)
  next
    case False
    with Cons.prems have "dict_get (fold merge_value d (merge_value e m)) k = dict_get (merge_value (k, v) (merge_value e m)) k"
      by (intro Cons.IH) (cases e; auto)+
    with False show ?thesis by (cases e) (simp add: merge_value_get)
  qed
qed simp

lemma fold_merge_value_distinct: "distinct (map fst m) \<Longrightarrow> distinct (map fst (fold merge_value d m))"
  by (induction d arbitrary: m) (auto simp: merge_value_distinct)

lemma merge_one:
  assumes "table_at k m" and "table_at k d"
  shows "table_at k (fold merge_value d m) \<and>
    lookup2 (fold merge_value d m) k k' = first_some (lookup2 d k k') (lookup2 m k k')"
proof (cases "dict_get d k")
  case None
  then have "k \<notin> fst ` set d" by (simp add: map_of_eq_None_iff)
  with None assms show ?thesis
    by (simp add: table_at_def lookup2_def first_some_def fold_merge_value_other fold_merge_value_distinct)
next
  case (Some v)
  with assms(2) obtain b where v: "v = JObj b" "distinct (map fst b)" "distinct (map fst d)"
    by (auto simp: table_at_def split: json.splits)
  note get = fold_merge_value_get [OF v(3) Some]
  from assms(1) v show ?thesis unfolding table_at_def lookup2_def get
    by (auto simp: merge_value_get Some dict_get_fold_set distinct_fold_set fold_merge_value_distinct
        first_some_def simp del: map_of_eq_Some_iff split: option.splits json.splits)
qed

lemma merge_all:
  assumes "table_at k m" and "list_all (table_at k) ds"
  shows "lookup2 (fold (fold merge_value) ds m) k k' = fold (\<lambda>d. first_some (lookup2 d k k')) ds (lookup2 m k k')"
  using assms by (induction ds arbitrary: m) (simp_all add: merge_one)

text \<open>
  Merging the files of a desired-state directory loses no table entry and lets the last file
  that has an entry decide: for every table (a top-level key whose value is a mapping in every
  file that has it), an entry of the merged document is the entry of the last file that has it.
\<close>

theorem merge_documents_last_wins:
  assumes "merge_documents ds = Inr m" and "list_all (table_at k) ds"
  shows "lookup2 m k k' = fold (\<lambda>d. first_some (lookup2 d k k')) ds None"
proof -
  from assms obtain d es where ds: "ds = d # es" "m = fold (fold merge_value) es d" "table_at k d" "list_all (table_at k) es"
    by (cases ds) (auto simp: merge_documents_def)
  with merge_all [OF ds(3,4)] show ?thesis by (simp add: first_some_def split: option.splits)
qed

theorem merge_documents_last_wins_witness:
  "lookup2 (fold merge_value [(''services'', JObj [(''a'', JInt 2), (''b'', JInt 3)])]
      [(''services'', JObj [(''a'', JInt 1), (''c'', JInt 4)])]) ''services'' ''a'' = Some (JInt 2)"
proof -
  let ?ds = "[[(''services'', JObj [(''a'', JInt 1), (''c'', JInt 4)])],
    [(''services'', JObj [(''a'', JInt 2), (''b'', JInt 3)])]]"
  have "merge_documents ?ds = Inr (fold merge_value (?ds ! 1) (?ds ! 0))" by (simp add: merge_documents_def)
  moreover have "list_all (table_at ''services'') ?ds" by (simp add: table_at_def)
  ultimately have "lookup2 (fold merge_value (?ds ! 1) (?ds ! 0)) ''services'' ''a'' =
      fold (\<lambda>d. first_some (lookup2 d ''services'' ''a'')) ?ds None"
    by (rule merge_documents_last_wins)
  then show ?thesis by (simp add: lookup2_def first_some_def)
qed

end
