(* ===== verification/Common_Policy.thy ===== *)
theory Common_Policy
  imports V2_Routes
begin

text \<open>
  The shared identity policy (\<open>services/nas_common.py\<close>): the bounded capture of a child's
  output, the parser of \<open>systemctl show\<close>, the parser of the proxy's group header, the names of
  capability groups, and the two readers of the compiled authority, the strict loader and the
  fail-closed resolver. The values that the module reads from the environment are a record.
  \<open>loads\<close> stands for \<open>json.loads\<close>, \<^const>\<open>None\<close> being a decoding error.
\<close>

section \<open>Configuration\<close>

record identity_config =
  ADMIN_GROUP :: string
  USER_GROUP :: string
  GUEST_GROUP :: string
  DISABLED_GROUP :: string
  MAX_GROUP_HEADER_BYTES :: nat
  MAX_GROUPS :: nat
  MAX_GROUP_NAME_LENGTH :: nat

definition RESERVED_GROUPS :: "identity_config \<Rightarrow> string set" where
  "RESERVED_GROUPS cfg = {ADMIN_GROUP cfg, USER_GROUP cfg, GUEST_GROUP cfg, DISABLED_GROUP cfg}"

text \<open>The module's defaults; the three limits have a floor whatever the environment says.\<close>

definition configured_limits :: "int \<Rightarrow> int \<Rightarrow> int \<Rightarrow> identity_config" where
  "configured_limits header_bytes groups name_length =
     \<lparr>ADMIN_GROUP = ''nas_admin'', USER_GROUP = ''nas_users'', GUEST_GROUP = ''nas_guests'',
      DISABLED_GROUP = ''nas_disabled'', MAX_GROUP_HEADER_BYTES = nat (max 256 header_bytes),
      MAX_GROUPS = nat (max 8 groups), MAX_GROUP_NAME_LENGTH = nat (max 16 name_length)\<rparr>"

definition default_config :: identity_config where
  "default_config = configured_limits 8192 256 256"

section \<open>Commands\<close>

record command_result =
  returncode :: int
  stdout :: string
  stderr :: string

text \<open>
  One reader thread: the blocks that \<open>stream.read\<close> returns, the first empty one being the end
  of the stream, go to a buffer of at most \<open>limit\<close> bytes.
\<close>

fun drain :: "nat \<Rightarrow> string list \<Rightarrow> string \<times> bool \<Rightarrow> string \<times> bool" where
  "drain limit [] buf = buf"
| "drain limit (block # blocks) (destination, truncated) =
     (if block = [] then (destination, truncated)
      else let remaining = limit - length destination
        in drain limit blocks
             (if remaining \<noteq> 0 then destination @ take remaining block else destination,
              truncated \<or> length block > remaining))"

definition replacement :: string where
  "replacement = [CHR 0xEF, CHR 0xBF, CHR 0xBD]"

text \<open>The bytes that may follow a three- or four-byte lead.\<close>

definition second_ok :: "nat \<Rightarrow> char \<Rightarrow> bool" where
  "second_ok n a \<longleftrightarrow> is_cont a \<and> (n = 224 \<longrightarrow> 160 \<le> code a) \<and> (n = 237 \<longrightarrow> code a < 160)
     \<and> (n = 240 \<longrightarrow> 144 \<le> code a) \<and> (n = 244 \<longrightarrow> code a < 144)"

text \<open>
  One step of the decoder at a non-empty text: how many bytes it takes, and whether they are
  one encoded character or a maximal ill-formed subsequence.
\<close>

definition utf8_step :: "char \<Rightarrow> string \<Rightarrow> nat \<times> bool" where
  "utf8_step c cs =
     (let n = code c
      in if n < 128 then (1, True)
         else if n < 194 \<or> 244 < n then (1, False)
         else (case cs of
                 [] \<Rightarrow> (1, False)
               | a # r \<Rightarrow>
                   if \<not> second_ok n a then (1, False)
                   else if n < 224 then (2, True)
                   else (case r of
                           [] \<Rightarrow> (2, False)
                         | b # r' \<Rightarrow>
                             if \<not> is_cont b then (2, False)
                             else if n < 240 then (3, True)
                             else (case r' of
                                     [] \<Rightarrow> (3, False)
                                   | d # _ \<Rightarrow> if is_cont d then (4, True) else (3, False)))))"

lemma utf8_step_pos [simp]: "0 < fst (utf8_step c cs)"
  by (auto simp: utf8_step_def Let_def split: list.splits)

text \<open>
  \<open>decode("utf-8", errors="replace")\<close>: each maximal ill-formed subsequence becomes U+FFFD.
\<close>

function decode_replace :: "string \<Rightarrow> string" where
  "decode_replace [] = []"
| "decode_replace (c # cs) =
     (let (n, ok) = utf8_step c cs
      in (if ok then take n (c # cs) else replacement) @ decode_replace (drop n (c # cs)))"
  by pat_completeness auto
termination
proof (relation "measure length", goal_cases)
  case (2 c cs x n ok)
  have "0 < n" using utf8_step_pos [of c cs] 2 by (metis fst_conv)
  then show ?case by simp
qed simp

declare decode_replace.simps(2) [simp del]

definition decoded :: "string \<times> bool \<Rightarrow> string" where
  "decoded buf = decode_replace (fst buf) @ (if snd buf then CHR 0x0A # ''[output truncated]'' else [])"

text \<open>How the child ended: it was killed after the timeout, or it exited.\<close>

datatype child_end = TimedOut | Exited int

text \<open>
  The result of \<open>run_command\<close> from what the child wrote and how it ended. \<open>protected\<close> says
  that standard input was supplied.
\<close>

definition run_command_result ::
  "int \<Rightarrow> bool \<Rightarrow> child_end \<Rightarrow> string list \<Rightarrow> string list \<Rightarrow> command_result" where
  "run_command_result max_output_bytes protected ending out_blocks err_blocks =
     (let limit = nat (max 0 max_output_bytes);
          out = drain limit out_blocks ([], False);
          err = drain limit err_blocks ([], False)
      in case ending of
           TimedOut \<Rightarrow>
             if protected
             then \<lparr>returncode = 124, stdout = [], stderr = ''Command timed out after receiving protected standard input''\<rparr>
             else \<lparr>returncode = 124, stdout = decoded out, stderr = ''Command timed out''\<rparr>
         | Exited rc \<Rightarrow>
             if rc \<noteq> 0 \<and> protected
             then \<lparr>returncode = rc, stdout = [], stderr = ''Command failed after receiving protected standard input''\<rparr>
             else \<lparr>returncode = rc, stdout = decoded out, stderr = decoded err\<rparr>)"

section \<open>Parsing systemctl show\<close>

text \<open>\<open>\r?\n\<close>.\<close>

fun newline :: "string \<Rightarrow> string option" where
  "newline (c # cs) =
     (if code c = 10 then Some cs
      else if code c = 13 then (case cs of d # ds \<Rightarrow> if code d = 10 then Some ds else None | [] \<Rightarrow> None)
      else None)"
| "newline [] = None"

lemma newline_shorter [dest]: "newline s = Some r \<Longrightarrow> length r < length s"
  by (cases s) (auto split: if_splits list.splits)

function newlines :: "string \<Rightarrow> string" where
  "newlines s = (case newline s of None \<Rightarrow> s | Some r \<Rightarrow> newlines r)"
  by pat_completeness auto
termination
  by (relation "measure length") auto

declare newlines.simps [simp del]

lemma newlines_length: "length (newlines s) \<le> length s"
proof (induction s rule: newlines.induct)
  case (1 s)
  show ?case
  proof (cases "newline s")
    case (Some r)
    with 1 [OF Some] newline_shorter [OF Some] show ?thesis by (simp add: newlines.simps [of s])
  qed (simp add: newlines.simps [of s])
qed

text \<open>A blank-line separator at the start of the text.\<close>

definition block_break :: "string \<Rightarrow> string option" where
  "block_break s =
     (case newline s of
        None \<Rightarrow> None
      | Some r \<Rightarrow>
          (case newline (dropWhile (\<lambda>c. code c = 32 \<or> code c = 9) r) of
             None \<Rightarrow> None
           | Some q \<Rightarrow> Some (newlines q)))"

lemma block_break_shorter [dest]:
  assumes "block_break s = Some r"
  shows "length r < length s"
proof -
  obtain p q where p: "newline s = Some p" "newline (dropWhile (\<lambda>c. code c = 32 \<or> code c = 9) p) = Some q"
    and r: "r = newlines q"
    using assms by (auto simp: block_break_def split: option.splits)
  have "length q < length (dropWhile (\<lambda>c. code c = 32 \<or> code c = 9) p)" using p(2) by auto
  also have "\<dots> \<le> length p" by (rule length_dropWhile_le)
  also have "\<dots> < length s" using p(1) by auto
  finally show ?thesis using newlines_length [of q] r by simp
qed

text \<open>\<open>re.split\<close> at the separators: the first block and the rest.\<close>

function split_blocks :: "string \<Rightarrow> string list" where
  "split_blocks s =
     (case block_break s of
        Some r \<Rightarrow> [] # split_blocks r
      | None \<Rightarrow>
          (case s of
             [] \<Rightarrow> [[]]
           | c # cs \<Rightarrow> (case split_blocks cs of [] \<Rightarrow> [[c]] | b # bs \<Rightarrow> (c # b) # bs)))"
  by pat_completeness auto
termination
  by (relation "measure length") auto

declare split_blocks.simps [simp del]

text \<open>
  \<open>str.splitlines\<close>: the ASCII line boundaries, U+0085, U+2028 and U+2029; a final boundary
  does not open another line.
\<close>

fun line_break :: "string \<Rightarrow> string option" where
  "line_break [] = None"
| "line_break (c # cs) =
     (let n = code c
      in if n = 13 then Some (case cs of d # ds \<Rightarrow> if code d = 10 then ds else cs | [] \<Rightarrow> cs)
         else if n \<in> {10, 11, 12, 28, 29, 30} then Some cs
         else (case cs of
                 a # r \<Rightarrow>
                   if n = 194 \<and> code a = 133 then Some r
                   else (case r of
                           b # r' \<Rightarrow> if n = 226 \<and> code a = 128 \<and> code b \<in> {168, 169} then Some r' else None
                         | [] \<Rightarrow> None)
               | [] \<Rightarrow> None))"

lemma line_break_shorter [dest]: "line_break s = Some r \<Longrightarrow> length r < length s"
  by (cases s) (auto simp: Let_def split: if_splits list.splits)

declare line_break.simps [simp del]

function splitlines :: "string \<Rightarrow> string list" where
  "splitlines s =
     (case s of
        [] \<Rightarrow> []
      | c # cs \<Rightarrow>
          (case line_break s of
             Some r \<Rightarrow> [] # splitlines r
           | None \<Rightarrow> (case splitlines cs of [] \<Rightarrow> [[c]] | l # ls \<Rightarrow> (c # l) # ls)))"
  by pat_completeness auto
termination
  by (relation "measure length") auto

declare splitlines.simps [simp del]

definition show_line :: "string \<Rightarrow> (string, string) dict \<Rightarrow> (string, string) dict" where
  "show_line line values =
     (let key = takeWhile (\<lambda>c. c \<noteq> CHR ''='') line
      in case drop (length key) line of
           [] \<Rightarrow> values
         | _ # v \<Rightarrow> dict_set key v values)"

definition show_block ::
  "string \<Rightarrow> (string, (string, string) dict) dict \<Rightarrow> (string, (string, string) dict) dict" where
  "show_block block records =
     (let values = fold show_line (splitlines block) []
      in case dict_get values ''Id'' of
           Some unit \<Rightarrow> if unit \<noteq> [] then dict_set unit values records else records
         | None \<Rightarrow> records)"

definition parse_systemd_show :: "string \<Rightarrow> (string, (string, string) dict) dict" where
  "parse_systemd_show output =
     (let stripped = py_strip output
      in if stripped = [] then [] else fold show_block (split_blocks stripped) [])"

section \<open>Group headers\<close>

definition split_groups :: "identity_config \<Rightarrow> string \<Rightarrow> string set" where
  "split_groups cfg raw =
     (if list_ex is_control raw then {}
      else if length raw > MAX_GROUP_HEADER_BYTES cfg then {}
      else let names = filter (\<lambda>name. name \<noteq> []) (map py_strip (py_split (CHR '','') raw))
        in if length names > MAX_GROUPS cfg then {}
           else if list_ex (\<lambda>name. py_len name > MAX_GROUP_NAME_LENGTH cfg) names then {}
           else set names)"

definition account_enabled :: "identity_config \<Rightarrow> string set \<Rightarrow> bool" where
  "account_enabled cfg groups \<longleftrightarrow> DISABLED_GROUP cfg \<notin> groups"

definition application_id :: "string \<Rightarrow> bool" where
  "application_id s =
     (case s of
        c # cs \<Rightarrow> is_lower c \<and> length cs \<le> 63 \<and> list_all (\<lambda>d. is_lower d \<or> is_digit d \<or> d = CHR ''-'') cs
      | [] \<Rightarrow> False)"

definition capability_id :: "string \<Rightarrow> bool" where
  "capability_id s =
     (case s of
        c # cs \<Rightarrow> is_lower c \<and> length cs \<le> 127
          \<and> list_all (\<lambda>d. is_lower d \<or> is_digit d \<or> d = CHR ''.'' \<or> d = CHR ''-'') cs
      | [] \<Rightarrow> False)"

definition application_capability_group :: "string \<Rightarrow> string \<Rightarrow> string res" where
  "application_capability_group service_id capability =
     (if \<not> application_id service_id then Inl (ValueError ''service-id'')
      else if \<not> capability_id capability then Inl (ValueError ''capability-id'')
      else Inr (''application.'' @ service_id @ ''.'' @ capability))"

definition application_capability_allowed ::
  "identity_config \<Rightarrow> string set \<Rightarrow> string \<Rightarrow> string \<Rightarrow> bool \<Rightarrow> bool res" where
  "application_capability_allowed cfg groups service_id capability administrator_bypass =
     (if \<not> account_enabled cfg groups then Inr False
      else if administrator_bypass \<and> ADMIN_GROUP cfg \<in> groups then Inr True
      else and_then (application_capability_group service_id capability) (\<lambda>g. Inr (g \<in> groups)))"

section \<open>The compiled authority\<close>

text \<open>The reason a compiled value is unusable, \<^const>\<open>None\<close> when it is the canonical group.\<close>

definition capability_value_error :: "string \<Rightarrow> string \<Rightarrow> json \<Rightarrow> string option res" where
  "capability_value_error service_id cap_id v =
     (case v of
        JStr s \<Rightarrow>
          if s = [] then Inr (Some ''non-empty string'')
          else and_then (application_capability_group service_id cap_id) (\<lambda>g.
            Inr (if s \<noteq> g then Some ''canonical group'' else None))
      | _ \<Rightarrow> Inr (Some ''non-empty string''))"

text \<open>\<open>v in {2, 3}\<close>.\<close>

definition supported_schema :: "json \<Rightarrow> bool res" where
  "supported_schema v = (if is_list v \<or> is_obj v then Inl TypeError else Inr (eq_int v 2 \<or> eq_int v 3))"

definition check_declaration :: "string \<times> json \<Rightarrow> unit res" where
  "check_declaration = (\<lambda>(svc_id, declaration).
     if \<not> is_obj declaration \<or> \<not> truthy declaration then Inl (ValueError ''services entry'') else Inr ())"

definition check_authorization :: "json_dict \<Rightarrow> string \<times> json \<Rightarrow> unit res" where
  "check_authorization services = (\<lambda>(svc_id, entry).
     if \<not> is_obj entry then Inl (ValueError ''authorization entry'')
     else if dict_get services svc_id = None then Inl (ValueError ''no services declaration'')
     else and_then (get entry ''capabilities'') (\<lambda>caps.
       case caps of
         JObj cs \<Rightarrow> check_all cs (\<lambda>(cap_id, v).
           and_then (capability_value_error svc_id cap_id v) (\<lambda>problem.
             case problem of None \<Rightarrow> Inr () | Some m \<Rightarrow> Inl (ValueError m)))
       | JNull \<Rightarrow> Inr ()
       | _ \<Rightarrow> Inl (ValueError ''capabilities must be object'')))"

definition validate_authority :: "json \<Rightarrow> json res" where
  "validate_authority data =
     (if \<not> is_obj data then Inl (ValueError ''top-level'') else
      and_then (get data ''schemaVersion'') (\<lambda>version.
      and_then (supported_schema version) (\<lambda>supported.
      if \<not> supported then Inl (ValueError ''schemaVersion'') else
      and_then (get data ''derived'') (\<lambda>derived.
      if \<not> is_obj derived then Inl (ValueError ''derived'') else
      and_then (get derived ''authorization'') (\<lambda>authz.
      if \<not> is_obj authz then Inl (ValueError ''derived.authorization'') else
      and_then (get data ''services'') (\<lambda>services.
      if \<not> is_obj services then Inl (ValueError ''services'') else
      and_then (dict_items services) (\<lambda>svcs.
      and_then (check_all svcs check_declaration) (\<lambda>_.
      and_then (dict_items authz) (\<lambda>entries.
      and_then (check_all entries (check_authorization svcs)) (\<lambda>_.
      Inr data))))))))))"

text \<open>What reading the file gave: its text, a missing file, or another operating system error.\<close>

datatype read_outcome = ReadText string | ReadMissing | ReadFailed

definition load_effective_authority :: "(string \<Rightarrow> json option) \<Rightarrow> read_outcome \<Rightarrow> json res" where
  "load_effective_authority loads file =
     (case file of
        ReadText raw \<Rightarrow> (case loads raw of Some data \<Rightarrow> validate_authority data | None \<Rightarrow> Inl JSONDecodeError)
      | ReadMissing \<Rightarrow> Inl FileNotFoundError
      | ReadFailed \<Rightarrow> Inl OSError)"

text \<open>\<open>x.get(k) if isinstance(x, dict) else None\<close>.\<close>

definition soft_get :: "json \<Rightarrow> string \<Rightarrow> json" where
  "soft_get v k = (case v of JObj d \<Rightarrow> (case dict_get d k of Some w \<Rightarrow> w | None \<Rightarrow> JNull) | _ \<Rightarrow> JNull)"

definition declared_item_ok :: "json \<Rightarrow> bool" where
  "declared_item_ok x = (case soft_get x ''id'' of JStr s \<Rightarrow> is_obj x \<and> capability_id s | _ \<Rightarrow> False)"

definition resolve_in_authority :: "string \<Rightarrow> string \<Rightarrow> json \<Rightarrow> (string \<times> string) option res" where
  "resolve_in_authority service capability data =
     (if \<not> is_obj data then Inl (ValueError ''top-level'')
      else let authorization = soft_get (soft_get data ''derived'') ''authorization'' in
      if \<not> is_obj authorization then Inl (ValueError ''derived.authorization'') else
      and_then (get_or data ''services'' JEmpty) (\<lambda>services.
      and_then (get services service) (\<lambda>declaration.
      case soft_get (soft_get declaration ''authorization'') ''capabilities'' of
        JList declared_caps \<Rightarrow>
          if \<not> list_all declared_item_ok declared_caps then Inr None
          else if capability \<noteq> ''access'' \<and> \<not> list_ex (\<lambda>x. soft_get x ''id'' = JStr capability) declared_caps then Inr None
          else (case soft_get (soft_get authorization service) ''capabilities'' of
                  JObj caps \<Rightarrow>
                    (case dict_get caps capability of
                       None \<Rightarrow> Inr None
                     | Some v \<Rightarrow> and_then (capability_value_error service capability v) (\<lambda>problem.
                         Inr (if problem = None then Some (service, capability) else None)))
                | _ \<Rightarrow> Inr None)
      | _ \<Rightarrow> Inr None)))"

text \<open>
  \<open>dangling\<close> says that the path or a parent is a symbolic link whose target does not exist.
  A file that was never compiled keeps the built-in grant, anything unreadable aborts.
\<close>

definition resolve_v2_service_capability ::
  "(string \<Rightarrow> json option) \<Rightarrow> read_outcome \<Rightarrow> bool \<Rightarrow> string \<Rightarrow> string \<Rightarrow> (string \<times> string) option res" where
  "resolve_v2_service_capability loads file dangling service capability =
     (case file of
        ReadMissing \<Rightarrow> if dangling then Inl (ValueError ''unavailable symlink'') else Inr (Some (service, capability))
      | ReadFailed \<Rightarrow> Inl (ValueError ''unreadable'')
      | ReadText raw \<Rightarrow>
          (case loads raw of
             None \<Rightarrow> Inl (ValueError ''not valid JSON'')
           | Some data \<Rightarrow> resolve_in_authority service capability data))"

section \<open>Bounded output\<close>

lemma drain_spec:
  assumes "length d \<le> limit"
  shows "drain limit blocks (d, t) =
    (let out = d @ concat (takeWhile (\<lambda>b. b \<noteq> []) blocks) in (take limit out, t \<or> limit < length out))"
  using assms
proof (induction blocks arbitrary: d t)
  case (Cons block blocks)
  show ?case
  proof (cases "block = []")
    case False
    define d' where "d' = take limit (d @ block)"
    have step: "drain limit (block # blocks) (d, t) = drain limit blocks (d', t \<or> length block > limit - length d)"
      using False Cons.prems by (auto simp: d'_def Let_def)
    have ih: "drain limit blocks (d', t \<or> length block > limit - length d) =
        (let out = d' @ concat (takeWhile (\<lambda>b. b \<noteq> []) blocks)
         in (take limit out, (t \<or> length block > limit - length d) \<or> limit < length out))"
      by (rule Cons.IH) (simp add: d'_def)
    show ?thesis
    proof (cases "length block > limit - length d")
      case True
      with Cons.prems have "length d' = limit" by (auto simp: d'_def)
      moreover from True Cons.prems have "limit < length d + length block" by simp
      ultimately show ?thesis using step ih True False Cons.prems by (simp add: Let_def d'_def min_absorb1)
    next
      case fits: False
      with Cons.prems have "d' = d @ block" by (simp add: d'_def)
      then show ?thesis using step ih False fits by (simp add: Let_def)
    qed
  qed (use Cons.prems in simp)
qed simp

lemma utf8_valid_step:
  "utf8_valid (c # cs) \<longleftrightarrow> snd (utf8_step c cs) \<and> utf8_valid (drop (fst (utf8_step c cs)) (c # cs))"
  by (cases cs; cases "tl cs"; cases "tl (tl cs)")
    (auto simp: utf8_step_def second_ok_def Let_def)

lemma utf8_step_prefix:
  assumes "utf8_step c cs = (n, True)"
  shows "utf8_step c (take (n - 1) cs @ t) = (n, True) \<and> n \<le> length (c # cs)"
  using assms
  by (cases cs; cases "tl cs"; cases "tl (tl cs)"; auto simp: utf8_step_def Let_def split: if_splits)

lemma decode_replace_id: "utf8_valid s \<Longrightarrow> decode_replace s = s"
proof (induction s rule: decode_replace.induct)
  case (2 c cs)
  then have "utf8_valid (drop (fst (utf8_step c cs)) (c # cs))" "snd (utf8_step c cs)"
    using utf8_valid_step by blast+
  with 2 show ?case by (cases "utf8_step c cs") (simp add: decode_replace.simps(2))
qed simp

lemma utf8_valid_replacement [simp]: "utf8_valid (replacement @ s) = utf8_valid s"
  by (simp add: replacement_def is_cont_def)

lemma decode_replace_valid: "utf8_valid (decode_replace s)"
proof (induction s rule: decode_replace.induct)
  case (2 c cs)
  obtain n ok where st: "utf8_step c cs = (n, ok)" by (cases "utf8_step c cs")
  let ?t = "decode_replace (drop n (c # cs))"
  have ih: "utf8_valid ?t" using 2 st by simp
  show ?case
  proof (cases ok)
    case True
    have n: "0 < n" using utf8_step_pos [of c cs] st by simp
    with st True have "take n (c # cs) @ ?t = c # (take (n - 1) cs @ ?t)"
      "utf8_step c (take (n - 1) cs @ ?t) = (n, True)" "n \<le> length (c # cs)"
      using utf8_step_prefix [of c cs n ?t] by (auto simp: take_Cons')
    moreover from this n have "drop n (c # (take (n - 1) cs @ ?t)) = ?t" by (cases n) auto
    ultimately have "utf8_valid (take n (c # cs) @ ?t)" using ih utf8_valid_step by simp
    then show ?thesis using st True by (simp add: decode_replace.simps(2))
  qed (use ih st in \<open>simp add: decode_replace.simps(2)\<close>)
qed simp

section \<open>Names of groups\<close>

lemma application_id_no_dot: "application_id s \<Longrightarrow> CHR ''.'' \<notin> set s"
  by (auto simp: application_id_def list_all_iff is_lower_def is_digit_def split: list.splits)

lemma application_capability_group_Inr_iff [res_simps]:
  "application_capability_group s c = Inr g \<longleftrightarrow>
     application_id s \<and> capability_id c \<and> g = ''application.'' @ s @ ''.'' @ c"
  by (auto simp: application_capability_group_def)

lemma dotted_inj:
  assumes "CHR ''.'' \<notin> set s" "CHR ''.'' \<notin> set s'" "s @ CHR ''.'' # c = s' @ CHR ''.'' # c'"
  shows "s = s' \<and> c = c'"
proof -
  have "takeWhile (\<lambda>x. x \<noteq> CHR ''.'') (s @ CHR ''.'' # c) = s"
    "takeWhile (\<lambda>x. x \<noteq> CHR ''.'') (s' @ CHR ''.'' # c') = s'"
    using assms(1,2) by (simp_all add: takeWhile_append)
  with assms(3) show ?thesis by auto
qed

text \<open>What stripping leaves.\<close>

lemma py_strip_set: "set (py_strip s) \<subseteq> set s"
  by (auto simp: py_strip_def rstrip_chars_def lstrip_chars_def dest!: set_dropWhileD)

lemma py_strip_id: "s \<noteq> [] \<Longrightarrow> \<not> is_space (hd s) \<Longrightarrow> \<not> is_space (last s) \<Longrightarrow> py_strip s = s"
proof -
  assume s: "s \<noteq> []" "\<not> is_space (hd s)" "\<not> is_space (last s)"
  then have "dropWhile is_space s = s" by (cases s) auto
  moreover from s have "dropWhile is_space (rev s) = rev s" by (cases s rule: rev_cases) auto
  ultimately show ?thesis by (simp add: py_strip_def rstrip_chars_def lstrip_chars_def)
qed

lemma dropWhile_hd: "dropWhile p s \<noteq> [] \<Longrightarrow> \<not> p (hd (dropWhile p s))"
  by (induction s) auto

lemma rstrip_last:
  assumes "rstrip_chars p s \<noteq> []"
  shows "\<not> p (last (rstrip_chars p s))"
  using assms dropWhile_hd [of p "rev s"] by (simp add: rstrip_chars_def last_rev)

lemma rstrip_hd: "rstrip_chars p s \<noteq> [] \<Longrightarrow> hd (rstrip_chars p s) = hd s"
proof -
  assume ne: "rstrip_chars p s \<noteq> []"
  have "s = rstrip_chars p s @ rev (takeWhile p (rev s))"
    unfolding rstrip_chars_def by (metis rev_append rev_rev_ident takeWhile_dropWhile_id)
  with ne show ?thesis by (metis hd_append2)
qed

lemma py_strip_ends:
  assumes "py_strip s \<noteq> []"
  shows "\<not> is_space (hd (py_strip s)) \<and> \<not> is_space (last (py_strip s))"
proof -
  let ?l = "lstrip_chars is_space s"
  have "?l \<noteq> []" using assms by (auto simp: py_strip_def rstrip_chars_def)
  then have "\<not> is_space (hd ?l)" by (simp add: lstrip_chars_def dropWhile_hd)
  with assms show ?thesis using rstrip_hd rstrip_last unfolding py_strip_def by metis
qed

text \<open>A name that the header can carry.\<close>

definition clean_name :: "identity_config \<Rightarrow> string \<Rightarrow> bool" where
  "clean_name cfg name \<longleftrightarrow> name \<noteq> [] \<and> \<not> list_ex is_control name \<and> CHR '','' \<notin> set name \<and>
     \<not> is_space (hd name) \<and> \<not> is_space (last name) \<and> py_len name \<le> MAX_GROUP_NAME_LENGTH cfg"

lemma split_groups_mem:
  assumes "name \<in> split_groups cfg raw"
  shows "clean_name cfg name \<and> card (split_groups cfg raw) \<le> MAX_GROUPS cfg"
proof -
  define names where "names = filter (\<lambda>name. name \<noteq> []) (map py_strip (py_split (CHR '','') raw))"
  from assms have ctl: "\<not> list_ex is_control raw" and n: "length names \<le> MAX_GROUPS cfg"
    and len: "\<not> list_ex (\<lambda>name. py_len name > MAX_GROUP_NAME_LENGTH cfg) names"
    and out: "split_groups cfg raw = set names"
    by (auto simp: split_groups_def names_def Let_def split: if_split_asm)
  from assms out obtain part where part: "part \<in> set (py_split (CHR '','') raw)" "name = py_strip part" "name \<noteq> []"
    by (auto simp: names_def)
  have "set name \<subseteq> set part" using py_strip_set part(2) by simp
  then have "set name \<subseteq> set raw" "CHR '','' \<notin> set name"
    using part(1) py_split_chars py_split_parts by blast+
  moreover have "py_len name \<le> MAX_GROUP_NAME_LENGTH cfg"
    using len assms out by (force simp: list_ex_iff not_less)
  moreover have "card (set names) \<le> MAX_GROUPS cfg" using card_length [of names] n by linarith
  ultimately show ?thesis
    using ctl part py_strip_ends [of part] out unfolding clean_name_def list_ex_iff by auto
qed

lemma py_join_chars: "set (py_join sep ps) \<subseteq> set sep \<union> (\<Union>p \<in> set ps. set p)"
  by (induction sep ps rule: py_join.induct) auto

lemma split_groups_join:
  assumes "names \<noteq> []" "list_all (clean_name cfg) names" "length names \<le> MAX_GROUPS cfg"
    "length (py_join '','' names) \<le> MAX_GROUP_HEADER_BYTES cfg"
  shows "split_groups cfg (py_join '','' names) = set names"
proof -
  have c: "clean_name cfg n" if "n \<in> set names" for n using assms(2) that by (simp add: list_all_iff)
  have "\<not> list_ex is_control (py_join '','' names)"
    using py_join_chars [of "'',''" names] c unfolding list_ex_iff clean_name_def
    by (fastforce simp: is_control_def)
  moreover have split: "py_split (CHR '','') (py_join '','' names) = names"
    using assms(1) c by (intro py_split_join) (auto simp: clean_name_def)
  moreover have "map py_strip names = names"
    by (rule map_idI) (use c in \<open>auto simp: clean_name_def intro: py_strip_id\<close>)
  moreover have "filter (\<lambda>name. name \<noteq> []) names = names"
    using c by (auto simp: filter_id_conv clean_name_def)
  moreover have "\<not> list_ex (\<lambda>name. py_len name > MAX_GROUP_NAME_LENGTH cfg) names"
    using c by (auto simp: list_ex_iff clean_name_def not_less)
  ultimately show ?thesis using assms(3,4) unfolding split_groups_def by simp
qed

section \<open>The readers of the compiled authority\<close>

lemma capability_value_error_None [res_simps]:
  "capability_value_error s c v = Inr None \<longleftrightarrow>
     application_id s \<and> capability_id c \<and> v = JStr (''application.'' @ s @ ''.'' @ c)"
  by (cases v) (auto simp: capability_value_error_def and_then_Inr_iff application_capability_group_Inr_iff)

lemma check_authorization_Inr:
  assumes "check_authorization services (s, entry) = Inr u"
  shows "dict_get services s \<noteq> None" "is_obj entry"
    "soft_get entry ''capabilities'' = JObj caps \<Longrightarrow> (c, v) \<in> set caps \<Longrightarrow> capability_value_error s c v = Inr None"
proof -
  obtain d where d: "entry = JObj d" using assms by (cases entry) (auto simp: check_authorization_def)
  then show "is_obj entry" by simp
  show "dict_get services s \<noteq> None" using assms by (auto simp: check_authorization_def d split: if_split_asm)
  assume caps: "soft_get entry ''capabilities'' = JObj caps" and cv: "(c, v) \<in> set caps"
  have g: "get entry ''capabilities'' = Inr (JObj caps)"
    using caps by (auto simp: d soft_get_def split: option.splits)
  have "and_then (capability_value_error s c v) (\<lambda>problem.
      case problem of None \<Rightarrow> Inr () | Some m \<Rightarrow> Inl (ValueError m)) = Inr ()"
    using assms cv unfolding check_authorization_def by (auto simp: g check_all_Inr_iff split: if_split_asm)
  then show "capability_value_error s c v = Inr None"
    by (cases "capability_value_error s c v") (auto split: option.splits)
qed

lemma validate_authority_Inr:
  assumes "validate_authority data = Inr data'"
  obtains top svcs entries where "data' = data" "data = JObj top" "dict_get top ''services'' = Some (JObj svcs)"
    "soft_get (soft_get data ''derived'') ''authorization'' = JObj entries"
    "\<forall>x \<in> set svcs. check_declaration x = Inr ()" "\<forall>x \<in> set entries. check_authorization svcs x = Inr ()"
proof -
  obtain top where top: "data = JObj top" using assms by (cases data) (auto simp: validate_authority_def)
  obtain derived authz services where
      der: "get data ''derived'' = Inr derived" "is_obj derived"
    and au: "get derived ''authorization'' = Inr authz" "is_obj authz"
    and sv: "get data ''services'' = Inr services" "is_obj services"
    and rest: "and_then (dict_items services) (\<lambda>svcs. and_then (check_all svcs check_declaration) (\<lambda>_.
        and_then (dict_items authz) (\<lambda>entries. and_then (check_all entries (check_authorization svcs)) (\<lambda>_. Inr data)))) = Inr data'"
    using assms unfolding validate_authority_def
    by (auto simp: and_then_Inr_iff split: if_split_asm)
  obtain svcs where svcs: "services = JObj svcs" using sv(2) by (cases services) auto
  obtain entries where entries: "authz = JObj entries" using au(2) by (cases authz) auto
  obtain dd where dd: "derived = JObj dd" using der(2) by (cases derived) auto
  show thesis
  proof (rule that)
    show "dict_get top ''services'' = Some (JObj svcs)"
      using sv(1) by (auto simp: top svcs split: option.splits)
    show "soft_get (soft_get data ''derived'') ''authorization'' = JObj entries"
      using der(1) au(1) by (auto simp: top dd entries soft_get_def split: option.splits)
  qed (use rest in \<open>auto simp: top svcs entries and_then_Inr_iff check_all_Inr_iff\<close>)
qed

text \<open>The grants that a compiled document makes, read off it directly.\<close>

definition granted :: "json \<Rightarrow> string \<Rightarrow> string \<Rightarrow> bool" where
  "granted data s c \<longleftrightarrow>
     (\<exists>declared caps. soft_get (soft_get (soft_get (soft_get data ''services'') s) ''authorization'') ''capabilities'' = JList declared \<and>
        list_all declared_item_ok declared \<and>
        (c = ''access'' \<or> list_ex (\<lambda>x. soft_get x ''id'' = JStr c) declared) \<and>
        soft_get (soft_get (soft_get (soft_get data ''derived'') ''authorization'') s) ''capabilities'' = JObj caps \<and>
        dict_get caps c = Some (JStr (''application.'' @ s @ ''.'' @ c)) \<and> application_id s \<and> capability_id c)"

lemma soft_get_get: "get x k = Inr y \<Longrightarrow> soft_get x k = y"
  by (cases x) (auto simp: soft_get_def)

lemma resolve_in_authority_grant:
  assumes "resolve_in_authority s c data = Inr (Some r)"
  shows "r = (s, c) \<and> granted data s c"
proof -
  let ?auth = "soft_get (soft_get data ''derived'') ''authorization''"
  obtain services decl where sv: "get_or data ''services'' JEmpty = Inr services" "get services s = Inr decl"
    and body: "(case soft_get (soft_get decl ''authorization'') ''capabilities'' of
        JList declared_caps \<Rightarrow>
          if \<not> list_all declared_item_ok declared_caps then Inr None
          else if c \<noteq> ''access'' \<and> \<not> list_ex (\<lambda>x. soft_get x ''id'' = JStr c) declared_caps then Inr None
          else (case soft_get (soft_get ?auth s) ''capabilities'' of
                  JObj caps \<Rightarrow>
                    (case dict_get caps c of
                       None \<Rightarrow> Inr None
                     | Some v \<Rightarrow> and_then (capability_value_error s c v) (\<lambda>problem.
                         Inr (if problem = None then Some (s, c) else None)))
                | _ \<Rightarrow> Inr None)
      | _ \<Rightarrow> Inr None) = (Inr (Some r) :: (string \<times> string) option res)"
    using assms unfolding resolve_in_authority_def Let_def by (auto simp: and_then_Inr_iff split: if_split_asm)
  obtain declared where dc: "soft_get (soft_get decl ''authorization'') ''capabilities'' = JList declared"
      "list_all declared_item_ok declared" "c = ''access'' \<or> list_ex (\<lambda>x. soft_get x ''id'' = JStr c) declared"
    using body by (auto split: json.split_asm if_split_asm)
  with body obtain caps v where cp: "soft_get (soft_get ?auth s) ''capabilities'' = JObj caps" "dict_get caps c = Some v"
      "capability_value_error s c v = Inr None" "r = (s, c)"
    by (auto simp: and_then_Inr_iff split: json.split_asm option.split_asm if_split_asm)
  obtain top where top: "data = JObj top" using sv(1) by (cases data) auto
  have "soft_get (soft_get data ''services'') s = decl"
  proof (cases "dict_get top ''services''")
    case None
    with sv show ?thesis by (auto simp: top soft_get_def)
  next
    case (Some x)
    with sv show ?thesis by (auto simp: top soft_get_def [of "JObj top"] intro: soft_get_get)
  qed
  with dc cp show ?thesis unfolding granted_def by (auto simp: capability_value_error_None)
qed

lemma soft_get_obj: "soft_get v k = JObj d \<Longrightarrow> \<exists>e. v = JObj e \<and> dict_get e k = Some (JObj d)"
  by (cases v) (auto simp: soft_get_def split: option.splits)

text \<open>On a document that the strict loader accepts, the resolver decides the grant without error.\<close>

lemma resolve_in_authority_validated:
  assumes "validate_authority data = Inr data'"
  shows "resolve_in_authority s c data = Inr (if granted data s c then Some (s, c) else None)"
proof -
  obtain top svcs entries where d: "data = JObj top" "dict_get top ''services'' = Some (JObj svcs)"
    and a: "soft_get (soft_get data ''derived'') ''authorization'' = JObj entries"
    and chk: "\<forall>x \<in> set entries. check_authorization svcs x = Inr ()"
    using assms by (rule validate_authority_Inr)
  have ok: "capability_value_error s c v = Inr None"
    if v: "soft_get (soft_get (JObj entries) s) ''capabilities'' = JObj caps" "dict_get caps c = Some v" for caps v
  proof -
    obtain entry where e: "dict_get entries s = Some entry" "soft_get (JObj entries) s = entry"
      using v(1) soft_get_obj [OF v(1)] by (auto simp: soft_get_def split: option.splits)
    have "check_authorization svcs (s, entry) = Inr ()" using chk map_of_SomeD [OF e(1)] by blast
    from check_authorization_Inr(3) [OF this] show ?thesis using v map_of_SomeD [OF v(2)] e(2) by simp
  qed
  let ?decl = "case dict_get svcs s of None \<Rightarrow> JNull | Some v \<Rightarrow> v"
  let ?declared = "soft_get (soft_get ?decl ''authorization'') ''capabilities''"
  let ?compiled = "soft_get (soft_get (JObj entries) s) ''capabilities''"
  note unfold = resolve_in_authority_def d(1) a [unfolded d(1)] d(2)
  have "\<exists>r. resolve_in_authority s c data = Inr r"
    by (insert ok, cases ?declared; cases ?compiled) (auto simp: unfold split: option.split)
  then obtain r where r: "resolve_in_authority s c data = Inr r" by blast
  have "r \<noteq> None" if g: "granted data s c"
  proof -
    have "soft_get (soft_get data ''services'') s = ?decl" by (simp add: d soft_get_def)
    with g a show ?thesis using r ok unfolding granted_def by (auto simp: unfold)
  qed
  moreover have "r = Some q \<Longrightarrow> q = (s, c) \<and> granted data s c" for q
    using r resolve_in_authority_grant by blast
  ultimately show ?thesis using r by (cases r) auto
qed

section \<open>Properties\<close>

text \<open>
  Capability groups are unambiguous: two pairs of a service id and a capability id with the
  same Authentik group are equal, so a grant for one service is never a grant for another.
\<close>

theorem capability_group_injective:
  assumes "application_capability_group s c = Inr g" "application_capability_group s' c' = Inr g"
  shows "s = s' \<and> c = c'"
proof -
  have v: "application_id s" "application_id s'" "s @ CHR ''.'' # c = s' @ CHR ''.'' # c'"
    using assms by (auto simp: application_capability_group_Inr_iff)
  show ?thesis by (rule dotted_inj [OF application_id_no_dot [OF v(1)] application_id_no_dot [OF v(2)] v(3)])
qed

theorem capability_group_injective_witness:
  "application_capability_group ''photos'' ''albums.edit'' = Inr ''application.photos.albums.edit'' \<and>
   application_capability_group ''photos'' ''edit'' \<noteq> Inr ''application.photos.albums.edit''"
proof -
  have g: "application_capability_group ''photos'' ''albums.edit'' = Inr ''application.photos.albums.edit''" by code_simp
  with capability_group_injective [OF g, of "''photos''" "''edit''"] show ?thesis by auto
qed

text \<open>
  Whatever the proxy sends as a group header, the parsed set has at most \<open>MAX_GROUPS\<close>
  names, and each of them is non-empty, free of control characters and commas, not
  surrounded by blanks and no longer than \<open>MAX_GROUP_NAME_LENGTH\<close>.
\<close>

theorem split_groups_bounded:
  "card (split_groups cfg raw) \<le> MAX_GROUPS cfg \<and> Ball (split_groups cfg raw) (clean_name cfg)"
proof
  show "card (split_groups cfg raw) \<le> MAX_GROUPS cfg"
    using split_groups_mem [of _ cfg raw] by (cases "split_groups cfg raw = {}") auto
  show "Ball (split_groups cfg raw) (clean_name cfg)" using split_groups_mem by blast
qed

theorem split_groups_bounded_witness:
  "clean_name default_config ''application.photos.access'' \<and>
   split_groups default_config ''nas_users, application.photos.access'' = {''nas_users'', ''application.photos.access''}"
proof
  show parsed: "split_groups default_config ''nas_users, application.photos.access'' =
      {''nas_users'', ''application.photos.access''}"
    by code_simp
  show "clean_name default_config ''application.photos.access''"
    using split_groups_bounded [of default_config "''nas_users, application.photos.access''"]
    unfolding parsed by blast
qed

text \<open>
  A header that joins clean names within the limits is parsed to exactly those names.
\<close>

theorem split_groups_roundtrip:
  assumes "names \<noteq> []" "list_all (clean_name cfg) names" "length names \<le> MAX_GROUPS cfg"
    "length (py_join '','' names) \<le> MAX_GROUP_HEADER_BYTES cfg"
  shows "split_groups cfg (py_join '','' names) = set names"
  using assms by (rule split_groups_join)

theorem split_groups_roundtrip_witness:
  "split_groups default_config (py_join '','' [''nas_admin'', ''team a'']) = {''nas_admin'', ''team a''}"
proof -
  have "list_all (clean_name default_config) [''nas_admin'', ''team a'']"
    unfolding clean_name_def by code_simp
  moreover have "length [''nas_admin'', ''team a''] \<le> MAX_GROUPS default_config" by code_simp
  moreover have "length (py_join '','' [''nas_admin'', ''team a'']) \<le> MAX_GROUP_HEADER_BYTES default_config" by code_simp
  ultimately show ?thesis using split_groups_roundtrip [of "[''nas_admin'', ''team a'']" default_config] by simp
qed

text \<open>
  C35: On every authority that the strict loader accepts, the runtime resolver never raises, and
  it grants a capability exactly when the service declares it (\<open>access\<close> needs no declaration)
  and the compiled value is the canonical group of that service and capability.
\<close>

theorem resolver_agrees_with_loader:
  assumes "load_effective_authority loads (ReadText raw) = Inr data"
  shows "resolve_v2_service_capability loads (ReadText raw) dangling s c =
    Inr (if granted data s c then Some (s, c) else None)"
proof -
  obtain d where d: "loads raw = Some d" "validate_authority d = Inr data"
    using assms by (auto simp: load_effective_authority_def split: option.splits)
  moreover have "data = d" using d(2) by (rule validate_authority_Inr)
  ultimately show ?thesis
    using resolve_in_authority_validated [OF d(2)] by (simp add: resolve_v2_service_capability_def)
qed

definition sample_authority :: json where
  "sample_authority = JObj [(''schemaVersion'', JInt 3),
     (''services'', JObj [(''photos'', JObj [(''authorization'', JObj [(''capabilities'', JList [])])])]),
     (''derived'', JObj [(''authorization'', JObj [(''photos'', JObj [(''capabilities'',
        JObj [(''access'', JStr ''application.photos.access'')])])])])]"

theorem resolver_agrees_with_loader_witness:
  "resolve_v2_service_capability (\<lambda>_. Some sample_authority) (ReadText []) False ''photos'' ''access''
     = Inr (Some (''photos'', ''access''))"
proof -
  have "load_effective_authority (\<lambda>_. Some sample_authority) (ReadText []) = Inr sample_authority" by code_simp
  moreover have "granted sample_authority ''photos'' ''access''"
    unfolding granted_def
    by (rule exI [of _ "[]"], rule exI [of _ "[(''access'', JStr ''application.photos.access'')]"]) code_simp
  ultimately show ?thesis
    using resolver_agrees_with_loader [of "\<lambda>_. Some sample_authority" "[]" sample_authority False "''photos''" "''access''"]
    by simp
qed

text \<open>
  C36: The resolver fails closed: whenever compiled state is present, readable or not, a grant
  is justified by the compiled document; the built-in grant is used only when the file is
  absent and no symbolic link on its path dangles.
\<close>

theorem resolver_fails_closed:
  assumes "resolve_v2_service_capability loads outcome dangling s c = Inr (Some r)"
  shows "r = (s, c) \<and> (outcome = ReadMissing \<and> \<not> dangling \<or>
    (\<exists>raw data. outcome = ReadText raw \<and> loads raw = Some data \<and> granted data s c))"
  using assms
  by (auto simp: resolve_v2_service_capability_def split: read_outcome.splits option.splits if_splits
      dest: resolve_in_authority_grant)

theorem resolver_fails_closed_witness:
  "resolve_v2_service_capability (\<lambda>_. None) ReadMissing False ''photos'' ''access'' = Inr (Some (''photos'', ''access'')) \<and>
   resolve_v2_service_capability (\<lambda>_. None) ReadMissing True ''photos'' ''access'' \<noteq> Inr (Some (''photos'', ''access''))"
  using resolver_fails_closed [of "\<lambda>_. None" ReadMissing True "''photos''" "''access''"]
  by (auto simp: resolve_v2_service_capability_def)

text \<open>
  A child that received protected standard input and failed or timed out cannot leak: the
  result does not depend on anything it wrote.
\<close>

theorem protected_failure_silent:
  assumes "ending \<noteq> Exited 0"
  shows "run_command_result limit True ending out err = run_command_result limit True ending out' err' \<and>
    stdout (run_command_result limit True ending out err) = []"
  using assms by (cases ending) (auto simp: run_command_result_def Let_def)

theorem protected_failure_silent_witness:
  "run_command_result 10 True (Exited 1) [''secret''] [] = run_command_result 10 True (Exited 1) [] [''secret'']"
  using protected_failure_silent [of "Exited 1" 10 "[''secret'']" "[]" "[]" "[''secret'']"] by simp

text \<open>
  The captured output of a successful command is the first \<open>max_output_bytes\<close> bytes of the
  stream however the stream was split into reads, decoded to well-formed UTF-8, with the
  truncation marker exactly when bytes were dropped.
\<close>

theorem captured_output:
  "stdout (run_command_result limit protected (Exited 0) out_blocks err_blocks) =
     (let out = concat (takeWhile (\<lambda>b. b \<noteq> []) out_blocks)
      in decode_replace (take (nat limit) out) @
           (if nat limit < length out then CHR 0x0A # ''[output truncated]'' else []))
   \<and> utf8_valid (decode_replace bytes)"
  by (simp add: run_command_result_def Let_def drain_spec decoded_def decode_replace_valid max_def)

end
