(* ===== verification/V2_Effective.thy ===== *)
theory V2_Effective
  imports V2_Document V2_Normalize V2_Semantic Common_Policy
begin

text \<open>
  The back half of the Managed Services compiler (\<open>services/nas_v2_spec.py\<close>, \<open>build_effective\<close>
  and \<open>compile_document\<close>): the effective state is the normalized document with a \<open>derived\<close>
  section of authorization groups, runtime owners, routes and backup resources.
\<close>

section \<open>Definitions\<close>

definition capability_group_text :: "string \<Rightarrow> string \<Rightarrow> json" where
  "capability_group_text sid cap = JStr (''application.'' @ sid @ ''.'' @ cap)"

text \<open>
  The capability table of a service. A capability identifier is used as a dictionary key and in
  a format string; the schema makes it a string, any other key type is left to the type error.
\<close>

definition add_capability :: "string \<Rightarrow> json \<Rightarrow> json_dict \<Rightarrow> json_dict res" where
  "add_capability sid capability caps =
     and_then (item_str capability ''id'') (\<lambda>cap. Inr (dict_set cap (capability_group_text sid cap) caps))"

definition service_capabilities :: "string \<Rightarrow> json \<Rightarrow> json_dict res" where
  "service_capabilities sid service =
     and_then (item2 service ''authorization'' ''capabilities'') (\<lambda>declared.
     and_then (iter declared) (\<lambda>xs.
     for_each xs (add_capability sid) [(''access'', capability_group_text sid ''access'')]))"

definition owner_unit :: "string \<Rightarrow> json \<Rightarrow> json res" where
  "owner_unit sid runtime =
     and_then (item runtime ''type'') (\<lambda>t.
     if t = JStr ''systemd'' then item runtime ''unit''
     else if t = JStr ''compose'' then Inr (JStr (''nas-v2-'' @ sid @ ''.target''))
     else Inr (JStr (''nas-v2-'' @ sid @ ''.service'')))"

definition derived_runtime :: "string \<Rightarrow> json \<Rightarrow> json res" where
  "derived_runtime sid service =
     and_then (item service ''runtime'') (\<lambda>runtime.
     and_then (owner_unit sid runtime) (\<lambda>owner.
     and_then (item runtime ''type'') (\<lambda>t.
     and_then (item service ''managed'') (\<lambda>managed.
     Inr (JObj [(''type'', t), (''ownerUnit'', owner), (''managed'', managed)])))))"

definition wakes_on_demand :: "json \<Rightarrow> bool res" where
  "wakes_on_demand service =
     and_then (item service ''workload'') (\<lambda>workload.
     and_also (item_is workload ''kind'' ''daemon'')
       (and_then (get workload ''activation'') (\<lambda>a. Inr (a = JStr ''on-demand''))))"

definition required_capability :: "json_dict \<Rightarrow> json \<Rightarrow> json res" where
  "required_capability caps route =
     and_then (item route ''auth'') (\<lambda>auth.
     and_then (item_is auth ''mode'' ''identity'') (\<lambda>identity.
     if \<not> identity then Inr JNull
     else and_then (item_str auth ''capability'') (\<lambda>cap.
       case dict_get caps cap of None \<Rightarrow> Inl KeyError | Some g \<Rightarrow> Inr g)))"

definition derived_route :: "string \<Rightarrow> json_dict \<Rightarrow> bool \<Rightarrow> string \<times> json \<Rightarrow> json res" where
  "derived_route sid caps on_demand = (\<lambda>(rid, route).
     and_then (required_capability caps route) (\<lambda>required.
     and_then (item2 route ''auth'' ''mode'') (\<lambda>mode.
     and_then (item route ''target'') (\<lambda>target.
     and_then (item route ''exposure'') (\<lambda>exposure.
     and_then (item route ''proxy'') (\<lambda>proxy.
     and_then (item route ''portal'') (\<lambda>portal.
     Inr (JObj [(''service'', JStr sid), (''route'', JStr rid), (''authMode'', mode),
       (''requiredCapability'', required), (''onDemandWake'', JBool on_demand), (''target'', target),
       (''exposure'', exposure), (''proxy'', proxy), (''portal'', portal)]))))))))"

record derived =
  authorization :: json_dict
  runtimes :: json_dict
  routes :: "json list"

definition derive_service :: "string \<times> json \<Rightarrow> derived \<Rightarrow> derived res" where
  "derive_service = (\<lambda>(sid, service) st.
     and_then (service_capabilities sid service) (\<lambda>caps.
     and_then (derived_runtime sid service) (\<lambda>runtime.
     and_then (wakes_on_demand service) (\<lambda>on_demand.
     and_then (item_dict service ''routes'') (\<lambda>rs.
     and_then (map_res (derived_route sid caps on_demand) rs) (\<lambda>new.
     Inr (st\<lparr>authorization := dict_set sid (JObj [(''capabilities'', JObj caps)]) (authorization st),
             runtimes := dict_set sid runtime (runtimes st),
             routes := routes st @ new\<rparr>)))))))"

definition backed_up :: "string \<times> json \<Rightarrow> bool res" where
  "backed_up = (\<lambda>(rid, resource).
     and_then (item2 resource ''backup'' ''enabled'') (\<lambda>enabled.
     and_also (Inr (truthy enabled)) (item_is resource ''stateClass'' ''authoritative'')))"

definition add_backup :: "string \<times> json \<Rightarrow> string list \<Rightarrow> string list res" where
  "add_backup entry out = and_then (backed_up entry) (\<lambda>b. Inr (if b then out @ [fst entry] else out))"

definition backup_resources :: "json \<Rightarrow> json res" where
  "backup_resources effective =
     and_then (item_dict effective ''storageResources'') (\<lambda>rs.
     and_then (for_each rs add_backup []) (\<lambda>names. Inr (JList (map JStr (sort names)))))"

definition build_effective :: "json \<Rightarrow> json res" where
  "build_effective document =
     and_then (item_dict document ''services'') (\<lambda>services.
     and_then (for_each services derive_service \<lparr>authorization = [], runtimes = [], routes = []\<rparr>) (\<lambda>st.
     and_then (backup_resources document) (\<lambda>backups.
     set_item ''derived'' (JObj [
       (''authorization'', JObj (authorization st)),
       (''runtime'', JObj (runtimes st)),
       (''routes'', JList (routes st)),
       (''backupResources'', backups)]) document)))"

definition compile_document ::
  "(json \<Rightarrow> json \<Rightarrow> path_part list list) \<Rightarrow> (pure_path \<Rightarrow> pure_path) \<Rightarrow> json \<Rightarrow> json \<Rightarrow> string set option \<Rightarrow> json res" where
  "compile_document iter_errors resolve document schema platform =
     and_then (validate_schema iter_errors document schema) (\<lambda>_.
     and_then (normalize document) (\<lambda>normalized.
     and_then (validate_schema iter_errors normalized schema) (\<lambda>_.
     and_then (semantic_validate resolve normalized platform) (\<lambda>_.
     build_effective normalized))))"

section \<open>The capability tables\<close>

lemma add_capability_get:
  assumes "for_each xs (add_capability sid) caps = Inr caps'"
  shows "dict_get caps' c = (if list_ex (\<lambda>x. item_str x ''id'' = Inr c) xs
    then Some (capability_group_text sid c) else dict_get caps c)"
  using assms
proof (induction xs arbitrary: caps)
  case (Cons x xs)
  from Cons.prems obtain cap where x: "item_str x ''id'' = Inr cap"
    and rest: "for_each xs (add_capability sid) (dict_set cap (capability_group_text sid cap) caps) = Inr caps'"
    by (auto simp: add_capability_def [of sid x caps] and_then_Inr_iff)
  from Cons.IH [OF rest] x show ?case by (auto simp: dict_simps)
qed simp

lemma add_capability_distinct:
  assumes "for_each xs (add_capability sid) caps = Inr caps'" and "distinct (map fst caps)"
  shows "distinct (map fst caps')"
  using assms
  by (rule for_each_invariant [where I = "\<lambda>d. distinct (map fst d)"])
    (auto simp: add_capability_def and_then_Inr_iff distinct_update)

lemma service_capabilities_get:
  assumes "service_capabilities sid service = Inr caps"
    and "item2 service ''authorization'' ''capabilities'' = Inr (JList xs)"
  shows "dict_get caps c = (if c = ''access'' \<or> list_ex (\<lambda>x. item_str x ''id'' = Inr c) xs
    then Some (capability_group_text sid c) else None)" and "distinct (map fst caps)"
proof -
  have run: "for_each xs (add_capability sid) [(''access'', capability_group_text sid ''access'')] = Inr caps"
    using assms by (simp add: service_capabilities_def)
  show "dict_get caps c = (if c = ''access'' \<or> list_ex (\<lambda>x. item_str x ''id'' = Inr c) xs
    then Some (capability_group_text sid c) else None)"
    using add_capability_get [OF run] by auto
  show "distinct (map fst caps)" by (rule add_capability_distinct [OF run]) simp
qed

text \<open>The derived authorization has exactly the table of each declared service.\<close>

lemma derive_service_authorization:
  assumes "derive_service (sid, service) st = Inr st'"
  obtains caps where "service_capabilities sid service = Inr caps"
    "authorization st' = dict_set sid (JObj [(''capabilities'', JObj caps)]) (authorization st)"
  using assms by (auto simp: derive_service_def and_then_Inr_iff)

lemma derive_services_get:
  assumes "for_each services derive_service st = Inr st'" and "distinct (map fst services)"
  shows "dict_get (authorization st') sid = (case dict_get services sid of
      None \<Rightarrow> dict_get (authorization st) sid
    | Some service \<Rightarrow> Some (JObj [(''capabilities'', JObj (projr (service_capabilities sid service)))]))
    \<and> (\<forall>service. dict_get services sid = Some service \<longrightarrow> \<not> isl (service_capabilities sid service))"
  using assms
proof (induction services arbitrary: st)
  case (Cons e services)
  obtain s v where e: "e = (s, v)" by (cases e)
  from Cons.prems(1) obtain st1 where one: "derive_service (s, v) st = Inr st1"
    and rest: "for_each services derive_service st1 = Inr st'"
    by (auto simp: and_then_Inr_iff e)
  from one obtain caps where caps: "service_capabilities s v = Inr caps"
    "authorization st1 = dict_set s (JObj [(''capabilities'', JObj caps)]) (authorization st)"
    by (rule derive_service_authorization)
  have new: "dict_get services s = None" using Cons.prems(2) by (simp add: e map_of_eq_None_iff)
  from Cons.prems(2) have "distinct (map fst services)" by (simp add: e)
  from Cons.IH [OF rest this] new caps show ?case
    by (cases "sid = s") (simp_all add: e dict_simps split: option.split)
qed simp

lemma derive_services_distinct:
  assumes "for_each services derive_service st = Inr st'" and "distinct (map fst (authorization st))"
  shows "distinct (map fst (authorization st'))"
  using assms
  by (rule for_each_invariant [where I = "\<lambda>st. distinct (map fst (authorization st))"])
    (auto elim!: derive_service_authorization simp: distinct_update)

lemma build_effectiveE:
  assumes "build_effective document = Inr eff" and "item_dict document ''services'' = Inr services"
  obtains top st backups where "document = JObj top" "dict_get top ''services'' = Some (JObj services)"
    "for_each services derive_service \<lparr>authorization = [], runtimes = [], routes = []\<rparr> = Inr st"
    "eff = JObj (dict_set ''derived'' (JObj [(''authorization'', JObj (authorization st)),
       (''runtime'', JObj (runtimes st)), (''routes'', JList (routes st)), (''backupResources'', backups)]) top)"
proof -
  from assms obtain st backups where *: "for_each services derive_service \<lparr>authorization = [], runtimes = [], routes = []\<rparr> = Inr st"
    "set_item ''derived'' (JObj [(''authorization'', JObj (authorization st)),
       (''runtime'', JObj (runtimes st)), (''routes'', JList (routes st)), (''backupResources'', backups)]) document = Inr eff"
    by (auto simp: build_effective_def and_then_Inr_iff)
  from *(2) obtain top where top: "document = JObj top" by (cases document) auto
  with assms(2) have "dict_get top ''services'' = Some (JObj services)" by (auto simp: res_simps split: option.splits)
  with * top show ?thesis by (intro that [of top st backups]) auto
qed

section \<open>The compiled authority\<close>

text \<open>
  What the JSON Schema of the repository promises about the parts the authority is built from: the
  supported version, service identifiers and capability identifiers of the documented pattern.
  Keys are distinct because the document is a Python dictionary.
\<close>

definition schema_service :: "string \<times> json \<Rightarrow> bool" where
  "schema_service = (\<lambda>(sid, service). application_id sid \<and>
     (case item2 service ''authorization'' ''capabilities'' of
        Inr (JList xs) \<Rightarrow> list_all declared_item_ok xs
      | Inr _ \<Rightarrow> False
      | Inl _ \<Rightarrow> True))"

definition schema_shape :: "json \<Rightarrow> bool" where
  "schema_shape document \<longleftrightarrow>
     (\<exists>v services. item document ''schemaVersion'' = Inr v \<and> supported_schema v = Inr True \<and>
        item_dict document ''services'' = Inr services \<and> distinct (map fst services) \<and>
        list_all schema_service services)"

lemma declared_item_id: "declared_item_ok x \<Longrightarrow> item_str x ''id'' = Inr c \<longleftrightarrow> soft_get x ''id'' = JStr c"
  by (cases x) (auto simp: declared_item_ok_def soft_get_def item_str_Inr_iff split: option.splits)

lemma declared_item_capability: "declared_item_ok x \<Longrightarrow> item_str x ''id'' = Inr c \<Longrightarrow> capability_id c"
  by (simp add: declared_item_id) (simp add: declared_item_ok_def)

lemma list_ex_declared:
  "list_all declared_item_ok xs \<Longrightarrow>
   list_ex (\<lambda>x. item_str x ''id'' = Inr c) xs \<longleftrightarrow> list_ex (\<lambda>x. soft_get x ''id'' = JStr c) xs"
  by (induction xs) (auto simp: declared_item_id)

text \<open>A service whose table could be built has a list of well-formed declarations.\<close>

lemma schema_service_declared:
  assumes "schema_service (sid, service)" and "service_capabilities sid service = Inr caps"
  obtains xs where "item2 service ''authorization'' ''capabilities'' = Inr (JList xs)"
    "list_all declared_item_ok xs" "application_id sid"
  using assms by (auto simp: schema_service_def service_capabilities_def and_then_Inr_iff split: sum.splits json.splits)

lemma item2_soft_get: "item2 v k k' = Inr w \<Longrightarrow> soft_get (soft_get v k) k' = w"
  by (auto simp: res_simps soft_get_def)

lemma group_value_ok:
  "application_id s \<Longrightarrow> capability_id c \<Longrightarrow> capability_value_error s c (capability_group_text s c) = Inr None"
  by (simp add: capability_value_error_def capability_group_text_def application_capability_group_def)

lemma access_capability_id: "capability_id ''access''"
  by code_simp

lemma compiled_entry:
  assumes "schema_service (sid, service)" and "service_capabilities sid service = Inr caps"
    and "dict_get services sid = Some service"
  shows "check_authorization services (sid, JObj [(''capabilities'', JObj caps)]) = Inr ()"
proof -
  from assms(1,2) obtain xs where xs: "item2 service ''authorization'' ''capabilities'' = Inr (JList xs)"
    "list_all declared_item_ok xs" "application_id sid"
    by (rule schema_service_declared)
  have "capability_value_error sid c v = Inr None" if "(c, v) \<in> set caps" for c v
  proof -
    from that service_capabilities_get(2) [OF assms(2) xs(1)] have "dict_get caps c = Some v" by simp
    with service_capabilities_get(1) [OF assms(2) xs(1), of c]
    have "v = capability_group_text sid c" "c = ''access'' \<or> list_ex (\<lambda>x. item_str x ''id'' = Inr c) xs"
      by (auto split: if_splits)
    moreover from this(2) xs(2) have "capability_id c"
      by (auto simp: list_ex_iff list_all_iff access_capability_id dest: declared_item_capability)
    ultimately show ?thesis using group_value_ok [OF xs(3)] by simp
  qed
  with assms(3) show ?thesis by (auto simp: check_authorization_def check_all_Inr_iff)
qed

lemma compiled_declaration:
  assumes "schema_service (sid, service)" and "service_capabilities sid service = Inr caps"
  shows "check_declaration (sid, service) = Inr ()"
  using assms by (elim schema_service_declared) (auto simp: check_declaration_def res_simps)

lemma build_effective_authority:
  assumes eff: "build_effective document = Inr eff" and shape: "schema_shape document"
  shows "validate_authority eff = Inr eff"
proof -
  from shape obtain v services where v: "item document ''schemaVersion'' = Inr v" "supported_schema v = Inr True"
    and svc: "item_dict document ''services'' = Inr services" "distinct (map fst services)"
      "list_all schema_service services"
    by (auto simp: schema_shape_def)
  from eff svc(1) obtain top st backups where top: "document = JObj top" "dict_get top ''services'' = Some (JObj services)"
    and run: "for_each services derive_service \<lparr>authorization = [], runtimes = [], routes = []\<rparr> = Inr st"
    and e: "eff = JObj (dict_set ''derived'' (JObj [(''authorization'', JObj (authorization st)),
       (''runtime'', JObj (runtimes st)), (''routes'', JList (routes st)), (''backupResources'', backups)]) top)"
    by (rule build_effectiveE)
  note table = derive_services_get [OF run svc(2)]
  have built: "\<exists>caps. service_capabilities sid service = Inr caps" if "(sid, service) \<in> set services" for sid service
    using table [of sid] that svc(2) by (simp add: right_result) (metis right_result)
  have decls: "check_all services check_declaration = Inr ()"
    using built svc(3) compiled_declaration by (fastforce simp: check_all_Inr_iff list_all_iff)
  have "check_authorization services (sid, entry) = Inr ()" if mem: "(sid, entry) \<in> set (authorization st)" for sid entry
  proof -
    have "dict_get (authorization st) sid = Some entry" using derive_services_distinct [OF run] mem by simp
    with table [of sid] obtain service where s: "dict_get services sid = Some service"
      "entry = JObj [(''capabilities'', JObj (projr (service_capabilities sid service)))]"
      "\<not> isl (service_capabilities sid service)"
      by (auto split: option.splits simp del: map_of_eq_Some_iff)
    then have "schema_service (sid, service)" using svc(3) by (auto simp: list_all_iff dest: map_of_SomeD)
    from compiled_entry [OF this right_result [OF s(3)] s(1)] s(2) show ?thesis by simp
  qed
  then have "check_all (authorization st) (check_authorization services) = Inr ()"
    by (auto simp: check_all_Inr_iff)
  moreover have "dict_get top ''schemaVersion'' = Some v" using v(1) top(1) by (auto split: option.splits)
  ultimately show ?thesis using v(2) top(2) decls by (simp add: e validate_authority_def dict_simps)
qed

section \<open>Compilation and resolution agree\<close>

text \<open>The service is declared in the document and the capability is \<open>access\<close> or one it declares.\<close>

definition declares :: "json \<Rightarrow> string \<Rightarrow> string \<Rightarrow> bool" where
  "declares document s c =
     (case item_dict document ''services'' of
        Inr services \<Rightarrow> (case dict_get services s of
          Some service \<Rightarrow> c = ''access'' \<or> list_ex (\<lambda>x. soft_get x ''id'' = JStr c)
             (projr (and_then (item2 service ''authorization'' ''capabilities'') iter))
        | None \<Rightarrow> False)
      | Inl _ \<Rightarrow> False)"

lemma build_effective_grants:
  assumes eff: "build_effective document = Inr eff" and shape: "schema_shape document"
  shows "granted eff s c \<longleftrightarrow> declares document s c"
proof -
  from shape obtain services where svc: "item_dict document ''services'' = Inr services" "distinct (map fst services)"
      "list_all schema_service services"
    by (auto simp: schema_shape_def)
  from eff svc(1) obtain top st backups where top: "document = JObj top" "dict_get top ''services'' = Some (JObj services)"
    and run: "for_each services derive_service \<lparr>authorization = [], runtimes = [], routes = []\<rparr> = Inr st"
    and e: "eff = JObj (dict_set ''derived'' (JObj [(''authorization'', JObj (authorization st)),
       (''runtime'', JObj (runtimes st)), (''routes'', JList (routes st)), (''backupResources'', backups)]) top)"
    by (rule build_effectiveE)
  note table = derive_services_get [OF run svc(2), of s]
  have parts: "soft_get eff ''services'' = JObj services"
    "soft_get (soft_get eff ''derived'') ''authorization'' = JObj (authorization st)"
    using top by (simp_all add: e soft_get_def dict_simps)
  show ?thesis
  proof (cases "dict_get services s")
    case None
    then have "soft_get (JObj services) s = JNull" by (simp add: soft_get_def)
    then show ?thesis using None svc(1) by (simp add: granted_def declares_def parts) (simp add: soft_get_def)
  next
    case (Some service)
    then have ok: "schema_service (s, service)" using svc(3) by (auto simp: list_all_iff dest: map_of_SomeD)
    from table Some have caps: "service_capabilities s service = Inr (projr (service_capabilities s service))"
      by (intro right_result) blast
    from ok caps obtain xs where xs: "item2 service ''authorization'' ''capabilities'' = Inr (JList xs)"
      "list_all declared_item_ok xs" "application_id s"
      by (rule schema_service_declared)
    have entry: "soft_get (soft_get (JObj (authorization st)) s) ''capabilities'' = JObj (projr (service_capabilities s service))"
      using table Some by (simp add: soft_get_def)
    have decl: "declares document s c \<longleftrightarrow> c = ''access'' \<or> list_ex (\<lambda>x. soft_get x ''id'' = JStr c) xs"
      using svc(1) Some xs(1) by (simp add: declares_def)
    then have "declares document s c \<Longrightarrow> capability_id c"
      using xs(2) list_ex_declared [OF xs(2), of c]
      by (auto simp: list_ex_iff list_all_iff access_capability_id dest: declared_item_capability)
    moreover have "soft_get (JObj services) s = service" using Some by (simp add: soft_get_def)
    ultimately show ?thesis
      using xs service_capabilities_get(1) [OF caps xs(1), of c] item2_soft_get [OF xs(1)] list_ex_declared [OF xs(2), of c]
      by (simp add: granted_def parts entry decl capability_group_text_def)
  qed
qed

lemma compile_documentE:
  assumes "\<And>d. iter_errors schema d = [] \<Longrightarrow> schema_shape d"
    and "compile_document iter_errors resolve document schema platform = Inr eff"
  obtains n where "normalize document = Inr n" "schema_shape n" "semantic_validate resolve n platform = Inr ()"
    "build_effective n = Inr eff"
proof -
  from assms(2) obtain n where n: "validate_schema iter_errors n schema = Inr ()" "build_effective n = Inr eff"
    "normalize document = Inr n" "semantic_validate resolve n platform = Inr ()"
    by (auto simp: compile_document_def and_then_Inr_iff)
  from n(1) have "iter_errors schema n = []"
    by (auto simp: validate_schema_def split: list.splits dest: arg_cong [of _ _ length])
  with n assms(1) show ?thesis using that by blast
qed

text \<open>
  C18: Whatever \<open>compile_document\<close> emits, the strict loader of the effective state accepts
  unchanged. The hypothesis is what the JSON Schema documents about identifiers and the version.
\<close>

theorem compiled_authority_loads:
  assumes "\<And>d. iter_errors schema d = [] \<Longrightarrow> schema_shape d"
    and "compile_document iter_errors resolve document schema platform = Inr eff"
  shows "validate_authority eff = Inr eff"
  using compile_documentE [OF assms] build_effective_authority by metis

text \<open>
  C5: The runtime resolver of \<open>nas_common\<close>, reading what \<open>compile_document\<close> wrote, grants exactly
  the capabilities that the normalized document declares, \<open>access\<close> included.
\<close>

theorem compiled_resolver:
  assumes "\<And>d. iter_errors schema d = [] \<Longrightarrow> schema_shape d"
    and "compile_document iter_errors resolve document schema platform = Inr eff"
    and "normalize document = Inr n"
  shows "resolve_in_authority s c eff = Inr (if declares n s c then Some (s, c) else None)"
proof -
  from assms have n: "schema_shape n" "build_effective n = Inr eff"
    using compile_documentE [OF assms(1,2)] by auto
  show ?thesis
    using resolve_in_authority_validated [OF build_effective_authority [OF n(2,1)], of s c]
      build_effective_grants [OF n(2,1), of s c] by simp
qed

section \<open>The derived routes\<close>







section \<open>A concrete compilation\<close>

lemma schema_shape_code [code]:
  "schema_shape document = (case (item document ''schemaVersion'', item_dict document ''services'') of
     (Inr v, Inr services) \<Rightarrow> supported_schema v = Inr True \<and> distinct (map fst services) \<and> list_all schema_service services
   | _ \<Rightarrow> False)"
  by (auto simp: schema_shape_def split: sum.splits)

text \<open>A schema validator that reports one error at the root unless the document has the shape.\<close>

definition shape_errors :: "json \<Rightarrow> json \<Rightarrow> path_part list list" where
  "shape_errors schema document = (if schema_shape document then [] else [[]])"

lemma shape_errors_Nil: "shape_errors schema d = [] \<Longrightarrow> schema_shape d"
  by (simp add: shape_errors_def split: if_splits)

definition sample_spec :: json where
  "sample_spec = JObj [(''schemaVersion'', JInt 3), (''services'', JObj [(''photos'', JObj [
     (''runtime'', JObj [(''type'', JStr ''oci''), (''image'', JStr ''photos'')]),
     (''workload'', JObj [(''kind'', JStr ''daemon'')]),
     (''authorization'', JObj [(''capabilities'', JList [JObj [(''id'', JStr ''edit'')]])]),
     (''routes'', JObj [(''ui'', JObj [
        (''exposure'', JObj [(''type'', JStr ''path''), (''paths'', JList [JStr ''/photos''])]),
        (''auth'', JObj [(''mode'', JStr ''identity''), (''capability'', JStr ''edit'')]),
        (''target'', JObj [(''type'', JStr ''http''), (''port'', JInt 8081)])])])])])]"

definition sample_spec_normalized :: json where
  "sample_spec_normalized = projr (normalize sample_spec)"

definition sample_effective :: json where
  "sample_effective = projr (build_effective sample_spec_normalized)"

lemma sample_spec_normalizes: "normalize sample_spec = Inr sample_spec_normalized"
  by code_simp

lemma sample_builds: "build_effective sample_spec_normalized = Inr sample_effective"
  by code_simp

lemma sample_compiles:
  "compile_document shape_errors (\<lambda>p. p) sample_spec JNull None = Inr sample_effective"
proof -
  have "validate_schema shape_errors sample_spec JNull = Inr ()"
    "validate_schema shape_errors sample_spec_normalized JNull = Inr ()"
    "semantic_validate (\<lambda>p. p) sample_spec_normalized None = Inr ()"
    by code_simp+
  then show ?thesis by (simp add: compile_document_def sample_spec_normalizes sample_builds)
qed

theorem compiled_authority_loads_witness:
  "validate_authority sample_effective = Inr sample_effective"
  by (rule compiled_authority_loads [OF _ sample_compiles]) (rule shape_errors_Nil)

theorem compiled_resolver_witness:
  "resolve_in_authority ''photos'' ''edit'' sample_effective = Inr (Some (''photos'', ''edit'')) \<and>
   resolve_in_authority ''photos'' ''delete'' sample_effective = Inr None"
proof -
  have at: "resolve_in_authority s c sample_effective =
      Inr (if declares sample_spec_normalized s c then Some (s, c) else None)" for s c
    by (rule compiled_resolver [OF _ sample_compiles sample_spec_normalizes]) (rule shape_errors_Nil)
  have "declares sample_spec_normalized ''photos'' ''edit''" "\<not> declares sample_spec_normalized ''photos'' ''delete''"
    by code_simp+
  then show ?thesis unfolding at by simp
qed



end
