(* ===== verification/Syncthing_Devices.thy ===== *)
theory Syncthing_Devices
  imports Common_Policy "HOL-Library.Multiset"
begin

text \<open>
  Validation of the Syncthing devices that users keep in their Authentik attributes
  (\<open>services/nas_syncthing_devices.py\<close>). \<open>loads\<close> is \<open>json.loads\<close>, with \<^const>\<open>None\<close> for a
  decoding error; \<open>max_devices\<close> is the configured \<open>MAX_DEVICES_PER_USER\<close>. The tag of a
  \<^const>\<open>DeviceError\<close> names the raise statement.
\<close>

section \<open>Definitions\<close>

definition MAX_DEVICE_NAME :: nat where
  "MAX_DEVICE_NAME = 128"

definition MAX_ADDRESSES :: nat where
  "MAX_ADDRESSES = 32"

definition MAX_ADDRESS_LENGTH :: nat where
  "MAX_ADDRESS_LENGTH = 512"

definition base32_char :: "char \<Rightarrow> bool" where
  "base32_char c \<longleftrightarrow> is_upper c \<or> 50 \<le> code c \<and> code c \<le> 55"

text \<open>\<open>DEVICE_ID_RE.fullmatch\<close>: eight dash-separated groups of seven base32 characters.\<close>

definition device_id_matches :: "string \<Rightarrow> bool" where
  "device_id_matches s \<longleftrightarrow>
     (let groups = py_split (CHR ''-'') s
      in length groups = 8 \<and> list_all (\<lambda>g. length g = 7 \<and> list_all base32_char g) groups)"

definition username_char :: "char \<Rightarrow> bool" where
  "username_char c \<longleftrightarrow> is_lower c \<or> is_upper c \<or> is_digit c \<or> c \<in> set ''_.-''"

text \<open>\<open>USERNAME_RE.fullmatch\<close>.\<close>

definition username_matches :: "string \<Rightarrow> bool" where
  "username_matches s =
     (case s of
        c # cs \<Rightarrow> (is_lower c \<or> is_upper c \<or> is_digit c) \<and> length cs \<le> 63 \<and> list_all username_char cs
      | [] \<Rightarrow> False)"

definition text_value :: "json \<Rightarrow> nat \<Rightarrow> string res" where
  "text_value v maximum =
     (case v of
        JStr s \<Rightarrow>
          (let result = py_strip s
           in if result = [] \<or> py_len result > maximum then Inl (DeviceError ''length'')
              else if list_ex is_control result then Inl (DeviceError ''control characters'')
              else Inr result)
      | _ \<Rightarrow> Inl (DeviceError ''must be a string''))"

definition validate_username :: "json \<Rightarrow> string res" where
  "validate_username v =
     (case v of
        JStr s \<Rightarrow> if username_matches s then Inr s else Inl (DeviceError ''user identifier'')
      | _ \<Rightarrow> Inl (DeviceError ''user identifier''))"

record device =
  deviceID :: string
  device_name :: string
  addresses :: "string list"
  autoAcceptFolders :: bool

text \<open>The device id of a definition: \<open>deviceID\<close>, else \<open>id\<close>.\<close>

definition raw_device_id :: "json_dict \<Rightarrow> json res" where
  "raw_device_id d =
     (case dict_get d ''deviceID'' of
        Some v \<Rightarrow> Inr v
      | None \<Rightarrow> (case dict_get d ''id'' of Some v \<Rightarrow> Inr v | None \<Rightarrow> Inl (DeviceError ''Device ID is required'')))"

definition add_address :: "json \<Rightarrow> string list \<Rightarrow> string list res" where
  "add_address raw known =
     and_then (text_value raw MAX_ADDRESS_LENGTH) (\<lambda>address.
       Inr (if address \<in> set known then known else known @ [address]))"

text \<open>\<open>value.get("name") or device_id[:7]\<close> and \<open>value.get("addresses", ["dynamic"])\<close>.\<close>

definition raw_name :: "json_dict \<Rightarrow> string \<Rightarrow> json" where
  "raw_name d device_id =
     (case dict_get d ''name'' of
        Some v \<Rightarrow> if truthy v then v else JStr (take 7 device_id)
      | None \<Rightarrow> JStr (take 7 device_id))"

definition raw_addresses :: "json_dict \<Rightarrow> json list res" where
  "raw_addresses d =
     (case dict_get d ''addresses'' of
        None \<Rightarrow> Inr [JStr ''dynamic'']
      | Some (JList xs) \<Rightarrow>
          if xs = [] \<or> length xs > MAX_ADDRESSES then Inl (DeviceError ''addresses'') else Inr xs
      | Some _ \<Rightarrow> Inl (DeviceError ''addresses''))"

definition device_of_dict :: "json_dict \<Rightarrow> device res" where
  "device_of_dict d =
     and_then (raw_device_id d) (\<lambda>raw_id.
     and_then (text_value raw_id 128) (\<lambda>stripped.
     let device_id = py_upper stripped in
     if \<not> device_id_matches device_id then Inl (DeviceError ''device ID'') else
     and_then (text_value (raw_name d device_id) MAX_DEVICE_NAME) (\<lambda>name.
     and_then (raw_addresses d) (\<lambda>raws.
     and_then (for_each raws add_address []) (\<lambda>addresses.
     Inr \<lparr>deviceID = device_id, device_name = name, addresses = addresses, autoAcceptFolders = False\<rparr>)))))"

definition normalize_device :: "(string \<Rightarrow> json option) \<Rightarrow> json \<Rightarrow> device res" where
  "normalize_device loads raw =
     and_then (case raw of
        JStr s \<Rightarrow>
          (case loads s of
             None \<Rightarrow> Inl (DeviceError ''must contain JSON'')
           | Some (JStr _) \<Rightarrow> Inl (DeviceError ''JSON-encoded string'')
           | Some v \<Rightarrow> Inr v)
      | v \<Rightarrow> Inr v) (\<lambda>v.
     case v of JObj d \<Rightarrow> device_of_dict d | _ \<Rightarrow> Inl (DeviceError ''must be a JSON object''))"

definition append_item :: "json \<Rightarrow> json list \<Rightarrow> json list res" where
  "append_item x expanded = (if is_obj x \<or> is_str x then Inr (expanded @ [x]) else Inl (DeviceError ''list item''))"

definition nonblank_lines :: "string \<Rightarrow> string list" where
  "nonblank_lines text = map py_strip (filter (\<lambda>l. py_strip l \<noteq> []) (splitlines text))"

definition expand_value :: "(string \<Rightarrow> json option) \<Rightarrow> json \<Rightarrow> json list \<Rightarrow> json list res" where
  "expand_value loads v expanded =
     (case v of
        JObj _ \<Rightarrow> Inr (expanded @ [v])
      | JList xs \<Rightarrow> for_each xs append_item expanded
      | JNull \<Rightarrow> Inl (DeviceError ''null'')
      | JStr s \<Rightarrow>
          if py_strip s = [] then Inr expanded
          else let text = py_strip s in
            (case loads text of
               None \<Rightarrow>
                 (let lines = nonblank_lines text
                  in if length lines \<le> 1 then Inr (expanded @ [JStr text]) else Inr (expanded @ map JStr lines))
             | Some (JObj d) \<Rightarrow> Inr (expanded @ [JObj d])
             | Some (JList xs) \<Rightarrow> for_each xs append_item expanded
             | Some (JStr _) \<Rightarrow> Inl (DeviceError ''JSON-encoded string'')
             | Some _ \<Rightarrow> Inl (DeviceError ''decoded primitive''))
      | _ \<Rightarrow> Inl (DeviceError ''primitive''))"

definition expand_attribute_values :: "(string \<Rightarrow> json option) \<Rightarrow> json list \<Rightarrow> json list res" where
  "expand_attribute_values loads values = for_each values (expand_value loads) []"

definition add_device ::
  "(string \<Rightarrow> json option) \<Rightarrow> json \<Rightarrow> device list \<times> string set \<Rightarrow> (device list \<times> string set) res" where
  "add_device loads raw = (\<lambda>(output, seen).
     and_then (normalize_device loads raw) (\<lambda>dev.
       if deviceID dev \<in> seen then Inl (DeviceError ''listed more than once'')
       else Inr (output @ [dev], insert (deviceID dev) seen)))"

text \<open>\<open>sorted\<close> by the pair of folded name and device id.\<close>

definition device_order :: "device list \<Rightarrow> device list" where
  "device_order ds = sort_key (\<lambda>d. casefold (device_name d)) (sort_key deviceID ds)"

definition normalize_devices :: "nat \<Rightarrow> (string \<Rightarrow> json option) \<Rightarrow> json list \<Rightarrow> device list res" where
  "normalize_devices max_devices loads values =
     and_then (expand_attribute_values loads values) (\<lambda>values.
       if length values > max_devices then Inl (DeviceError ''too many devices'')
       else and_then (for_each values (add_device loads) ([], {})) (\<lambda>(output, seen).
         Inr (device_order output)))"

section \<open>Validity of a device\<close>

definition valid_text :: "nat \<Rightarrow> string \<Rightarrow> bool" where
  "valid_text maximum s \<longleftrightarrow> s \<noteq> [] \<and> py_strip s = s \<and> py_len s \<le> maximum \<and> \<not> list_ex is_control s"

definition valid_device :: "device \<Rightarrow> bool" where
  "valid_device d \<longleftrightarrow> device_id_matches (deviceID d) \<and> valid_text MAX_DEVICE_NAME (device_name d) \<and>
     addresses d \<noteq> [] \<and> length (addresses d) \<le> MAX_ADDRESSES \<and> distinct (addresses d) \<and>
     list_all (valid_text MAX_ADDRESS_LENGTH) (addresses d) \<and> \<not> autoAcceptFolders d"

lemma py_strip_idem: "py_strip (py_strip s) = py_strip s"
proof (cases "py_strip s = []")
  case True
  moreover have "py_strip [] = []" by (simp add: py_strip_def lstrip_chars_def rstrip_chars_def)
  ultimately show ?thesis by simp
qed (use py_strip_ends [of s] py_strip_id in blast)

lemma text_value_Inr_iff [res_simps]:
  "text_value v m = Inr s \<longleftrightarrow> (\<exists>t. v = JStr t \<and> s = py_strip t \<and> valid_text m s)"
  by (cases v) (auto simp: text_value_def valid_text_def Let_def py_strip_idem)

lemma text_value_valid: "valid_text m s \<Longrightarrow> text_value (JStr s) m = Inr s"
  by (auto simp: text_value_Inr_iff) (simp add: valid_text_def)

lemma addresses_loop:
  assumes "for_each xs add_address as = Inr bs" "distinct as" "list_all (valid_text MAX_ADDRESS_LENGTH) as"
  shows "distinct bs \<and> list_all (valid_text MAX_ADDRESS_LENGTH) bs \<and> length bs \<le> length as + length xs \<and>
    (xs \<noteq> [] \<or> as \<noteq> [] \<longrightarrow> bs \<noteq> [])"
  using assms
proof (induction xs arbitrary: as)
  case (Cons x xs)
  then obtain cs where cs: "add_address x as = Inr cs" and rest: "for_each xs add_address cs = Inr bs"
    by (auto simp: and_then_Inr_iff)
  have c: "distinct cs" "list_all (valid_text MAX_ADDRESS_LENGTH) cs" "length cs \<le> Suc (length as)" "cs \<noteq> []"
    using cs Cons.prems(2,3) by (auto simp: add_address_def and_then_Inr_iff text_value_Inr_iff split: if_split_asm)
  from Cons.IH [OF rest c(1,2)] c(3,4) show ?case by auto
qed auto

lemma raw_addresses_Inr:
  "raw_addresses d = Inr raws \<Longrightarrow> raws \<noteq> [] \<and> length raws \<le> MAX_ADDRESSES"
  by (auto simp: raw_addresses_def MAX_ADDRESSES_def split: option.split_asm json.split_asm if_split_asm)

lemma device_of_dict_valid:
  assumes "device_of_dict d = Inr dev"
  shows "valid_device dev"
proof -
  obtain device_id raws where dv: "device_id_matches device_id" and name: "valid_text MAX_DEVICE_NAME (device_name dev)"
    and raws: "raw_addresses d = Inr raws" "for_each raws add_address [] = Inr (addresses dev)"
    and dev: "deviceID dev = device_id" "\<not> autoAcceptFolders dev"
    using assms by (auto simp: device_of_dict_def Let_def and_then_Inr_iff text_value_Inr_iff split: if_split_asm)
  from addresses_loop [OF raws(2)] raw_addresses_Inr [OF raws(1)] dv name dev show ?thesis
    unfolding valid_device_def by auto
qed

lemma normalize_device_dict:
  assumes "normalize_device loads raw = Inr dev"
  obtains d where "device_of_dict d = Inr dev"
proof -
  obtain v where "(case v of JObj d \<Rightarrow> device_of_dict d | _ \<Rightarrow> Inl (DeviceError ''must be a JSON object'')) = Inr dev"
    using assms by (auto simp: normalize_device_def and_then_Inr_iff)
  then show ?thesis using that by (cases v) auto
qed

text \<open>A device written back as an attribute value.\<close>

definition device_json :: "device \<Rightarrow> json" where
  "device_json dev = JObj [(''deviceID'', JStr (deviceID dev)), (''name'', JStr (device_name dev)),
     (''addresses'', JList (map JStr (addresses dev))), (''autoAcceptFolders'', JBool (autoAcceptFolders dev))]"

lemma add_addresses_again:
  assumes "distinct (bs @ as)" "list_all (valid_text MAX_ADDRESS_LENGTH) as"
  shows "for_each (map JStr as) add_address bs = Inr (bs @ as)"
  using assms
proof (induction as arbitrary: bs)
  case (Cons a as)
  then have "add_address (JStr a) bs = Inr (bs @ [a])"
    by (simp add: add_address_def text_value_valid)
  with Cons.IH [of "bs @ [a]"] Cons.prems show ?case by simp
qed simp

lemma device_id_chars:
  assumes "device_id_matches s" "c \<in> set s"
  shows "base32_char c \<or> c = CHR ''-''"
proof -
  have "set s \<subseteq> set ''-'' \<union> (\<Union>p \<in> set (py_split (CHR ''-'') s). set p)"
    using py_join_chars [of "''-''" "py_split (CHR ''-'') s"] by (simp add: py_join_split)
  then show ?thesis using assms by (fastforce simp: device_id_matches_def Let_def list_all_iff)
qed

lemma py_join_length:
  assumes "\<And>p. p \<in> set ps \<Longrightarrow> length p = n" "ps \<noteq> []"
  shows "length (py_join [c] ps) + 1 = length ps * (n + 1)"
  using assms by (induction "[c]" ps rule: py_join.induct) (auto simp: algebra_simps)

lemma device_id_length:
  assumes "device_id_matches s"
  shows "length s = 63"
proof -
  have "length (py_join ''-'' (py_split (CHR ''-'') s)) + 1 = length (py_split (CHR ''-'') s) * (7 + 1)"
    by (rule py_join_length) (use assms in \<open>auto simp: device_id_matches_def Let_def list_all_iff\<close>)
  then show ?thesis using assms by (simp add: py_join_split device_id_matches_def Let_def)
qed

lemma base32_facts:
  assumes "base32_char c \<or> c = CHR ''-''"
  shows "upper_char c = c" "\<not> is_space c" "\<not> is_control c"
  using assms
  by (auto simp: base32_char_def upper_char_def is_upper_def is_lower_def is_space_def is_control_def)

lemma device_id_text:
  assumes "device_id_matches s"
  shows "valid_text 128 s" "py_upper s = s"
proof -
  have len: "length s = 63" using assms by (rule device_id_length)
  have c: "base32_char x \<or> x = CHR ''-''" if "x \<in> set s" for x using assms that by (rule device_id_chars)
  show "py_upper s = s" unfolding py_upper_def by (rule map_idI) (use c base32_facts in blast)
  have "s \<noteq> []" using len by auto
  moreover have "py_strip s = s"
    using \<open>s \<noteq> []\<close> c base32_facts(2) by (intro py_strip_id) auto
  moreover have "py_len s \<le> 128"
    using len length_filter_le [of "\<lambda>c. \<not> (128 \<le> code c \<and> code c < 192)" s] unfolding py_len_def by linarith
  moreover have "\<not> list_ex is_control s" using c base32_facts(3) by (auto simp: list_ex_iff)
  ultimately show "valid_text 128 s" by (simp add: valid_text_def)
qed

lemma device_of_dict_again:
  assumes "valid_device dev"
  shows "normalize_device loads (device_json dev) = Inr dev"
proof -
  note v = assms [unfolded valid_device_def]
  have "for_each (map JStr (addresses dev)) add_address [] = Inr (addresses dev)"
    using add_addresses_again [of "[]" "addresses dev"] v by simp
  moreover have "text_value (JStr (deviceID dev)) 128 = Inr (deviceID dev)" "py_upper (deviceID dev) = deviceID dev"
    using v device_id_text text_value_valid by blast+
  moreover have "device_name dev \<noteq> []" "text_value (JStr (device_name dev)) MAX_DEVICE_NAME = Inr (device_name dev)"
    using v text_value_valid by (auto simp: valid_text_def)
  ultimately show ?thesis
    using v by (simp add: normalize_device_def device_json_def device_of_dict_def raw_device_id_def raw_name_def
        raw_addresses_def)
qed

section \<open>Properties\<close>

text \<open>Distinct ids while the list of devices is built.\<close>

lemma add_device_loop:
  assumes "for_each xs (add_device loads) (out, seen) = Inr (out', seen')"
    and "distinct (map deviceID out)" "seen = set (map deviceID out)" "list_all valid_device out"
  shows "distinct (map deviceID out') \<and> list_all valid_device out' \<and> length out' = length out + length xs"
  using assms
proof (induction xs arbitrary: out seen)
  case (Cons x xs)
  obtain mid where mid: "add_device loads x (out, seen) = Inr mid" "for_each xs (add_device loads) mid = Inr (out', seen')"
    using Cons.prems(1) by (auto simp: and_then_Inr_iff)
  from mid(1) obtain dev where dev: "normalize_device loads x = Inr dev" "deviceID dev \<notin> seen"
      "mid = (out @ [dev], insert (deviceID dev) seen)"
    by (auto simp: add_device_def and_then_Inr_iff split: if_split_asm)
  note rest = mid(2) [unfolded dev(3)]
  have "valid_device dev" using dev(1) by (rule normalize_device_dict) (rule device_of_dict_valid)
  with Cons.IH [OF rest] dev(2) Cons.prems(2-4) show ?case by simp
qed auto

text \<open>
  The devices of a user that pass validation are all well formed (an eight-group base32 id,
  a trimmed name, one to 32 distinct trimmed addresses, no automatic folders), have
  different ids, and are at most as many as the configured limit.
\<close>

theorem normalize_devices_valid:
  assumes "normalize_devices max_devices loads values = Inr ds"
  shows "list_all valid_device ds \<and> distinct (map deviceID ds) \<and> length ds \<le> max_devices"
proof -
  obtain vs out seen where len: "length vs \<le> max_devices"
    and loop: "for_each vs (add_device loads) ([], {}) = Inr (out, seen)" and ds: "ds = device_order out"
    using assms by (auto simp: normalize_devices_def and_then_Inr_iff not_less split: if_split_asm)
  have "mset ds = mset out" by (simp add: ds device_order_def)
  then have "length ds = length out" "list_all valid_device ds = list_all valid_device out"
    "distinct (map deviceID ds) = distinct (map deviceID out)"
    by (metis size_mset, metis list_all_iff set_mset_mset, metis mset_map mset_eq_imp_distinct_iff)
  with add_device_loop [OF loop] len show ?thesis by simp
qed

definition sample_device :: device where
  "sample_device = \<lparr>deviceID = ''ABCDEF2-ABCDEF2-ABCDEF2-ABCDEF2-ABCDEF2-ABCDEF2-ABCDEF2-ABCDEF2'',
     device_name = ''phone'', addresses = [''dynamic''], autoAcceptFolders = False\<rparr>"

theorem normalize_devices_valid_witness:
  "normalize_devices 32 (\<lambda>_. None) [device_json sample_device] = Inr [sample_device] \<and>
   list_all valid_device [sample_device]"
proof -
  have n: "normalize_devices 32 (\<lambda>_. None) [device_json sample_device] = Inr [sample_device]" by code_simp
  from normalize_devices_valid [OF n] n show ?thesis by simp
qed

text \<open>
  Normalization of a device is stable: writing a normalized device back as an attribute
  value and normalizing it again gives the same device.
\<close>

theorem normalize_device_stable:
  assumes "normalize_device loads raw = Inr dev"
  shows "normalize_device loads' (device_json dev) = Inr dev"
  using assms by (rule normalize_device_dict) (rule device_of_dict_again, rule device_of_dict_valid)

theorem normalize_device_stable_witness:
  "normalize_device (\<lambda>_. None) (device_json (sample_device\<lparr>device_name := ''ABCDEF2''\<rparr>)) = Inr (sample_device\<lparr>device_name := ''ABCDEF2''\<rparr>)"
proof -
  have "normalize_device (\<lambda>_. None)
      (JObj [(''id'', JStr ''abcdef2-abcdef2-abcdef2-abcdef2-abcdef2-abcdef2-abcdef2-abcdef2'')]) =
      Inr (sample_device\<lparr>device_name := ''ABCDEF2''\<rparr>)" by code_simp
  then show ?thesis by (rule normalize_device_stable)
qed

end
