(* ===== verification/Identity_Model.thy ===== *)
theory Identity_Model
  imports Syncthing_Devices Posix_Path Claim_Registry
begin

text \<open>
  The identity model that the reconciler derives from Authentik
  (\<open>services/nas_identity_model.py\<close>): users, groups and administrators from the raw API
  objects, the desired Syncthing configuration, and the normal form of an account plan. Sets
  of group names are sets; \<open>sorted\<close> of a set is \<^const>\<open>sorted_list_of_set\<close>. The Syncthing
  capability in force, a call of \<open>resolve_v2_service_capability\<close>, is the argument
  \<open>resolved\<close>.
\<close>

section \<open>Data\<close>

record user =
  uid :: string
  email :: string
  display_name :: string
  user_groups :: "string set"
  user_attrs :: "(string, json list) dict"

record group =
  gid :: string
  group_name :: string
  members :: "string list"
  group_attrs :: "(string, json list) dict"

record identity_model =
  users :: "user list"
  groups :: "group list"
  administrators :: "string list"

definition enabled :: "identity_config \<Rightarrow> user \<Rightarrow> bool" where
  "enabled cfg u \<longleftrightarrow> DISABLED_GROUP cfg \<notin> user_groups u"

definition personal_sync ::
  "identity_config \<Rightarrow> (string \<times> string) option res \<Rightarrow> user \<Rightarrow> bool res" where
  "personal_sync cfg resolved u =
     and_then resolved (\<lambda>r. case r of
        None \<Rightarrow> Inr False
      | Some (service, capability) \<Rightarrow> application_capability_allowed cfg (user_groups u) service capability True)"

section \<open>Reading raw objects\<close>

definition as_values :: "json \<Rightarrow> json list" where
  "as_values v = (case v of JList xs \<Rightarrow> xs | _ \<Rightarrow> [v])"

definition attrs_map :: "json \<Rightarrow> (string, json list) dict" where
  "attrs_map raw = (case raw of JObj d \<Rightarrow> fold (\<lambda>(name, v). dict_set name (as_values v)) d [] | _ \<Rightarrow> [])"

definition validate_uid :: "string \<Rightarrow> string res" where
  "validate_uid s = (if username_matches s then Inr s else Inl (SyncError ''unsafe username''))"

text \<open>\<open>raw.get(a) if isinstance(raw.get(a), list) else raw.get(b)\<close>, when that is a list.\<close>

definition list_of :: "json \<Rightarrow> string \<Rightarrow> string \<Rightarrow> json list option" where
  "list_of raw a b =
     (case soft_get raw a of
        JList xs \<Rightarrow> Some xs
      | _ \<Rightarrow> (case soft_get raw b of JList xs \<Rightarrow> Some xs | _ \<Rightarrow> None))"

text \<open>\<open>raw.get(a, raw.get(b))\<close>.\<close>

definition get2 :: "json \<Rightarrow> string \<Rightarrow> string \<Rightarrow> json" where
  "get2 raw a b = (case raw of JObj d \<Rightarrow> (case dict_get d a of Some v \<Rightarrow> v | None \<Rightarrow> soft_get raw b) | _ \<Rightarrow> JNull)"

definition or_text :: "json \<Rightarrow> string \<Rightarrow> string" where
  "or_text v dflt = (if truthy v then py_str v else dflt)"

definition add_group_name :: "(string, string) dict \<Rightarrow> json \<Rightarrow> string set \<Rightarrow> string set" where
  "add_group_name groups_by_pk g output =
     (let by_pk = (\<lambda>pk. case dict_get groups_by_pk pk of Some n \<Rightarrow> insert n output | None \<Rightarrow> output)
      in case g of
           JObj _ \<Rightarrow>
             (case soft_get g ''name'' of
                JStr n \<Rightarrow> insert n output
              | _ \<Rightarrow> (case get2 g ''pk'' ''num_pk'' of JNull \<Rightarrow> output | pk \<Rightarrow> by_pk (py_str pk)))
         | _ \<Rightarrow> by_pk (py_str g))"

definition group_names :: "json \<Rightarrow> (string, string) dict \<Rightarrow> string set" where
  "group_names raw groups_by_pk =
     (case list_of raw ''groups_obj'' ''groups'' of
        None \<Rightarrow> {}
      | Some gs \<Rightarrow> fold (add_group_name groups_by_pk) gs {})"

definition eligible_administrator :: "identity_config \<Rightarrow> user \<Rightarrow> bool" where
  "eligible_administrator cfg u \<longleftrightarrow> enabled cfg u \<and> (case validate_uid (uid u) of Inr _ \<Rightarrow> True | Inl _ \<Rightarrow> False)"

section \<open>Building the model\<close>

text \<open>\<open>{str(pk): str(item[field]) ...}\<close> over the items with a primary key and a text field.\<close>

definition by_pk :: "string \<Rightarrow> json list \<Rightarrow> (string, string) dict" where
  "by_pk field items =
     fold (\<lambda>item d. case (soft_get item ''pk'', soft_get item field) of
         (JNull, _) \<Rightarrow> d
       | (pk, JStr s) \<Rightarrow> dict_set (py_str pk) s d
       | _ \<Rightarrow> d) items []"

text \<open>The user name that a member entry of a group refers to.\<close>

definition member_username :: "(string, string) dict \<Rightarrow> json \<Rightarrow> string option" where
  "member_username usernames_by_pk member =
     (case member of
        JObj _ \<Rightarrow>
          (case soft_get member ''username'' of
             JStr s \<Rightarrow> Some s
           | _ \<Rightarrow> dict_get usernames_by_pk (py_str (get2 member ''pk'' ''num_pk'')))
      | _ \<Rightarrow> dict_get usernames_by_pk (py_str member))"

definition explicit_groups :: "(string, string) dict \<Rightarrow> json list \<Rightarrow> string \<Rightarrow> string set" where
  "explicit_groups usernames_by_pk raw_groups username =
     set (concat (map (\<lambda>g. case (soft_get g ''name'', list_of g ''users_obj'' ''users'') of
         (JStr name, Some ms) \<Rightarrow> if Some username \<in> set (map (member_username usernames_by_pk) ms) then [name] else []
       | _ \<Rightarrow> []) raw_groups))"

definition build_user ::
  "identity_config \<Rightarrow> (string, string) dict \<Rightarrow> (string \<Rightarrow> string set) \<Rightarrow> json \<Rightarrow> user list" where
  "build_user cfg groups_by_pk explicit raw =
     (case soft_get raw ''username'' of
        JStr username \<Rightarrow>
          (case validate_uid username of
             Inl _ \<Rightarrow>
               [\<lparr>uid = username, email = or_text (soft_get raw ''email'') (username @ ''@invalid.local''),
                 display_name = or_text (soft_get raw ''name'') username,
                 user_groups = insert (DISABLED_GROUP cfg) (group_names raw groups_by_pk),
                 user_attrs = attrs_map (soft_get raw ''attributes'')\<rparr>]
           | Inr name \<Rightarrow>
               let gs = group_names raw groups_by_pk \<union> explicit name;
                   u = \<lparr>uid = name, email = or_text (soft_get raw ''email'') (name @ ''@invalid.local''),
                     display_name = or_text (soft_get raw ''name'') name,
                     user_groups = (if soft_get raw ''is_active'' \<noteq> JBool True then insert (DISABLED_GROUP cfg) gs else gs),
                     user_attrs = attrs_map (soft_get raw ''attributes'')\<rparr>
               in if enabled cfg u then [u] else [])
      | _ \<Rightarrow> [])"

definition listed_members :: "(string, string) dict \<Rightarrow> string list \<Rightarrow> json \<Rightarrow> string list" where
  "listed_members usernames_by_pk known raw =
     (case list_of raw ''users_obj'' ''users'' of
        None \<Rightarrow> []
      | Some ms \<Rightarrow> concat (map (\<lambda>m. case member_username usernames_by_pk m of
           Some n \<Rightarrow> if n \<in> set known then [n] else [] | None \<Rightarrow> []) ms))"

definition build_group :: "(string, string) dict \<Rightarrow> user list \<Rightarrow> json \<Rightarrow> group list" where
  "build_group usernames_by_pk us raw =
     (let name = or_text (soft_get raw ''name'') []
      in if name = [] then []
         else let inferred = set (map uid (filter (\<lambda>u. name \<in> user_groups u) us));
                  listed = set (listed_members usernames_by_pk (map uid us) raw)
           in [\<lparr>gid = or_text (soft_get raw ''pk'') name, group_name = name,
                members = sorted_list_of_set (inferred \<union> listed),
                group_attrs = attrs_map (soft_get raw ''attributes'')\<rparr>])"

definition model_administrators :: "identity_config \<Rightarrow> user list \<Rightarrow> string list" where
  "model_administrators cfg us =
     sort (map uid (filter (\<lambda>u. ADMIN_GROUP cfg \<in> user_groups u \<and> eligible_administrator cfg u) us))"

definition build_model :: "identity_config \<Rightarrow> json \<Rightarrow> identity_model res" where
  "build_model cfg data =
     and_then (get_or data ''groups'' (JList [])) (\<lambda>gs.
     and_then (iter gs) (\<lambda>all_groups.
     and_then (get_or data ''users'' (JList [])) (\<lambda>us.
     and_then (iter us) (\<lambda>all_users.
     let raw_groups = filter is_obj all_groups;
         raw_users = filter is_obj all_users;
         groups_by_pk = by_pk ''name'' raw_groups;
         usernames_by_pk = by_pk ''username'' raw_users;
         us = concat (map (build_user cfg groups_by_pk (explicit_groups usernames_by_pk raw_groups)) raw_users);
         gs = concat (map (build_group usernames_by_pk us) raw_groups);
         admins = model_administrators cfg us
     in if admins = [] then Inl (SyncError ''no enabled administrator'')
        else Inr \<lparr>users = sort_key uid us, groups = sort_key group_name gs, administrators = admins\<rparr>))))"

section \<open>Reports and desired state\<close>

definition APPLICATION_GROUP_PREFIX :: string where
  "APPLICATION_GROUP_PREFIX = ''application.''"

definition user_report :: "identity_config \<Rightarrow> user \<Rightarrow> json" where
  "user_report cfg u =
     (let assigned = sorted_list_of_set (Set.filter (\<lambda>g. starts_with g APPLICATION_GROUP_PREFIX) (user_groups u));
          is_administrator = (ADMIN_GROUP cfg \<in> user_groups u \<and> eligible_administrator cfg u)
      in JObj [(''id'', JStr (uid u)), (''displayName'', JStr (display_name u)), (''email'', JStr (email u)),
           (''administrator'', JBool is_administrator), (''administratorBypass'', JBool is_administrator),
           (''groups'', JList (map JStr (sorted_list_of_set (user_groups u)))),
           (''capabilities'', JObj (map (\<lambda>g. (g, JObj [(''allowed'', JBool True),
              (''source'', JStr ''authentik-assignment'')])) assigned)),
           (''assignedApplicationCapabilities'', JList (map JStr assigned))])"

definition capability_status :: "identity_config \<Rightarrow> identity_model \<Rightarrow> json" where
  "capability_status cfg model =
     JObj [(''identityProvider'', JStr ''Authentik''), (''capabilityModel'', JStr ''managed-services-v2''),
       (''managementUrl'', JStr ''/identity/if/user/''), (''users'', JList (map (user_report cfg) (users model)))]"

definition user_device_values :: "user \<Rightarrow> json list" where
  "user_device_values u =
     (case dict_get (user_attrs u) ''nasSyncthingDevices'' of
        Some vs \<Rightarrow> vs
      | None \<Rightarrow> (case dict_get (user_attrs u) ''nasSyncthingDevice'' of Some vs \<Rightarrow> vs | None \<Rightarrow> []))"

definition folder_id :: "user \<Rightarrow> string" where
  "folder_id u = ''nas-'' @ uid u @ ''-backup''"

definition folder_path :: "pure_path \<Rightarrow> user \<Rightarrow> pure_path" where
  "folder_path share_root u = path_join (path_join (path_join share_root ''users'') (uid u)) ''syncthing''"

definition folder_json :: "pure_path \<Rightarrow> user \<Rightarrow> device list \<Rightarrow> json" where
  "folder_json share_root u ds =
     JObj [(''id'', JStr (folder_id u)), (''label'', JStr (display_name u @ '' Backup'')),
       (''path'', JStr (path_str (folder_path share_root u))), (''type'', JStr ''receiveonly''),
       (''devices'', JList (map (\<lambda>d. JObj [(''deviceID'', JStr (deviceID d))]) ds)),
       (''ignorePerms'', JBool True), (''fsWatcherEnabled'', JBool True), (''rescanIntervalS'', JInt 3600),
       (''pullerMaxPendingKiB'', JInt 16384), (''scanProgressIntervalS'', JInt (- 1)),
       (''versioning'', JObj [(''type'', JStr ''staggered''),
          (''params'', JObj [(''cleanInterval'', JStr ''3600''), (''maxAge'', JStr ''31536000'')])])]"

text \<open>The state of the loop of \<open>desired_syncthing\<close>.\<close>

record sync_state =
  sync_devices :: "(string, device) dict"
  device_owners :: "(string, string) dict"
  sync_folders :: "(string, json) dict"

definition claim_device :: "user \<Rightarrow> device \<Rightarrow> sync_state \<Rightarrow> sync_state res" where
  "claim_device u dev st =
     (case dict_get (sync_devices st) (deviceID dev) of
        Some existing \<Rightarrow>
          if existing \<noteq> dev then Inl (SyncError ''conflicting definitions'') else Inl (SyncError ''claimed by multiple users'')
      | None \<Rightarrow> Inr (st\<lparr>sync_devices := dict_set (deviceID dev) dev (sync_devices st),
           device_owners := dict_set (deviceID dev) (uid u) (device_owners st)\<rparr>))"

definition sync_user ::
  "identity_config \<Rightarrow> (string \<times> string) option res \<Rightarrow> nat \<Rightarrow> (string \<Rightarrow> json option) \<Rightarrow> pure_path
     \<Rightarrow> user \<Rightarrow> sync_state \<Rightarrow> sync_state res" where
  "sync_user cfg resolved max_devices loads share_root u st =
     and_then (personal_sync cfg resolved u) (\<lambda>sync.
       if \<not> sync then Inr st
       else (case normalize_devices max_devices loads (user_device_values u) of
               Inl e \<Rightarrow> Inl (case e of DeviceError _ \<Rightarrow> SyncError ''invalid devices'' | _ \<Rightarrow> e)
             | Inr ds \<Rightarrow>
                 if ds = [] then Inr st
                 else and_then (for_each ds (claim_device u) st) (\<lambda>st.
                   Inr (st\<lparr>sync_folders := dict_set (folder_id u) (folder_json share_root u ds) (sync_folders st)\<rparr>))))"

definition empty_sync :: sync_state where
  "empty_sync = \<lparr>sync_devices = [], device_owners = [], sync_folders = []\<rparr>"

definition desired_syncthing ::
  "identity_config \<Rightarrow> (string \<times> string) option res \<Rightarrow> nat \<Rightarrow> (string \<Rightarrow> json option) \<Rightarrow> pure_path
     \<Rightarrow> identity_model \<Rightarrow> sync_state res" where
  "desired_syncthing cfg resolved max_devices loads share_root model =
     for_each (users model) (sync_user cfg resolved max_devices loads share_root) empty_sync"

definition model_status :: "identity_config \<Rightarrow> (string \<times> string) option res \<Rightarrow> identity_model \<Rightarrow> json res" where
  "model_status cfg resolved model =
     and_then (map_res (\<lambda>u. and_then (personal_sync cfg resolved u) (\<lambda>sync.
         Inr (if sync \<and> user_device_values u \<noteq> [] then [JStr (uid u)] else []))) (users model)) (\<lambda>sync_users.
     Inr (JObj [(''identityProvider'', JStr ''Authentik''), (''shareAuthority'', JStr ''CopyParty''),
       (''capabilityModel'', JStr ''managed-services-v2''),
       (''users'', JList (map (\<lambda>u. JStr (uid u)) (users model))),
       (''groups'', JList (map (\<lambda>g. JStr (group_name g)) (groups model))),
       (''administrators'', JList (map JStr (administrators model))),
       (''syncthingUsers'', JList (concat sync_users))]))"

section \<open>Account plans\<close>

record account_plan =
  plan_username :: string
  plan_name :: string
  plan_email :: string
  plan_active :: bool
  plan_groups :: "string list"
  plan_attributes :: json_dict
  plan_password :: "string option"

definition plan_fields :: "string list" where
  "plan_fields = [''username'', ''name'', ''email'', ''active'', ''groups'', ''attributes'', ''password'']"

definition dict_get_or :: "json_dict \<Rightarrow> string \<Rightarrow> json \<Rightarrow> json" where
  "dict_get_or d k dflt = (case dict_get d k of Some v \<Rightarrow> v | None \<Rightarrow> dflt)"

definition plan_text :: "string \<Rightarrow> json \<Rightarrow> string res" where
  "plan_text label v =
     (case v of
        JStr s \<Rightarrow> if py_strip s = [] then Inl (SyncError label) else Inr (py_strip s)
      | _ \<Rightarrow> Inl (SyncError label))"

definition plan_roles :: "identity_config \<Rightarrow> bool \<Rightarrow> json \<Rightarrow> string set res" where
  "plan_roles cfg active raw =
     (case raw of
        JList xs \<Rightarrow>
          (case map_res as_str xs of
             Inl _ \<Rightarrow> Inl (SyncError ''groups'')
           | Inr names \<Rightarrow>
               (let gs = set (filter (\<lambda>s. s \<noteq> []) (map py_strip names))
                in if \<not> gs \<subseteq> RESERVED_GROUPS cfg then Inl (SyncError ''non-role group'')
                   else if active then
                     (let kept = gs - {DISABLED_GROUP cfg}
                      in Inr (if ADMIN_GROUP cfg \<notin> kept \<and> GUEST_GROUP cfg \<notin> kept then insert (USER_GROUP cfg) kept else kept))
                   else if ADMIN_GROUP cfg \<in> gs then Inl (SyncError ''disable administrator'')
                   else Inr {DISABLED_GROUP cfg}))
      | _ \<Rightarrow> Inl (SyncError ''groups''))"

definition plan_secret :: "json \<Rightarrow> string option res" where
  "plan_secret v =
     (case v of
        JNull \<Rightarrow> Inr None
      | JStr s \<Rightarrow>
          if s = [] \<or> py_len s > 4096 \<or> list_ex (\<lambda>c. code c \<in> {0, 10, 13}) s
          then Inl (SyncError ''password'') else Inr (Some s)
      | _ \<Rightarrow> Inl (SyncError ''password''))"

definition normalized_account_plan :: "identity_config \<Rightarrow> json \<Rightarrow> account_plan res" where
  "normalized_account_plan cfg raw =
     and_then (expect_obj (SyncError ''must be an object'') raw) (\<lambda>d.
     if list_ex (\<lambda>k. k \<notin> set plan_fields) (map fst d) then Inl (SyncError ''unknown field'') else
     and_then (expect_str (SyncError ''username'') (dict_get_or d ''username'' JNull)) (\<lambda>username_raw.
     and_then (validate_uid username_raw) (\<lambda>username.
     if username = ''akadmin'' then Inl (SyncError ''akadmin'') else
     and_then (plan_text ''name'' (dict_get_or d ''name'' (JStr username))) (\<lambda>name.
     and_then (plan_text ''email'' (dict_get_or d ''email'' (JStr (username @ ''@invalid.local'')))) (\<lambda>email.
     and_then (expect_bool (SyncError ''active'') (dict_get_or d ''active'' (JBool True))) (\<lambda>active.
     and_then (plan_roles cfg active (dict_get_or d ''groups'' (JList [JStr (USER_GROUP cfg)]))) (\<lambda>roles.
     and_then (expect_obj (SyncError ''attributes'') (dict_get_or d ''attributes'' JEmpty)) (\<lambda>attrs.
     and_then (plan_secret (dict_get_or d ''password'' JNull)) (\<lambda>password.
     Inr \<lparr>plan_username = username, plan_name = name, plan_email = email, plan_active = active,
       plan_groups = sorted_list_of_set roles, plan_attributes = attrs, plan_password = password\<rparr>)))))))))"

section \<open>Administrators of a live directory\<close>

definition raw_group_pks :: "json \<Rightarrow> string set" where
  "raw_group_pks raw_user =
     (case soft_get raw_user ''groups'' of
        JList gs \<Rightarrow> set (concat (map (\<lambda>g.
          case (if is_obj g then get2 g ''pk'' ''num_pk'' else g) of JNull \<Rightarrow> [] | key \<Rightarrow> [py_str key]) gs))
      | _ \<Rightarrow> {})"

definition digits_value :: "string \<Rightarrow> int" where
  "digits_value s = foldl (\<lambda>n c. 10 * n + int (code c - 48)) 0 s"

text \<open>CPython refuses to convert more than 4300 digits.\<close>

definition user_detail_pk :: "json \<Rightarrow> int res" where
  "user_detail_pk raw_user =
     (case get2 raw_user ''num_pk'' ''pk'' of
        JInt i \<Rightarrow> Inr i
      | JBool b \<Rightarrow> Inr (if b then 1 else 0)
      | JStr s \<Rightarrow>
          if s \<noteq> [] \<and> list_all is_digit s
          then (if length s > 4300 then Inl (ValueError ''int'') else Inr (digits_value s))
          else Inl (SyncError ''no numeric primary key'')
      | _ \<Rightarrow> Inl (SyncError ''no numeric primary key''))"

definition active_username :: "json \<Rightarrow> string option" where
  "active_username x =
     (case soft_get x ''username'' of
        JStr s \<Rightarrow> if soft_get x ''is_active'' = JBool True \<and> username_matches s then Some s else None
      | _ \<Rightarrow> None)"

definition add_active :: "json \<Rightarrow> (string, string) dict \<Rightarrow> (string, string) dict" where
  "add_active x d =
     (let pk = get2 x ''pk'' ''num_pk''
      in case active_username x of
           Some s \<Rightarrow> if pk = JNull then d else dict_set (py_str pk) s d
         | None \<Rightarrow> d)"

definition active_by_pk :: "json list \<Rightarrow> (string, string) dict" where
  "active_by_pk raw_users = fold add_active raw_users []"

definition enabled_administrator_names :: "identity_config \<Rightarrow> json list \<Rightarrow> json list \<Rightarrow> string set" where
  "enabled_administrator_names cfg raw_users raw_groups =
     (let usernames_by_pk = active_by_pk raw_users;
          active_names = map snd usernames_by_pk
      in case find (\<lambda>g. soft_get g ''name'' = JStr (ADMIN_GROUP cfg)) raw_groups of
           None \<Rightarrow> {}
         | Some admin_group \<Rightarrow>
             (let by_group = (case soft_get admin_group ''pk'' of
                    JNull \<Rightarrow> {}
                  | pk \<Rightarrow> set (concat (map (\<lambda>u. case active_username u of
                        Some s \<Rightarrow> if py_str pk \<in> raw_group_pks u then [s] else [] | None \<Rightarrow> []) raw_users)));
                  listed = set (listed_members usernames_by_pk active_names admin_group)
              in by_group \<union> listed))"

section \<open>Users, groups and administrators\<close>

lemma validate_uid_Inr_iff [res_simps]: "validate_uid s = Inr t \<longleftrightarrow> t = s \<and> username_matches s"
  by (auto simp: validate_uid_def)

text \<open>An account of the model is enabled exactly when its name is safe.\<close>

lemma build_user_enabled:
  assumes "u \<in> set (build_user cfg groups_by_pk explicit raw)"
  shows "enabled cfg u \<longleftrightarrow> username_matches (uid u)"
  using assms
  by (auto simp: build_user_def validate_uid_def enabled_def Let_def split: json.split_asm if_split_asm)

lemma eligible_iff: "eligible_administrator cfg u \<longleftrightarrow> enabled cfg u \<and> username_matches (uid u)"
  by (auto simp: eligible_administrator_def validate_uid_def)

lemma listed_members_known: "set (listed_members usernames_by_pk known raw) \<subseteq> set known"
  by (auto simp: listed_members_def split: option.split_asm if_split_asm)

lemma build_group_members:
  assumes "g \<in> set (build_group usernames_by_pk us raw)"
  shows "set (members g) \<subseteq> set (map uid us)"
    "u \<in> set us \<Longrightarrow> group_name g \<in> user_groups u \<Longrightarrow> uid u \<in> set (members g)"
proof -
  have m: "set (members g) = set (map uid (filter (\<lambda>u. group_name g \<in> user_groups u) us)) \<union>
      set (listed_members usernames_by_pk (map uid us) raw)"
    using assms by (auto simp: build_group_def Let_def split: if_split_asm)
  then show "set (members g) \<subseteq> set (map uid us)" using listed_members_known [of usernames_by_pk "map uid us" raw] by auto
  show "u \<in> set us \<Longrightarrow> group_name g \<in> user_groups u \<Longrightarrow> uid u \<in> set (members g)" using m by auto
qed

lemma build_model_Inr:
  assumes "build_model cfg data = Inr m"
  obtains groups_by_pk usernames_by_pk explicit raw_users raw_groups us where
    "us = concat (map (build_user cfg groups_by_pk explicit) raw_users)"
    "users m = sort_key uid us"
    "groups m = sort_key group_name (concat (map (build_group usernames_by_pk us) raw_groups))"
    "administrators m = model_administrators cfg us" "administrators m \<noteq> []"
  using assms by (auto simp: build_model_def Let_def and_then_Inr_iff split: if_split_asm)

section \<open>Devices and folders\<close>

text \<open>The devices that a user contributes to the desired state.\<close>

definition synced_devices ::
  "identity_config \<Rightarrow> (string \<times> string) option res \<Rightarrow> nat \<Rightarrow> (string \<Rightarrow> json option) \<Rightarrow> user \<Rightarrow> device list" where
  "synced_devices cfg resolved max_devices loads u =
     (if personal_sync cfg resolved u = Inr True
      then (case normalize_devices max_devices loads (user_device_values u) of Inr ds \<Rightarrow> ds | Inl _ \<Rightarrow> [])
      else [])"

lemma claim_device_admits:
  assumes "claim_device u dev st = Inr st'"
  shows "(\<forall>k' \<in> set (map fst (sync_devices st)). distinct_from k' (deviceID dev)) \<and>
    map fst (sync_devices st') = map fst (sync_devices st) @ [deviceID dev]"
proof -
  have "dict_get (sync_devices st) (deviceID dev) = None"
    and st': "sync_devices st' = dict_set (deviceID dev) dev (sync_devices st)"
    using assms by (auto simp: claim_device_def split: option.splits if_splits)
  from this(1) show ?thesis
    unfolding st' by (auto simp: dict_set_new_keys distinct_from_def map_of_eq_None_iff image_iff)
qed

interpretation device_claims: claim_registry
  "\<lambda>st. map fst (sync_devices st)" "\<lambda>k owner. claim_device (fst owner) ((snd owner)\<lparr>deviceID := k\<rparr>)" distinct_from
proof unfold_locales
  fix k owner st st'
  assume "claim_device (fst owner) ((snd owner)\<lparr>deviceID := k\<rparr>) st = Inr st'"
  from claim_device_admits [OF this]
  show "(\<forall>k' \<in> set (map fst (sync_devices st)). distinct_from k' k) \<and>
      map fst (sync_devices st') = map fst (sync_devices st) @ [k]" by simp
qed

lemma claim_device_claimed: "claim_device u dev st = Inr st' \<Longrightarrow> device_claims.claimed st [deviceID dev] st'"
  using device_claims.claimed_one [where k = "deviceID dev" and owner = "(u, dev)"] by simp

lemma sync_user_cases:
  assumes "sync_user cfg resolved max_devices loads share_root u st = Inr st'"
  obtains "synced_devices cfg resolved max_devices loads u = []" "st' = st"
  | ds mid where "synced_devices cfg resolved max_devices loads u = ds" "ds \<noteq> []"
      "personal_sync cfg resolved u = Inr True" "for_each ds (claim_device u) st = Inr mid"
      "st' = mid\<lparr>sync_folders := dict_set (folder_id u) (folder_json share_root u ds) (sync_folders mid)\<rparr>"
  using assms
  by (auto simp: sync_user_def synced_devices_def and_then_Inr_iff split: if_split_asm sum.split_asm)

lemma sync_user_claimed:
  assumes "sync_user cfg resolved max_devices loads share_root u st = Inr st'"
  shows "device_claims.claimed st (map deviceID (synced_devices cfg resolved max_devices loads u)) st'"
  using assms
proof (cases rule: sync_user_cases)
  case (2 ds mid)
  have "device_claims.claimed st (concat (map (\<lambda>d. [deviceID d]) ds)) mid"
    using 2(4) by (rule device_claims.claimed_loop) (rule claim_device_claimed)
  moreover have "concat (map (\<lambda>d. [deviceID d]) ds) = map deviceID ds" by (induction ds) auto
  moreover have "sync_devices st' = sync_devices mid" using 2(5) by simp
  ultimately show ?thesis using 2(1) by (metis device_claims.claimed_def)
qed (simp add: device_claims.claimed_none)

lemma claim_device_folders: "claim_device u dev st = Inr st' \<Longrightarrow> sync_folders st' = sync_folders st"
  by (auto simp: claim_device_def split: option.splits if_splits)

lemma sync_user_folders:
  assumes "sync_user cfg resolved max_devices loads share_root u st = Inr st'"
    and "dict_get (sync_folders st') fid = Some f"
  shows "dict_get (sync_folders st) fid = Some f \<or>
    fid = folder_id u \<and> personal_sync cfg resolved u = Inr True \<and>
      f = folder_json share_root u (synced_devices cfg resolved max_devices loads u)"
  using assms(1)
proof (cases rule: sync_user_cases)
  case (2 ds mid)
  have "sync_folders mid = sync_folders st"
    using 2(4) by (rule for_each_frame) (rule claim_device_folders)
  with 2 assms(2) show ?thesis by (auto simp: dict_simps split: if_split_asm)
qed (use assms(2) in simp)

lemma desired_folders:
  assumes "desired_syncthing cfg resolved max_devices loads share_root model = Inr st"
    and "dict_get (sync_folders st) fid = Some f"
  shows "\<exists>u \<in> set (users model). fid = folder_id u \<and> personal_sync cfg resolved u = Inr True \<and>
      f = folder_json share_root u (synced_devices cfg resolved max_devices loads u)"
proof -
  let ?P = "\<lambda>t. \<forall>f. dict_get (sync_folders t) fid = Some f \<longrightarrow>
    (\<exists>u \<in> set (users model). fid = folder_id u \<and> personal_sync cfg resolved u = Inr True \<and>
      f = folder_json share_root u (synced_devices cfg resolved max_devices loads u))"
  have "?P st"
    using assms(1) unfolding desired_syncthing_def
  proof (rule for_each_invariant)
    show "?P empty_sync" by (simp add: empty_sync_def)
  next
    fix u t t'
    assume "u \<in> set (users model)" "?P t" "sync_user cfg resolved max_devices loads share_root u t = Inr t'"
    then show "?P t'" using sync_user_folders by blast
  qed
  with assms(2) show ?thesis by blast
qed

lemma personal_sync_enabled: "personal_sync cfg resolved u = Inr True \<Longrightarrow> enabled cfg u"
  by (auto simp: personal_sync_def and_then_Inr_iff application_capability_allowed_def account_enabled_def
      enabled_def split: option.split_asm if_split_asm)

lemma safe_component:
  assumes "username_matches s"
  shows "pure_path s = PurePath [] [s]"
proof -
  obtain c cs where s: "s = c # cs" "is_lower c \<or> is_upper c \<or> is_digit c" "list_all username_char cs"
    using assms by (cases s) (auto simp: username_matches_def)
  then have c: "c \<noteq> CHR ''/''" "c \<noteq> CHR ''.''" by (auto simp: is_lower_def is_upper_def is_digit_def)
  moreover have "CHR ''/'' \<notin> set cs"
    using s(3) by (auto simp: list_all_iff username_char_def is_lower_def is_upper_def is_digit_def)
  ultimately have "CHR ''/'' \<notin> set s" using s(1) by auto
  then have "py_split (CHR ''/'') s = [s]" by (rule py_split_no_sep)
  with s(1) c show ?thesis by (simp add: pure_path_def split_root_def)
qed

lemma folder_path_safe:
  assumes "username_matches (uid u)"
  shows "folder_path root u = PurePath (path_root root) (path_tail root @ [''users'', uid u, ''syncthing''])"
proof -
  have "pure_path ''users'' = PurePath [] [''users'']" "pure_path ''syncthing'' = PurePath [] [''syncthing'']"
    by (rule safe_component; code_simp)+
  then show ?thesis using safe_component [OF assms] by (simp add: folder_path_def path_join_def)
qed

section \<open>Properties\<close>

definition sample_identity :: json where
  "sample_identity = JObj [
     (''groups'', JList [JObj [(''pk'', JStr ''g1''), (''name'', JStr ''nas_admin''), (''users'', JList [JInt 1])]]),
     (''users'', JList [
        JObj [(''pk'', JInt 1), (''username'', JStr ''alice''), (''is_active'', JBool True),
          (''attributes'', JObj [(''nasSyncthingDevices'', JList [device_json sample_device])])],
        JObj [(''pk'', JInt 2), (''username'', JStr ''../x''), (''is_active'', JBool True), (''groups'', JList [JStr ''g1''])]])]"

definition sample_model :: identity_model where
  "sample_model = \<lparr>
     users = [
       \<lparr>uid = ''../x'', email = ''../x@invalid.local'', display_name = ''../x'',
        user_groups = {''nas_admin'', ''nas_disabled''}, user_attrs = []\<rparr>,
       \<lparr>uid = ''alice'', email = ''alice@invalid.local'', display_name = ''alice'',
        user_groups = {''nas_admin''}, user_attrs = [(''nasSyncthingDevices'', [device_json sample_device])]\<rparr>],
     groups = [\<lparr>gid = ''g1'', group_name = ''nas_admin'', members = [''../x'', ''alice''], group_attrs = []\<rparr>],
     administrators = [''alice'']\<rparr>"

lemma sample_model_built: "build_model default_config sample_identity = Inr sample_model"
  by code_simp

text \<open>
  A model is built only when there is an enabled administrator, and its administrators are
  exactly the members of the administrator group that are enabled and have a safe name. An
  account with an unsafe name is reported but never enabled.
\<close>

theorem build_model_administrators:
  assumes "build_model cfg data = Inr m"
  shows "administrators m \<noteq> [] \<and>
    set (administrators m) = {uid u | u. u \<in> set (users m) \<and> ADMIN_GROUP cfg \<in> user_groups u \<and> enabled cfg u} \<and>
    (\<forall>u \<in> set (users m). enabled cfg u \<longleftrightarrow> username_matches (uid u))"
proof -
  obtain groups_by_pk explicit raw_users us where
    us: "us = concat (map (build_user cfg groups_by_pk explicit) raw_users)" "users m = sort_key uid us"
    and ad: "administrators m = model_administrators cfg us" "administrators m \<noteq> []"
    using assms by (rule build_model_Inr)
  have e: "\<forall>u \<in> set us. enabled cfg u \<longleftrightarrow> username_matches (uid u)"
    unfolding us(1) using build_user_enabled by auto
  then show ?thesis using ad us(2) by (auto simp: model_administrators_def eligible_iff)
qed

theorem build_model_administrators_witness:
  "administrators sample_model = [''alice''] \<and> map uid (users sample_model) = [''../x'', ''alice''] \<and>
   \<not> enabled default_config (hd (users sample_model))"
proof -
  have a: "administrators sample_model = [''alice'']" by (simp add: sample_model_def)
  have u: "map uid (users sample_model) = [''../x'', ''alice'']" by (simp add: sample_model_def)
  then have "hd (users sample_model) \<in> set (users sample_model)" "uid (hd (users sample_model)) = ''../x''"
    by (cases "users sample_model"; simp)+
  moreover have "\<not> username_matches ''../x''" by code_simp
  ultimately show ?thesis using build_model_administrators [OF sample_model_built] a u by fastforce
qed

text \<open>
  Group membership of the model is consistent: every member of a group is an account of the
  model, and every account that carries a group's name is one of its members.
\<close>

theorem build_model_groups:
  assumes "build_model cfg data = Inr m" "g \<in> set (groups m)"
  shows "set (members g) \<subseteq> uid ` set (users m) \<and>
    (\<forall>u \<in> set (users m). group_name g \<in> user_groups u \<longrightarrow> uid u \<in> set (members g))"
proof -
  obtain usernames_by_pk raw_groups us where us: "users m = sort_key uid us"
    and gs: "groups m = sort_key group_name (concat (map (build_group usernames_by_pk us) raw_groups))"
    using assms(1) by (rule build_model_Inr)
  from gs assms(2) obtain raw where "g \<in> set (build_group usernames_by_pk us raw)" by auto
  from build_group_members [OF this] us show ?thesis by auto
qed

theorem build_model_groups_witness: "set (members (hd (groups sample_model))) \<subseteq> uid ` set (users sample_model)"
proof -
  have "hd (groups sample_model) \<in> set (groups sample_model)" by (simp add: sample_model_def)
  from build_model_groups [OF sample_model_built this] show ?thesis by (rule conjunct1)
qed

text \<open>
  In the desired Syncthing state every device belongs to one user: the device ids of all
  synchronizing users are pairwise different, and the configured devices are exactly these.
\<close>

theorem desired_devices_exclusive:
  assumes "desired_syncthing cfg resolved max_devices loads share_root model = Inr st"
  shows "distinct (concat (map (\<lambda>u. map deviceID (synced_devices cfg resolved max_devices loads u)) (users model))) \<and>
    map fst (sync_devices st) = concat (map (\<lambda>u. map deviceID (synced_devices cfg resolved max_devices loads u)) (users model))"
proof -
  let ?ks = "concat (map (\<lambda>u. map deviceID (synced_devices cfg resolved max_devices loads u)) (users model))"
  have c: "device_claims.claimed empty_sync ?ks st"
    using assms unfolding desired_syncthing_def by (rule device_claims.claimed_loop) (rule sync_user_claimed)
  have "sorted_wrt distinct_from ?ks"
    by (rule device_claims.claimed_from_empty [OF c]) (simp add: empty_sync_def)
  moreover have "map fst (sync_devices st) = ?ks"
    using c by (simp add: device_claims.claimed_def empty_sync_def)
  ultimately show ?thesis by (simp add: distinct_from_sorted)
qed

definition sample_root :: pure_path where
  "sample_root = PurePath ''/'' [''srv'', ''share'']"

definition sample_sync :: sync_state where
  "sample_sync = projr (desired_syncthing default_config (Inr (Some (''syncthing'', ''access''))) 32 (\<lambda>_. None)
     sample_root sample_model)"

lemma sample_sync_ok:
  "desired_syncthing default_config (Inr (Some (''syncthing'', ''access''))) 32 (\<lambda>_. None) sample_root sample_model
     = Inr sample_sync"
  unfolding sample_sync_def by (rule right_result) code_simp

theorem desired_devices_exclusive_witness: "distinct (map fst (sync_devices sample_sync))"
  using desired_devices_exclusive [OF sample_sync_ok] by metis

text \<open>
  Every Syncthing folder of a built model belongs to an enabled account that holds the
  capability, and its path is \<open>users/<name>/syncthing\<close> below the share root, so no account
  name can lead out of the share root or into another account's directory.
\<close>

theorem desired_folders_contained:
  assumes "build_model cfg data = Inr model"
    and "desired_syncthing cfg resolved max_devices loads share_root model = Inr st"
    and "dict_get (sync_folders st) fid = Some f"
  shows "\<exists>u \<in> set (users model). fid = folder_id u \<and> enabled cfg u \<and> personal_sync cfg resolved u = Inr True \<and>
    item f ''path'' = Inr (JStr (path_str (PurePath (path_root share_root)
      (path_tail share_root @ [''users'', uid u, ''syncthing'']))))"
proof -
  obtain u where u: "u \<in> set (users model)" "fid = folder_id u" "personal_sync cfg resolved u = Inr True"
      "f = folder_json share_root u (synced_devices cfg resolved max_devices loads u)"
    using desired_folders [OF assms(2,3)] by blast
  have e: "enabled cfg u" using u(3) by (rule personal_sync_enabled)
  obtain groups_by_pk explicit raw_users us where
    "us = concat (map (build_user cfg groups_by_pk explicit) raw_users)" "users model = sort_key uid us"
    using assms(1) by (rule build_model_Inr)
  with u(1) have "enabled cfg u \<longleftrightarrow> username_matches (uid u)" using build_user_enabled by auto
  with e have "folder_path share_root u = PurePath (path_root share_root)
      (path_tail share_root @ [''users'', uid u, ''syncthing''])" by (simp add: folder_path_safe)
  then have "item f ''path'' = Inr (JStr (path_str (PurePath (path_root share_root)
      (path_tail share_root @ [''users'', uid u, ''syncthing'']))))" unfolding u(4) folder_json_def by simp
  with u e show ?thesis by blast
qed

theorem desired_folders_contained_witness:
  "\<exists>u f. u \<in> set (users sample_model) \<and> dict_get (sync_folders sample_sync) ''nas-alice-backup'' = Some f \<and>
     ''nas-alice-backup'' = folder_id u \<and> enabled default_config u"
proof -
  have "dict_get (sync_folders sample_sync) ''nas-alice-backup'' \<noteq> None"
    unfolding sample_sync_def by code_simp
  then obtain f where "dict_get (sync_folders sample_sync) ''nas-alice-backup'' = Some f" by blast
  with desired_folders_contained [OF sample_model_built sample_sync_ok this] show ?thesis by blast
qed

section \<open>Account plans and the administrator invariant\<close>

definition valid_secret :: "string \<Rightarrow> bool" where
  "valid_secret s \<longleftrightarrow> s \<noteq> [] \<and> py_len s \<le> 4096 \<and> \<not> list_ex (\<lambda>c. code c \<in> {0, 10, 13}) s"

lemma normalized_account_plan_Inr:
  assumes "normalized_account_plan cfg raw = Inr p"
  obtains d roles raw_roles where "raw = JObj d" "username_matches (plan_username p)" "plan_username p \<noteq> ''akadmin''"
    "plan_name p \<noteq> []" "py_strip (plan_name p) = plan_name p" "plan_email p \<noteq> []" "py_strip (plan_email p) = plan_email p"
    "plan_roles cfg (plan_active p) raw_roles = Inr roles" "plan_groups p = sorted_list_of_set roles"
    "\<forall>s. plan_password p = Some s \<longrightarrow> valid_secret s"
proof -
  obtain d where d: "raw = JObj d" using assms by (cases raw) (auto simp: normalized_account_plan_def)
  obtain un active attrs name email_v roles secret where
      u: "username_matches un" "un \<noteq> ''akadmin''"
    and n: "plan_text ''name'' (dict_get_or d ''name'' (JStr un)) = Inr name"
      "plan_text ''email'' (dict_get_or d ''email'' (JStr (un @ ''@invalid.local''))) = Inr email_v"
    and r: "plan_roles cfg active (dict_get_or d ''groups'' (JList [JStr (USER_GROUP cfg)])) = Inr roles"
    and s: "plan_secret (dict_get_or d ''password'' JNull) = Inr secret"
    and p: "p = \<lparr>plan_username = un, plan_name = name, plan_email = email_v, plan_active = active,
      plan_groups = sorted_list_of_set roles, plan_attributes = attrs, plan_password = secret\<rparr>"
    using assms
    by (auto simp: normalized_account_plan_def d and_then_Inr_iff validate_uid_Inr_iff split: if_split_asm)
  have stripped: "s \<noteq> [] \<and> py_strip s = s" if "plan_text l v = Inr s" for l v s
    using that py_strip_idem by (auto simp: plan_text_def split: json.split_asm if_split_asm)
  have "\<forall>s. secret = Some s \<longrightarrow> valid_secret s"
    using s by (auto simp: plan_secret_def valid_secret_def split: json.split_asm if_split_asm)
  with that d u stripped [OF n(1)] stripped [OF n(2)] r p show thesis by simp
qed

lemma plan_roles_Inr:
  assumes "plan_roles cfg active raw = Inr roles"
  shows "finite roles" "roles \<subseteq> RESERVED_GROUPS cfg" "\<not> active \<Longrightarrow> roles = {DISABLED_GROUP cfg}"
    "active \<Longrightarrow> roles \<noteq> {}" "active \<Longrightarrow> USER_GROUP cfg \<noteq> DISABLED_GROUP cfg \<Longrightarrow> DISABLED_GROUP cfg \<notin> roles"
proof -
  obtain gs where gs: "gs \<subseteq> RESERVED_GROUPS cfg" "finite gs"
    and r: "roles = (if active then
        (if ADMIN_GROUP cfg \<notin> gs - {DISABLED_GROUP cfg} \<and> GUEST_GROUP cfg \<notin> gs - {DISABLED_GROUP cfg}
         then insert (USER_GROUP cfg) (gs - {DISABLED_GROUP cfg}) else gs - {DISABLED_GROUP cfg})
      else {DISABLED_GROUP cfg})"
    using assms that
    by (auto simp: plan_roles_def Let_def simp del: Diff_iff split: json.split_asm sum.split_asm if_split_asm)
  show "finite roles" "roles \<subseteq> RESERVED_GROUPS cfg" "\<not> active \<Longrightarrow> roles = {DISABLED_GROUP cfg}"
    "active \<Longrightarrow> roles \<noteq> {}" "active \<Longrightarrow> USER_GROUP cfg \<noteq> DISABLED_GROUP cfg \<Longrightarrow> DISABLED_GROUP cfg \<notin> roles"
    using gs by (auto simp: r RESERVED_GROUPS_def split: if_split_asm)
qed

text \<open>
  An account plan that passes normalization has a safe user name other than the bootstrap
  account, only base roles, a one-line password if any, and roles that agree with its state:
  an active account has at least one role and not the disabled one, an inactive account has
  the disabled role alone, so a plan can never grant an application capability.
\<close>

theorem account_plan_safe:
  assumes "normalized_account_plan cfg raw = Inr p" "USER_GROUP cfg \<noteq> DISABLED_GROUP cfg"
  shows "username_matches (plan_username p) \<and> plan_username p \<noteq> ''akadmin'' \<and>
    set (plan_groups p) \<subseteq> RESERVED_GROUPS cfg \<and>
    (if plan_active p then plan_groups p \<noteq> [] \<and> DISABLED_GROUP cfg \<notin> set (plan_groups p)
     else plan_groups p = [DISABLED_GROUP cfg]) \<and>
    (\<forall>s. plan_password p = Some s \<longrightarrow> valid_secret s)"
proof -
  obtain roles raw_roles where p: "username_matches (plan_username p)" "plan_username p \<noteq> ''akadmin''"
      "plan_groups p = sorted_list_of_set roles" "\<forall>s. plan_password p = Some s \<longrightarrow> valid_secret s"
    and r: "plan_roles cfg (plan_active p) raw_roles = Inr roles"
    using assms(1) by (rule normalized_account_plan_Inr)
  note roles = plan_roles_Inr [OF r]
  from roles(1) have "set (plan_groups p) = roles" using p(3) by simp
  with p roles assms(2) show ?thesis by auto
qed

definition sample_plan :: json where
  "sample_plan = JObj [(''username'', JStr ''bob''), (''active'', JBool False), (''groups'', JList [JStr '' nas_users ''])]"

theorem account_plan_safe_witness:
  "plan_groups (projr (normalized_account_plan default_config sample_plan)) = [''nas_disabled'']"
proof -
  have "normalized_account_plan default_config sample_plan = Inr (projr (normalized_account_plan default_config sample_plan))"
    by (rule right_result) code_simp
  moreover have "USER_GROUP default_config \<noteq> DISABLED_GROUP default_config" by code_simp
  moreover have "\<not> plan_active (projr (normalized_account_plan default_config sample_plan))" by code_simp
  moreover have "DISABLED_GROUP default_config = ''nas_disabled''" by code_simp
  ultimately show ?thesis using account_plan_safe by metis
qed

text \<open>The active accounts of a directory, by primary key.\<close>

lemma dict_set_values: "set (map snd (dict_set k v d)) \<subseteq> insert v (set (map snd d))"
  by (induction d) auto

lemma add_active_values: "set (map snd (add_active x d)) \<subseteq> set (map snd d) \<union> set_option (active_username x)"
  using dict_set_values [of "py_str (get2 x ''pk'' ''num_pk'')" _ d]
  by (cases "active_username x") (auto simp: add_active_def Let_def)

lemma active_by_pk_values:
  assumes "s \<in> set (map snd (active_by_pk us))"
  shows "\<exists>u \<in> set us. active_username u = Some s"
proof -
  have "set (map snd (fold add_active us d)) \<subseteq> set (map snd d) \<union> (\<Union>u \<in> set us. set_option (active_username u))" for d
  proof (induction us arbitrary: d)
    case (Cons x us)
    from Cons [of "add_active x d"] add_active_values [of x d] show ?case by auto
  qed simp
  from this [of "[]"] assms show ?thesis by (auto simp: active_by_pk_def)
qed

text \<open>
  Every name that counts as an enabled administrator of the live directory is the safe user
  name of an account that Authentik reports as active: neither a disabled account nor one
  with an unsafe name can satisfy the administrator invariant.
\<close>

theorem enabled_administrators_active:
  assumes "name \<in> enabled_administrator_names cfg raw_users raw_groups"
  shows "\<exists>u \<in> set raw_users. soft_get u ''username'' = JStr name \<and> soft_get u ''is_active'' = JBool True \<and>
    username_matches name"
proof -
  have l: "\<exists>u \<in> set raw_users. active_username u = Some name"
    if "name \<in> set (listed_members (active_by_pk raw_users) (map snd (active_by_pk raw_users)) g)" for g
    using that listed_members_known active_by_pk_values by blast
  have "\<exists>u \<in> set raw_users. active_username u = Some name"
    using assms
    by (auto simp: enabled_administrator_names_def Let_def dest: l split: option.split_asm json.split_asm if_split_asm)
  moreover have "soft_get u ''username'' = JStr name \<and> soft_get u ''is_active'' = JBool True \<and> username_matches name"
    if "active_username u = Some name" for u
    using that unfolding active_username_def by (cases "soft_get u ''username''") (auto split: if_split_asm)
  ultimately show ?thesis by blast
qed

theorem enabled_administrators_active_witness:
  "\<exists>u. soft_get u ''username'' = JStr ''alice'' \<and> soft_get u ''is_active'' = JBool True \<and> username_matches ''alice''"
proof -
  have "''alice'' \<in> enabled_administrator_names default_config
      [JObj [(''pk'', JInt 1), (''username'', JStr ''alice''), (''is_active'', JBool True)]]
      [JObj [(''pk'', JStr ''g1''), (''name'', JStr ''nas_admin''), (''users'', JList [JInt 1])]]" by code_simp
  from enabled_administrators_active [OF this] show ?thesis by blast
qed

end
