(* ===== verification/State_System.thy ===== *)
theory State_System
  imports Main
begin

text \<open>
  Labelled state systems and their invariants, the interface shared by the stateful
  components: a component gives its initial states, its steps and an invariant that every step
  keeps, and gets the invariant in every reachable state.
\<close>

locale state_system =
  fixes initial :: "'s \<Rightarrow> bool"
    and step :: "'l \<Rightarrow> 's \<Rightarrow> 's \<Rightarrow> bool"
begin

inductive reach :: "'s \<Rightarrow> bool" where
  start: "initial s \<Longrightarrow> reach s"
| move: "reach s \<Longrightarrow> step l s t \<Longrightarrow> reach t"

end

locale invariant_system = state_system initial step
  for initial :: "'s \<Rightarrow> bool" and step :: "'l \<Rightarrow> 's \<Rightarrow> 's \<Rightarrow> bool" +
  fixes inv :: "'s \<Rightarrow> bool"
  assumes initial_inv: "initial s \<Longrightarrow> inv s"
    and step_inv: "inv s \<Longrightarrow> step l s t \<Longrightarrow> inv t"
begin

lemma reach_inv: "reach s \<Longrightarrow> inv s"
  by (induction rule: reach.induct) (auto intro: initial_inv step_inv)

lemma reach_closed: "reach s \<Longrightarrow> step l s t \<Longrightarrow> reach t \<and> inv t"
  using reach_inv reach.move step_inv by blast

end

end
