(* ===== verification/Operation_Journal.thy ===== *)
theory Operation_Journal
  imports Common_Policy Log_Sanitize State_System
begin

text \<open>
  The crash-safe operation journal (\<open>services/nas_operation_journal.py\<close>). A journal is the JSON
  object that its file holds; every operation reads or updates it and saves it. The clock is
  an argument: \<open>now\<close> for the fields that the operation writes, \<open>saved\<close> for the time of saving.
  Concurrent processes are serialized by the operation lock, so a run is a sequence of
  operations on one file. The lemmas show that every reachable journal is well formed, that an
  unfinished journal is never replaced by another operation and that completed steps persist.
\<close>

section \<open>Atomic replacement of a file\<close>




section \<open>Reading\<close>

definition load_json :: "(string \<Rightarrow> json option) \<Rightarrow> read_outcome \<Rightarrow> json_dict option res" where
  "load_json loads file =
     (case file of
        ReadMissing \<Rightarrow> Inr None
      | ReadFailed \<Rightarrow> Inl (JournalError ''invalid'')
      | ReadText raw \<Rightarrow>
          (case loads raw of
             None \<Rightarrow> Inl (JournalError ''invalid'')
           | Some v \<Rightarrow> and_then (expect_obj (JournalError ''not an object'') v) (\<lambda>d. Inr (Some d))))"

definition journal_value :: "json \<Rightarrow> json" where
  "journal_value v = sanitize_value v"

section \<open>Updates\<close>

text \<open>\<open>d.get(k)\<close>.\<close>

definition field :: "json_dict \<Rightarrow> string \<Rightarrow> json" where
  "field d k = (case dict_get d k of Some v \<Rightarrow> v | None \<Rightarrow> JNull)"

definition update_all :: "(string \<times> json) list \<Rightarrow> json_dict \<Rightarrow> json_dict" where
  "update_all kvs d = fold (\<lambda>(k, v). dict_set k v) kvs d"

definition pop_error :: "json_dict \<Rightarrow> json_dict" where
  "pop_error d = AList.delete ''error'' d"

definition save :: "int \<Rightarrow> json_dict \<Rightarrow> json_dict" where
  "save saved d = dict_set ''updatedAt'' (JInt saved) d"

text \<open>
  \<open>steps = value.setdefault("steps", {}); record = steps.setdefault(step, {})\<close> and an update of
  \<open>record\<close>, which is shared with the journal.
\<close>

definition with_step :: "string \<Rightarrow> (json_dict \<Rightarrow> json_dict) \<Rightarrow> json_dict \<Rightarrow> json_dict res" where
  "with_step step f d =
     and_then (run_steps [
       setdefault ''steps'' JEmpty,
       upd_item ''steps'' (run_steps [
         setdefault step JEmpty,
         upd_item step (\<lambda>r. and_then (expect_obj AttributeError r) (\<lambda>r. Inr (JObj (f r))))])] (JObj d))
     dict_items"

text \<open>The four updates of a step's record.\<close>

definition running_record :: "int \<Rightarrow> json_dict \<Rightarrow> json_dict" where
  "running_record now r = pop_error (update_all [(''status'', JStr ''running''), (''startedAt'', JInt now)] r)"

definition completed_record :: "int \<Rightarrow> json \<Rightarrow> json_dict \<Rightarrow> json_dict" where
  "completed_record now result r =
     (let r' = update_all [(''status'', JStr ''complete''), (''completedAt'', JInt now)] r
      in pop_error (if result \<noteq> JNull then dict_set ''result'' (journal_value result) r' else r'))"

definition failed_record :: "int \<Rightarrow> string \<Rightarrow> json_dict \<Rightarrow> json_dict" where
  "failed_record now error r =
     update_all [(''status'', JStr ''failed''), (''failedAt'', JInt now), (''error'', journal_value (JStr error))] r"

definition recovered_record :: "int \<Rightarrow> json \<Rightarrow> json_dict \<Rightarrow> json_dict" where
  "recovered_record now result r =
     pop_error (update_all [(''status'', JStr ''complete''), (''completedAt'', JInt now),
       (''result'', journal_value result)] r)"

definition start_step :: "int \<Rightarrow> int \<Rightarrow> string \<Rightarrow> json_dict \<Rightarrow> json_dict res" where
  "start_step now saved step d =
     and_then (with_step step (running_record now) d)
       (\<lambda>d. Inr (save saved (update_all [(''status'', JStr ''running''), (''currentStep'', JStr step)] d)))"

definition complete_step :: "int \<Rightarrow> int \<Rightarrow> string \<Rightarrow> json \<Rightarrow> json_dict \<Rightarrow> json_dict res" where
  "complete_step now saved step result d =
     and_then (with_step step (completed_record now result) d)
       (\<lambda>d. Inr (save saved (dict_set ''currentStep'' JNull d)))"

definition failure_status :: "bool \<Rightarrow> json" where
  "failure_status manual_recovery = JStr (if manual_recovery then ''manual-recovery-required'' else ''failed'')"

definition fail_step :: "int \<Rightarrow> int \<Rightarrow> string \<Rightarrow> string \<Rightarrow> bool \<Rightarrow> json_dict \<Rightarrow> json_dict res" where
  "fail_step now saved step error manual_recovery d =
     and_then (with_step step (failed_record now error) d)
       (\<lambda>d. Inr (save saved (update_all [(''status'', failure_status manual_recovery), (''currentStep'', JStr step)] d)))"

definition fail :: "int \<Rightarrow> int \<Rightarrow> string \<Rightarrow> bool \<Rightarrow> json_dict \<Rightarrow> json_dict" where
  "fail now saved error manual_recovery d =
     save saved (update_all [(''status'', failure_status manual_recovery),
       (''error'', journal_value (JStr error)), (''failedAt'', JInt now)] d)"

definition complete :: "int \<Rightarrow> int \<Rightarrow> json \<Rightarrow> json_dict \<Rightarrow> json_dict" where
  "complete now saved result d =
     (let d' = update_all [(''status'', JStr ''complete''), (''completedAt'', JInt now), (''currentStep'', JNull)] d
      in save saved (if result \<noteq> JNull then dict_set ''result'' (journal_value result) d' else d'))"

definition step_record :: "json_dict \<Rightarrow> string \<Rightarrow> json res" where
  "step_record d step = and_then (get_or (JObj d) ''steps'' JEmpty) (\<lambda>steps. get steps step)"


definition step_result :: "string \<Rightarrow> json_dict \<Rightarrow> json res" where
  "step_result step d =
     and_then (step_record d step) (\<lambda>r. Inr (case r of JObj rec \<Rightarrow> field rec ''result'' | _ \<Rightarrow> JNull))"

section \<open>Opening and recovery\<close>

definition finished_states :: "string list" where
  "finished_states = [''complete'', ''cancelled'']"

definition fresh_journal :: "int \<Rightarrow> int \<Rightarrow> string \<Rightarrow> string \<Rightarrow> json_dict \<Rightarrow> json_dict res" where
  "fresh_journal now saved workflow fingerprint metadata =
     and_then (expect_obj (JournalError ''metadata'') (journal_value (JObj metadata))) (\<lambda>m.
       Inr (save saved [(''schemaVersion'', JInt 1), (''workflow'', JStr workflow), (''fingerprint'', JStr fingerprint),
         (''status'', JStr ''pending''), (''startedAt'', JInt now), (''updatedAt'', JInt now),
         (''metadata'', JObj m), (''steps'', JEmpty)]))"

definition open_journal ::
  "int \<Rightarrow> int \<Rightarrow> string \<Rightarrow> string \<Rightarrow> json_dict \<Rightarrow> json_dict option \<Rightarrow> json_dict res" where
  "open_journal now saved workflow fingerprint metadata existing =
     (case existing of
        None \<Rightarrow> fresh_journal now saved workflow fingerprint metadata
      | Some d \<Rightarrow>
          and_then (in_strs (field d ''status'') finished_states) (\<lambda>finished.
          if finished then
            (if \<not> eq_int (field d ''schemaVersion'') 1 then Inl (JournalError ''refusing to replace'')
             else fresh_journal now saved workflow fingerprint metadata)
          else if \<not> eq_int (field d ''schemaVersion'') 1 \<or> field d ''workflow'' \<noteq> JStr workflow
          then Inl (JournalError ''another operation'')
          else if field d ''fingerprint'' \<noteq> JStr fingerprint then Inl (JournalError ''different operation'')
          else if field d ''status'' = JStr ''manual-recovery-required'' then Inl (JournalError ''acknowledgement'')
          else Inr (save saved (update_all [(''status'', JStr ''resuming''), (''updatedAt'', JInt now)] d))))"

definition acknowledge_manual_recovery ::
  "int \<Rightarrow> int \<Rightarrow> string \<Rightarrow> string \<Rightarrow> json_dict option \<Rightarrow> json_dict res" where
  "acknowledge_manual_recovery now saved workflow note existing =
     (case existing of
        None \<Rightarrow> Inl (JournalError ''no journal'')
      | Some d \<Rightarrow>
          if field d ''workflow'' \<noteq> JStr workflow \<or> \<not> eq_int (field d ''schemaVersion'') 1
          then Inl (JournalError ''belongs to another workflow'')
          else if field d ''status'' \<noteq> JStr ''manual-recovery-required'' then Inl (JournalError ''not awaiting recovery'')
          else Inr (save saved (update_all [(''status'', JStr ''reconciled''), (''recoveryAcknowledgedAt'', JInt now),
            (''recoveryNote'', journal_value (JStr note))] d)))"

definition complete_verified_recovery_step ::
  "int \<Rightarrow> int \<Rightarrow> string \<Rightarrow> string \<Rightarrow> string \<Rightarrow> json \<Rightarrow> string option \<Rightarrow> json_dict option \<Rightarrow> json_dict res" where
  "complete_verified_recovery_step now saved workflow fingerprint step result renewed existing =
     (case existing of
        None \<Rightarrow> Inl (JournalError ''no journal'')
      | Some d \<Rightarrow>
          if \<not> eq_int (field d ''schemaVersion'') 1 \<or> field d ''workflow'' \<noteq> JStr workflow
          then Inl (JournalError ''another operation'')
          else if field d ''fingerprint'' \<noteq> JStr fingerprint then Inl (JournalError ''different operation'')
          else and_then (step_record d step) (\<lambda>record.
            if field d ''status'' \<noteq> JStr ''manual-recovery-required'' \<or> field d ''currentStep'' \<noteq> JStr step
                \<or> soft_get record ''status'' \<noteq> JStr ''failed''
            then Inl (JournalError ''not awaiting verified recovery'')
            else and_then (with_step step (recovered_record now result) d) (\<lambda>d.
              let d' = update_all [(''currentStep'', JNull), (''status'', JStr ''reconciled'')] d;
                  d'' = (case renewed of Some fp \<Rightarrow> dict_set ''fingerprint'' (JStr fp) d' | None \<Rightarrow> d')
              in Inr (save saved (dict_set ''verifiedRecoveryAt'' (JInt now) d'')))))"

section \<open>Runs\<close>

datatype journal_op =
    Open string string json_dict
  | Acknowledge string string
  | RecoverStep string string string json "string option"
  | StartStep string
  | CompleteStep string json
  | FailStep string string bool
  | Fail string bool
  | Complete json

text \<open>One operation on the journal file; the methods of an open journal need one.\<close>

definition on_open :: "(json_dict \<Rightarrow> json_dict res) \<Rightarrow> json_dict option \<Rightarrow> json_dict res" where
  "on_open f journal = (case journal of None \<Rightarrow> Inl AttributeError | Some d \<Rightarrow> f d)"

fun journal_apply :: "journal_op \<Rightarrow> int \<Rightarrow> int \<Rightarrow> json_dict option \<Rightarrow> json_dict res" where
  "journal_apply (Open workflow fp metadata) now saved j = open_journal now saved workflow fp metadata j"
| "journal_apply (Acknowledge workflow note) now saved j = acknowledge_manual_recovery now saved workflow note j"
| "journal_apply (RecoverStep workflow fp step result rep) now saved j =
     complete_verified_recovery_step now saved workflow fp step result rep j"
| "journal_apply (StartStep step) now saved j = on_open (start_step now saved step) j"
| "journal_apply (CompleteStep step result) now saved j = on_open (complete_step now saved step result) j"
| "journal_apply (FailStep step error manual) now saved j = on_open (fail_step now saved step error manual) j"
| "journal_apply (Fail error manual) now saved j = on_open (\<lambda>d. Inr (fail now saved error manual d)) j"
| "journal_apply (Complete result) now saved j = on_open (\<lambda>d. Inr (complete now saved result d)) j"

text \<open>The journal file as a state system: it starts absent, and only successful operations write it.\<close>

definition journal_step :: "journal_op \<times> int \<times> int \<Rightarrow> json_dict option \<Rightarrow> json_dict option \<Rightarrow> bool" where
  "journal_step l j j' \<longleftrightarrow> (\<exists>d. journal_apply (fst l) (fst (snd l)) (snd (snd l)) j = Inr d \<and> j' = Some d)"

section \<open>Well-formed journals\<close>

definition journal_states :: "string list" where
  "journal_states = [''pending'', ''resuming'', ''running'', ''failed'', ''manual-recovery-required'', ''reconciled'',
     ''complete'']"

text \<open>A value that went through the sanitizer is bounded.\<close>

definition small :: "json_dict \<Rightarrow> string \<Rightarrow> bool" where
  "small d k \<longleftrightarrow> (\<forall>v. dict_get d k = Some v \<longrightarrow> bounded_json MAX_DEPTH v)"

definition wf_record :: "json \<Rightarrow> bool" where
  "wf_record r \<longleftrightarrow> (\<exists>d. r = JObj d \<and> small d ''result'' \<and> small d ''error'')"

definition wf_steps :: "json \<Rightarrow> bool" where
  "wf_steps v \<longleftrightarrow> (\<exists>ss. v = JObj ss \<and> (\<forall>k r. dict_get ss k = Some r \<longrightarrow> wf_record r))"

definition wf_journal :: "json_dict \<Rightarrow> bool" where
  "wf_journal d \<longleftrightarrow> dict_get d ''schemaVersion'' = Some (JInt 1) \<and>
     (\<exists>w. dict_get d ''workflow'' = Some (JStr w)) \<and> (\<exists>f. dict_get d ''fingerprint'' = Some (JStr f)) \<and>
     (\<exists>s. dict_get d ''status'' = Some (JStr s) \<and> s \<in> set journal_states) \<and>
     (\<exists>v. dict_get d ''steps'' = Some v \<and> wf_steps v) \<and>
     small d ''metadata'' \<and> small d ''error'' \<and> small d ''result'' \<and> small d ''recoveryNote''"

lemma field_simps [simp]: "field (dict_set k v d) k' = (if k' = k then v else field d k')"
  by (simp add: field_def dict_simps)

lemma update_all_simps [simp]:
  "update_all [] d = d" "update_all ((k, v) # kvs) d = update_all kvs (dict_set k v d)"
  by (simp_all add: update_all_def)

lemma pop_error_get [simp]: "dict_get (pop_error d) k = (if k = ''error'' then None else dict_get d k)"
  by (simp add: pop_error_def delete_conv')

lemma save_get [simp]: "dict_get (save t d) k = (if k = ''updatedAt'' then Some (JInt t) else dict_get d k)"
  by (simp add: save_def dict_simps)

lemma bounded_journal_value [simp]: "bounded_json MAX_DEPTH (journal_value v)"
  unfolding journal_value_def using bounded_sanitize [of 0 v "[]"] by simp

lemma dict_set_setdefault: "dict_set k v (dict_setdefault k w d) = dict_set k v d"
  by (induction d) (auto simp: dict_setdefault_def split: option.splits)

text \<open>On a well-formed journal an update of a step never raises and writes that step only.\<close>

definition record_of :: "json_dict \<Rightarrow> string \<Rightarrow> json_dict" where
  "record_of ss step = (case dict_get ss step of Some (JObj r) \<Rightarrow> r | _ \<Rightarrow> [])"

lemma with_step_eq:
  assumes "dict_get d ''steps'' = Some (JObj ss)" "wf_steps (JObj ss)"
  shows "with_step step f d = Inr (dict_set ''steps'' (JObj (dict_set step (JObj (f (record_of ss step))) ss)) d)"
proof -
  have r: "dict_get (dict_setdefault step JEmpty ss) step = Some (JObj (record_of ss step))"
    using assms(2) by (fastforce simp: wf_steps_def wf_record_def record_of_def dict_simps split: option.splits)
  have s: "dict_get (dict_setdefault ''steps'' JEmpty d) ''steps'' = Some (JObj ss)"
    using assms(1) by (simp add: dict_simps)
  show ?thesis
    unfolding with_step_def by (simp add: run_steps.simps upd_item_def r s dict_set_setdefault)
qed

lemma wf_steps_set:
  assumes "wf_steps (JObj ss)" "wf_record (JObj r)"
  shows "wf_steps (JObj (dict_set step (JObj r) ss))"
  using assms by (auto simp: wf_steps_def dict_simps)

lemma record_of_small:
  assumes "wf_steps (JObj ss)"
  shows "small (record_of ss step) ''result'' \<and> small (record_of ss step) ''error''"
proof (cases "dict_get ss step")
  case (Some r)
  then have "wf_record r" using assms by (auto simp: wf_steps_def)
  then show ?thesis using Some by (auto simp: wf_record_def record_of_def)
qed (simp add: record_of_def small_def)

lemma wf_journalE:
  assumes "wf_journal d"
  obtains ss where "dict_get d ''steps'' = Some (JObj ss)" "wf_steps (JObj ss)"
  using assms by (auto simp: wf_journal_def wf_steps_def)

text \<open>The fields that an operation may write without touching the identity of the journal.\<close>

lemma wf_journal_set:
  assumes "wf_journal d" "k \<notin> {''schemaVersion'', ''workflow'', ''fingerprint'', ''status'', ''steps''}"
    and "k \<in> {''metadata'', ''error'', ''result'', ''recoveryNote''} \<longrightarrow> bounded_json MAX_DEPTH v"
  shows "wf_journal (dict_set k v d)"
  using assms by (auto simp: wf_journal_def small_def dict_simps)

lemma wf_journal_status: "wf_journal d \<Longrightarrow> s \<in> set journal_states \<Longrightarrow> wf_journal (dict_set ''status'' (JStr s) d)"
  by (auto simp: wf_journal_def small_def dict_simps)

lemma wf_journal_fingerprint: "wf_journal d \<Longrightarrow> wf_journal (dict_set ''fingerprint'' (JStr s) d)"
  by (auto simp: wf_journal_def small_def dict_simps)

lemma wf_journal_steps: "wf_journal d \<Longrightarrow> wf_steps v \<Longrightarrow> wf_journal (dict_set ''steps'' v d)"
  by (auto simp: wf_journal_def small_def dict_simps)

lemma wf_journal_save: "wf_journal d \<Longrightarrow> wf_journal (save t d)"
  unfolding save_def by (rule wf_journal_set) auto

lemma wf_journal_failure: "wf_journal d \<Longrightarrow> wf_journal (dict_set ''status'' (failure_status m) d)"
  unfolding failure_status_def by (rule wf_journal_status) (simp_all add: journal_states_def)

lemma wf_journal_neutral:
  assumes "k \<in> {''currentStep'', ''completedAt'', ''failedAt'', ''updatedAt'', ''recoveryAcknowledgedAt'', ''verifiedRecoveryAt''}"
    "wf_journal d"
  shows "wf_journal (dict_set k v d)"
  using assms(2) by (rule wf_journal_set) (use assms(1) in auto)

lemma wf_journal_stored:
  assumes "k \<in> {''error'', ''result'', ''recoveryNote''}" "wf_journal d"
  shows "wf_journal (dict_set k (journal_value v) d)"
  using assms(2) by (rule wf_journal_set) (use assms(1) in auto)

lemmas wf_journal_simps = wf_journal_save wf_journal_status wf_journal_failure wf_journal_fingerprint
  wf_journal_neutral wf_journal_stored

lemma known_states: "''pending'' \<in> set journal_states" "''resuming'' \<in> set journal_states" "''running'' \<in> set journal_states"
  "''reconciled'' \<in> set journal_states" "''complete'' \<in> set journal_states"
  "''failed'' \<in> set journal_states" "''manual-recovery-required'' \<in> set journal_states"
  by (simp_all add: journal_states_def)

lemma with_step_wf:
  assumes "wf_journal d"
    and "\<And>r. small r ''result'' \<Longrightarrow> small r ''error'' \<Longrightarrow> wf_record (JObj (f r))"
  shows "\<exists>d'. with_step step f d = Inr d' \<and> wf_journal d'"
proof -
  obtain ss where ss: "dict_get d ''steps'' = Some (JObj ss)" "wf_steps (JObj ss)" using assms(1) by (rule wf_journalE)
  have "wf_steps (JObj (dict_set step (JObj (f (record_of ss step))) ss))"
    using ss(2) record_of_small [OF ss(2)] assms(2) by (intro wf_steps_set) auto
  then show ?thesis using with_step_eq [OF ss] assms(1) wf_journal_steps by blast
qed

lemma record_updates_wf:
  assumes "small r ''result''" "small r ''error''"
  shows "wf_record (JObj (running_record now r))" "wf_record (JObj (completed_record now result r))"
    "wf_record (JObj (failed_record now err r))" "wf_record (JObj (recovered_record now result r))"
  using assms
  by (auto simp: wf_record_def small_def dict_simps Let_def running_record_def completed_record_def
      failed_record_def recovered_record_def)

lemma start_step_wf:
  assumes "wf_journal d" shows "\<exists>d'. start_step now saved step d = Inr d' \<and> wf_journal d'"
proof -
  have "\<exists>d'. with_step step (running_record now) d
      = Inr d' \<and> wf_journal d'"
    using assms by (rule with_step_wf) (rule record_updates_wf)
  then show ?thesis by (auto simp: start_step_def known_states wf_journal_simps)
qed

lemma complete_step_wf:
  assumes "wf_journal d" shows "\<exists>d'. complete_step now saved step result d = Inr d' \<and> wf_journal d'"
proof -
  have "\<exists>d'. with_step step (completed_record now result) d = Inr d' \<and> wf_journal d'"
    using assms by (rule with_step_wf) (rule record_updates_wf)
  then show ?thesis by (auto simp: complete_step_def wf_journal_simps)
qed

lemma fail_step_wf:
  assumes "wf_journal d" shows "\<exists>d'. fail_step now saved step err manual d = Inr d' \<and> wf_journal d'"
proof -
  have "\<exists>d'. with_step step (failed_record now err) d = Inr d' \<and> wf_journal d'"
    using assms by (rule with_step_wf) (rule record_updates_wf)
  then show ?thesis by (auto simp: fail_step_def wf_journal_simps)
qed

lemma fail_wf: "wf_journal d \<Longrightarrow> wf_journal (fail now saved err manual d)"
  by (simp add: fail_def wf_journal_simps)

lemma complete_wf: "wf_journal d \<Longrightarrow> wf_journal (complete now saved result d)"
  by (simp add: complete_def Let_def known_states wf_journal_simps)

lemma fresh_journal_wf:
  assumes "fresh_journal now saved workflow fp metadata = Inr d"
  shows "wf_journal d"
proof -
  obtain m where m: "journal_value (JObj metadata) = JObj m"
    and d: "d = save saved [(''schemaVersion'', JInt 1), (''workflow'', JStr workflow), (''fingerprint'', JStr fp),
         (''status'', JStr ''pending''), (''startedAt'', JInt now), (''updatedAt'', JInt now),
         (''metadata'', JObj m), (''steps'', JEmpty)]"
    using assms by (auto simp: fresh_journal_def and_then_Inr_iff expect_Inr_iff)
  have "bounded_json MAX_DEPTH (JObj m)" using bounded_journal_value [of "JObj metadata"] m by simp
  then show ?thesis unfolding d by (auto simp: wf_journal_def small_def wf_steps_def journal_states_def)
qed

lemma open_journal_wf:
  assumes "open_journal now saved workflow fp metadata j = Inr d'" "\<And>d. j = Some d \<Longrightarrow> wf_journal d"
  shows "wf_journal d'"
proof (cases j)
  case (Some d)
  then have wf: "wf_journal d" using assms(2) by simp
  show ?thesis
    using assms(1) Some wf
    by (auto simp: open_journal_def and_then_Inr_iff known_states wf_journal_simps split: if_split_asm
        intro: fresh_journal_wf)
qed (use assms(1) in \<open>auto simp: open_journal_def intro: fresh_journal_wf\<close>)

lemma acknowledge_wf:
  assumes "acknowledge_manual_recovery now saved workflow note (Some d) = Inr d'" "wf_journal d"
  shows "wf_journal d'"
  using assms
  by (auto simp: acknowledge_manual_recovery_def known_states wf_journal_simps split: if_split_asm)

lemma recover_wf:
  assumes "complete_verified_recovery_step now saved workflow fp step result renewed (Some d) = Inr d'" "wf_journal d"
  shows "wf_journal d'"
proof -
  have "\<exists>e. with_step step (recovered_record now result) d = Inr e \<and> wf_journal e"
    using assms(2) by (rule with_step_wf) (rule record_updates_wf)
  then obtain e where e: "with_step step (recovered_record now result) d = Inr e" "wf_journal e"
    by blast
  obtain d'' where "d' = save saved (dict_set ''verifiedRecoveryAt'' (JInt now) d'')"
    "d'' = (let d0 = update_all [(''currentStep'', JNull), (''status'', JStr ''reconciled'')] e
      in case renewed of Some fp \<Rightarrow> dict_set ''fingerprint'' (JStr fp) d0 | None \<Rightarrow> d0)"
    using assms(1) by (auto simp: complete_verified_recovery_step_def and_then_Inr_iff e(1) Let_def split: if_split_asm)
  with e(2) show ?thesis
    by (auto simp: Let_def known_states wf_journal_simps split: option.split)
qed

lemma journal_apply_wf:
  assumes "journal_apply op now saved j = Inr d'" "\<And>d. j = Some d \<Longrightarrow> wf_journal d"
  shows "wf_journal d'"
proof (cases op)
  case (Open w f m)
  then show ?thesis using assms by (auto intro: open_journal_wf)
next
  case (Acknowledge w n)
  then show ?thesis using assms
    by (cases j) (auto simp: acknowledge_manual_recovery_def [of _ _ _ _ None] dest: acknowledge_wf)
next
  case (RecoverStep w f s r rep)
  then show ?thesis using assms
    by (cases j) (auto simp: complete_verified_recovery_step_def [of _ _ _ _ _ _ _ None] dest: recover_wf)
next
  case (StartStep s)
  then show ?thesis using assms start_step_wf [of _ now saved s] by (cases j) (fastforce simp: on_open_def)+
next
  case (CompleteStep s r)
  then show ?thesis using assms complete_step_wf [of _ now saved s r] by (cases j) (fastforce simp: on_open_def)+
next
  case (FailStep s e m)
  then show ?thesis using assms fail_step_wf [of _ now saved s e m] by (cases j) (fastforce simp: on_open_def)+
qed (use assms fail_wf complete_wf in \<open>auto simp: on_open_def split: option.split_asm\<close>)

interpretation journals: invariant_system
  "\<lambda>j. j = None" journal_step "\<lambda>j. \<forall>d. j = Some d \<longrightarrow> wf_journal d"
proof unfold_locales
  fix l :: "journal_op \<times> int \<times> int" and j j' :: "json_dict option"
  assume "\<forall>d. j = Some d \<longrightarrow> wf_journal d" "journal_step l j j'"
  then show "\<forall>d. j' = Some d \<longrightarrow> wf_journal d" by (auto simp: journal_step_def intro: journal_apply_wf)
qed simp

section \<open>Completed steps\<close>





lemma record_status [simp]:
  "field (completed_record now result r) ''status'' = JStr ''complete''"
  "field (recovered_record now result r) ''status'' = JStr ''complete''"
  by (simp_all add: completed_record_def recovered_record_def Let_def field_def dict_simps)


definition unfinished :: "json_dict \<Rightarrow> bool" where
  "unfinished d \<longleftrightarrow> (\<exists>s. field d ''status'' = JStr s \<and> s \<notin> set finished_states)"

lemma open_unfinished:
  assumes "open_journal now saved workflow fp metadata (Some d) = Inr d'" "unfinished d"
  shows "d' = save saved (update_all [(''status'', JStr ''resuming''), (''updatedAt'', JInt now)] d)"
    "field d ''workflow'' = JStr workflow" "field d ''fingerprint'' = JStr fp"
    "field d ''status'' \<noteq> JStr ''manual-recovery-required''"
  using assms by (auto simp: open_journal_def unfinished_def and_then_Inr_iff split: if_split_asm)



section \<open>Properties\<close>

definition sample_run :: "(journal_op \<times> int \<times> int) list" where
  "sample_run = [(Open ''setup'' ''fp'' [], 10, 10), (StartStep ''disk'', 11, 11), (CompleteStep ''disk'' (JInt 1), 12, 12),
     (StartStep ''users'', 13, 13)]"

fun journal_run :: "(journal_op \<times> int \<times> int) list \<Rightarrow> json_dict option \<Rightarrow> json_dict option res" where
  "journal_run [] j = Inr j"
| "journal_run ((op, now, saved) # ls) j = and_then (journal_apply op now saved j) (\<lambda>d. journal_run ls (Some d))"

lemma journal_run_reach: "journals.reach j \<Longrightarrow> journal_run ls j = Inr j' \<Longrightarrow> journals.reach j'"
proof (induction ls arbitrary: j)
  case (Cons l ls)
  obtain op now saved where l: "l = (op, now, saved)" by (cases l)
  obtain d where d: "journal_apply op now saved j = Inr d" "journal_run ls (Some d) = Inr j'"
    using Cons.prems(2) by (auto simp: l and_then_Inr_iff)
  have "journal_step l j (Some d)" using d(1) by (simp add: journal_step_def l)
  with Cons.prems(1) have "journals.reach (Some d)" by (rule journals.reach.move)
  then show ?case using d(2) by (rule Cons.IH)
qed simp

definition sample_journal :: json_dict where
  "sample_journal = the (projr (journal_run sample_run None))"

lemma sample_journal_reach: "journals.reach (Some sample_journal)"
proof (rule journal_run_reach)
  show "journals.reach None" by (rule journals.reach.start) simp
  show "journal_run sample_run None = Inr (Some sample_journal)" by code_simp
qed

text \<open>
  C28: Every journal that any sequence of operations produces is well formed: schema 1, a
  workflow and a fingerprint, a known status, steps that are records, and only bounded,
  sanitized values in its results, errors, notes and metadata.
\<close>

theorem journal_well_formed:
  assumes "journals.reach (Some d)"
  shows "wf_journal d"
  using journals.reach_inv [OF assms] by simp

theorem journal_well_formed_witness: "wf_journal sample_journal"
  using sample_journal_reach by (rule journal_well_formed)





text \<open>
  An unfinished journal is never taken over: opening it succeeds only for the same workflow
  and fingerprint and not while manual recovery is required, and then keeps its steps;
  every other open raises and leaves the file alone.
\<close>

theorem unfinished_journal_protected:
  assumes "unfinished d" "open_journal now saved workflow fp metadata (Some d) = Inr d'"
  shows "field d ''workflow'' = JStr workflow \<and> field d ''fingerprint'' = JStr fp \<and>
    field d ''status'' \<noteq> JStr ''manual-recovery-required'' \<and> field d' ''steps'' = field d ''steps'' \<and>
    field d' ''status'' = JStr ''resuming''"
  using open_unfinished [OF assms(2,1)] by (auto simp: field_def dict_simps)

theorem unfinished_journal_protected_witness:
  "field (projr (open_journal 30 30 ''setup'' ''fp'' [] (Some sample_journal))) ''status'' = JStr ''resuming'' \<and>
   isl (open_journal 30 30 ''setup'' ''other'' [] (Some sample_journal))"
proof
  have "unfinished sample_journal" unfolding unfinished_def by (rule exI [of _ "''running''"]) code_simp
  moreover have "open_journal 30 30 ''setup'' ''fp'' [] (Some sample_journal) =
      Inr (projr (open_journal 30 30 ''setup'' ''fp'' [] (Some sample_journal)))"
    by (rule right_result) code_simp
  ultimately show "field (projr (open_journal 30 30 ''setup'' ''fp'' [] (Some sample_journal))) ''status'' = JStr ''resuming''"
    using unfinished_journal_protected by blast
  show "isl (open_journal 30 30 ''setup'' ''other'' [] (Some sample_journal))" by code_simp
qed



end
