(* ===== verification/Operation_Lock.thy ===== *)
theory Operation_Lock
  imports Common_Policy Log_Sanitize State_System
begin

text \<open>
  The single appliance lock (\<open>services/nas_operation_lock.py\<close>). The lock file is a record: its
  kind, mode and owner, the process whose open file description holds the kernel lock, and the
  text of the file. \<open>loads\<close> and \<open>dumps\<close> are \<open>json.loads\<close> and \<open>json.dumps\<close>, a fresh token is an
  argument, and the environment variable that carries the coordination token is a value per
  process. The system of processes that begin, end and spawn operations is a state system.
\<close>

section \<open>Classes and tokens\<close>

definition KNOWN_CLASSES :: "string list" where
  "KNOWN_CLASSES = [''appliance'', ''first-start'', ''identity'', ''network'', ''runtime'', ''secrets'', ''state'',
     ''storage'', ''update'']"

definition validate_class :: "string \<Rightarrow> string res" where
  "validate_class name = (if name \<in> set KNOWN_CLASSES then Inr name else Inl (ValueError ''unknown class''))"

definition normalize_classes :: "string list \<Rightarrow> string list res" where
  "normalize_classes classes =
     and_then (map_res validate_class classes) (\<lambda>names.
       if names = [] then Inl (ValueError ''no class'') else Inr (sort (remdups names)))"

definition token_matches :: "string \<Rightarrow> bool" where
  "token_matches t \<longleftrightarrow> length t = 32 \<and> list_all (\<lambda>c. is_digit c \<or> 97 \<le> code c \<and> code c \<le> 102) t"

section \<open>The lock directory and file\<close>

record root_stat =
  root_is_link :: bool
  root_is_dir :: bool
  root_mode :: nat
  root_accessible :: bool

text \<open>The checks after the directory is known to exist; \<open>mode & 0o007\<close> is the mode modulo 8.\<close>

definition check_root :: "root_stat \<Rightarrow> unit res" where
  "check_root st =
     (if root_is_link st \<or> \<not> root_is_dir st then Inl (RuntimeError ''not a trusted directory'')
      else if root_mode st mod 8 \<noteq> 0 then Inl (RuntimeError ''grants access to other users'')
      else if \<not> root_accessible st then Inl PermissionError
      else Inr ())"

text \<open>
  \<open>st\<close> is the result of \<open>lstat\<close>; \<open>created\<close> is the directory that root creates when it is missing.
\<close>

definition ensure_root :: "root_stat option \<Rightarrow> nat \<Rightarrow> bool \<Rightarrow> bool \<Rightarrow> root_stat \<Rightarrow> unit res" where
  "ensure_root st euid allow_unprivileged group_exists created =
     (case st of
        Some s \<Rightarrow> check_root s
      | None \<Rightarrow>
          if euid \<noteq> 0 then (if allow_unprivileged then Inr () else Inl PermissionError)
          else if \<not> group_exists then Inl (RuntimeError ''nas-operations group'')
          else check_root (created\<lparr>root_is_link := False, root_is_dir := True, root_mode := 1528\<rparr>))"

record lock_file =
  lock_regular :: bool
  lock_mode :: nat
  lock_owner :: nat
  lock_holder :: "nat option"
  lock_text :: string

definition open_lock :: "unit res \<Rightarrow> nat \<Rightarrow> lock_file \<Rightarrow> lock_file res" where
  "open_lock root euid f =
     and_then root (\<lambda>_.
       if \<not> lock_regular f then Inl (RuntimeError ''not a regular file'')
       else if lock_mode f mod 8 \<noteq> 0 then Inl (RuntimeError ''grants access to other users'')
       else Inr (if euid = 0 \<or> lock_owner f = euid then f\<lparr>lock_mode := 432\<rparr> else f))"

section \<open>Metadata\<close>

definition read_metadata :: "(string \<Rightarrow> json option) \<Rightarrow> string \<Rightarrow> json_dict option" where
  "read_metadata loads text =
     (let raw = take_points 4096 text
      in if py_strip raw = [] then None
         else (case loads raw of Some (JObj d) \<Rightarrow> Some d | _ \<Rightarrow> None))"

definition metadata_value :: "string \<Rightarrow> string \<Rightarrow> string list \<Rightarrow> nat \<Rightarrow> json" where
  "metadata_value token action classes pid =
     JObj [(''action'', JStr action), (''classes'', JList (map JStr classes)), (''pid'', JInt (int pid)), (''token'', JStr token)]"

definition metadata :: "(json \<Rightarrow> string) \<Rightarrow> string \<Rightarrow> string \<Rightarrow> string list \<Rightarrow> nat \<Rightarrow> string" where
  "metadata dumps token action classes pid = dumps (metadata_value token action classes pid) @ [CHR 0x0A]"

definition classes_cover :: "string list \<Rightarrow> string list \<Rightarrow> bool" where
  "classes_cover held requested \<longleftrightarrow> ''appliance'' \<in> set held \<or> set requested \<subseteq> set held"

section \<open>Validation and reservation\<close>

definition held_classes :: "json_dict \<Rightarrow> string list option" where
  "held_classes d =
     (case dict_get d ''classes'' of
        Some (JList xs) \<Rightarrow> (case map_res as_str xs of Inr names \<Rightarrow> Some names | Inl _ \<Rightarrow> None)
      | _ \<Rightarrow> None)"

definition validate_coordination_token ::
  "(string \<Rightarrow> json option) \<Rightarrow> lock_file res \<Rightarrow> string \<Rightarrow> string list \<Rightarrow> unit res" where
  "validate_coordination_token loads opened token classes =
     (if \<not> token_matches token then Inl (OperationBusyError ''malformed token'') else
      and_then (normalize_classes classes) (\<lambda>requested.
      and_then opened (\<lambda>f.
      if lock_holder f = None then Inl (OperationBusyError ''no longer owns the lock'') else
      (case read_metadata loads (lock_text f) of
         None \<Rightarrow> Inl (OperationBusyError ''different operation'')
       | Some d \<Rightarrow>
           if dict_get d ''token'' \<noteq> Some (JStr token) then Inl (OperationBusyError ''different operation'')
           else (case held_classes d of
                   None \<Rightarrow> Inl (OperationBusyError ''not covered'')
                 | Some held \<Rightarrow> if classes_cover held requested then Inr () else Inl (OperationBusyError ''not covered''))))))"

definition current_coordination_token :: "string option \<Rightarrow> string option \<Rightarrow> string res" where
  "current_coordination_token context env =
     (case context of
        Some t \<Rightarrow> if t \<noteq> [] then Inr t else (case env of Some e \<Rightarrow> Inr e | None \<Rightarrow> Inl (RuntimeError ''no token''))
      | None \<Rightarrow> (case env of Some e \<Rightarrow> Inr e | None \<Rightarrow> Inl (RuntimeError ''no token'')))"

record reservation =
  res_action :: string
  res_classes :: "string list"
  res_token :: string

definition reserve_operation :: "lock_file res \<Rightarrow> string \<Rightarrow> string list \<Rightarrow> string \<Rightarrow> reservation res" where
  "reserve_operation opened action classes fresh =
     and_then (normalize_classes classes) (\<lambda>normalized.
     and_then opened (\<lambda>f.
     if lock_holder f \<noteq> None then Inl (OperationBusyError ''conflict'')
     else Inr \<lparr>res_action = action, res_classes = normalized, res_token = fresh\<rparr>))"

definition cancel_reservation :: "string \<Rightarrow> unit res" where
  "cancel_reservation token = (if token_matches token then Inr () else Inl (ValueError ''request token''))"

section \<open>Operations\<close>

record active_operation =
  op_action :: string
  op_classes :: "string list"
  op_pid :: nat
  op_started :: int
  op_boot_id :: string
  op_process_start :: string
  op_token :: string

definition active_json :: "active_operation \<Rightarrow> json" where
  "active_json a =
     JObj [(''action'', JStr (op_action a)), (''classes'', JList (map JStr (op_classes a))), (''pid'', JInt (int (op_pid a))),
       (''startedAt'', JInt (op_started a)), (''bootId'', JStr (op_boot_id a)), (''processStart'', JStr (op_process_start a))]"

text \<open>What one process has: its identity, clock and boot id, and the token in its environment.\<close>

record process =
  proc_pid :: nat
  proc_now :: int
  proc_boot :: string
  proc_env :: "string option"

definition active_for :: "string \<Rightarrow> string list \<Rightarrow> process \<Rightarrow> string \<Rightarrow> active_operation" where
  "active_for action normalized p token =
     \<lparr>op_action = action, op_classes = normalized, op_pid = proc_pid p, op_started = proc_now p,
      op_boot_id = proc_boot p, op_process_start = int_str (proc_now p), op_token = token\<rparr>"

text \<open>
  Entering the context. With an inherited token nothing is locked; otherwise the lock is taken,
  the metadata written and the token exported. A blocking call on a held lock waits, which is
  the result \<open>None\<close>. The flag says whether this operation owns the lock.
\<close>

definition acquire_operation ::
  "(string \<Rightarrow> json option) \<Rightarrow> (json \<Rightarrow> string) \<Rightarrow> lock_file res \<Rightarrow> string \<Rightarrow> bool \<Rightarrow> string \<Rightarrow> string list \<Rightarrow> process
     \<Rightarrow> (bool \<times> active_operation \<times> lock_file \<times> process) option res" where
  "acquire_operation loads dumps opened fresh blocking action classes p =
     and_then (normalize_classes classes) (\<lambda>normalized.
     let inherited = (case proc_env p of Some t \<Rightarrow> t | None \<Rightarrow> []) in
     if inherited \<noteq> [] then
       and_then (validate_coordination_token loads opened inherited normalized) (\<lambda>_.
       and_then opened (\<lambda>f. Inr (Some (False, active_for action normalized p inherited, f, p))))
     else and_then opened (\<lambda>f.
       if lock_holder f \<noteq> None then (if blocking then Inr None else Inl (OperationBusyError ''conflict''))
       else Inr (Some (True, active_for action normalized p fresh,
         f\<lparr>lock_holder := Some (proc_pid p), lock_text := metadata dumps fresh action normalized (proc_pid p)\<rparr>,
         p\<lparr>proc_env := Some fresh\<rparr>))))"

text \<open>
  Leaving the context of an operation that owns the lock: the previous environment is restored,
  the file emptied and the lock released. An operation with an inherited token leaves nothing.
\<close>

definition release_operation :: "bool \<Rightarrow> string option \<Rightarrow> lock_file \<Rightarrow> process \<Rightarrow> lock_file \<times> process" where
  "release_operation owns previous_env f p =
     (if owns then (f\<lparr>lock_holder := None, lock_text := []\<rparr>, p\<lparr>proc_env := previous_env\<rparr>) else (f, p))"

definition text_items :: "json list \<Rightarrow> string list" where
  "text_items xs = concat (map (\<lambda>x. case x of JStr s \<Rightarrow> [s] | _ \<Rightarrow> []) xs)"

definition unknown_owner :: json where
  "unknown_owner = JObj [(''action'', JStr ''unknown''), (''classes'', JList []), (''pid'', JNull),
     (''diagnostic'', JStr ''operation lock is held but its metadata is missing or unreadable'')]"

definition operation_state :: "(string \<Rightarrow> json option) \<Rightarrow> lock_file res \<Rightarrow> json res" where
  "operation_state loads opened =
     and_then opened (\<lambda>f.
       let snapshot = (\<lambda>busy active. JObj [(''busyClasses'', JList (map JStr busy)), (''active'', JList active),
             (''reservations'', JList []), (''snapshotSemantics'', JStr ''advisory-single-kernel-flock'')])
       in if lock_holder f = None then Inr (snapshot [] [])
          else (case read_metadata loads (lock_text f) of
                  None \<Rightarrow> Inr (snapshot [] [unknown_owner])
                | Some d \<Rightarrow>
                    let classes = (case dict_get d ''classes'' of Some (JList xs) \<Rightarrow> text_items xs | _ \<Rightarrow> [])
                    in if classes = [] then Inr (snapshot [] [unknown_owner])
                       else Inr (snapshot (sort classes) [JObj [
                         (''action'', case dict_get d ''action'' of Some v \<Rightarrow> v | None \<Rightarrow> JStr ''operation''),
                         (''classes'', JList (map JStr (sort classes))),
                         (''pid'', case dict_get d ''pid'' of Some v \<Rightarrow> v | None \<Rightarrow> JNull)]])))"

section \<open>The command line\<close>

record run_args =
  arg_action :: "string option"
  arg_classes :: "string list"
  arg_validate :: bool
  arg_command :: "string list"

text \<open>A usage error of the argument parser exits with 2.\<close>

definition strip_dashes :: "string list \<Rightarrow> string list" where
  "strip_dashes command = (case command of c # cs \<Rightarrow> if c = ''--'' then cs else command | [] \<Rightarrow> [])"

definition busy_code :: "int \<Rightarrow> 'a res \<Rightarrow> ('a \<Rightarrow> int res) \<Rightarrow> int res" where
  "busy_code rc r k = (case r of Inl (OperationBusyError _) \<Rightarrow> Inr rc | Inl e \<Rightarrow> Inl e | Inr x \<Rightarrow> k x)"

definition main ::
  "(string \<Rightarrow> json option) \<Rightarrow> (json \<Rightarrow> string) \<Rightarrow> lock_file res \<Rightarrow> string \<Rightarrow> (string list \<Rightarrow> string option \<Rightarrow> int)
     \<Rightarrow> run_args \<Rightarrow> process \<Rightarrow> int res" where
  "main loads dumps opened fresh run args p =
     (if arg_classes args = [] \<or> \<not> list_all (\<lambda>c. c \<in> set KNOWN_CLASSES) (arg_classes args) then Inr 2 else
      let token = (case proc_env p of Some t \<Rightarrow> if t = [] then None else Some t | None \<Rightarrow> None) in
      if arg_validate args then
        (if arg_command args \<noteq> [] then Inr 2
         else (case token of
                 None \<Rightarrow> Inr 76
               | Some t \<Rightarrow> busy_code 76 (validate_coordination_token loads opened t (arg_classes args)) (\<lambda>_. Inr 0)))
      else if arg_action args = None \<or> arg_action args = Some [] then Inr 2
      else let command = strip_dashes (arg_command args) in
        if command = [] then Inr 2
        else (case token of
                Some t \<Rightarrow> busy_code 76 (validate_coordination_token loads opened t (arg_classes args))
                  (\<lambda>_. Inr (run command (Some t)))
              | None \<Rightarrow> busy_code 75 (acquire_operation loads dumps opened fresh False (the (arg_action args)) (arg_classes args) p)
                  (\<lambda>r. case r of
                     Some (_, active, _, _) \<Rightarrow> Inr (run command (Some (op_token active)))
                   | None \<Rightarrow> Inr 0)))"

section \<open>Processes\<close>

text \<open>
  The processes of the appliance: each has a token in its environment and a stack of the
  operations it is inside, innermost first, with the environment to restore.
\<close>

type_synonym entered = "bool \<times> active_operation \<times> string option"

record world =
  world_lock :: lock_file
  world_env :: "nat \<Rightarrow> string option"
  world_ops :: "nat \<Rightarrow> entered list"

text \<open>The label of a step: which process begins, ends or spawns, and what it asks for.\<close>

datatype world_label =
    BeginOp nat nat "unit res" string bool string "string list" int string
  | EndOp nat
  | Spawn nat nat

definition caller :: "world \<Rightarrow> nat \<Rightarrow> int \<Rightarrow> string \<Rightarrow> process" where
  "caller w pid now boot = \<lparr>proc_pid = pid, proc_now = now, proc_boot = boot, proc_env = world_env w pid\<rparr>"

definition enter :: "nat \<Rightarrow> bool \<times> active_operation \<times> lock_file \<times> process \<Rightarrow> world \<Rightarrow> world" where
  "enter pid = (\<lambda>(owns, a, f, p) w. w\<lparr>world_lock := f, world_env := (world_env w)(pid := proc_env p),
     world_ops := (world_ops w)(pid := (owns, a, world_env w pid) # world_ops w pid)\<rparr>)"

definition leave :: "nat \<Rightarrow> entered \<Rightarrow> world \<Rightarrow> world" where
  "leave pid = (\<lambda>(owns, a, previous) w.
     let (f, p) = release_operation owns previous (world_lock w) (caller w pid 0 [])
     in w\<lparr>world_lock := f, world_env := (world_env w)(pid := proc_env p),
          world_ops := (world_ops w)(pid := tl (world_ops w pid))\<rparr>)"

inductive world_step ::
  "(string \<Rightarrow> json option) \<Rightarrow> (json \<Rightarrow> string) \<Rightarrow> world_label \<Rightarrow> world \<Rightarrow> world \<Rightarrow> bool" for loads dumps where
  begin_op: "acquire_operation loads dumps (open_lock root euid (world_lock w)) fresh blocking action classes
      (caller w pid now boot) = Inr (Some r)
    \<Longrightarrow> world_step loads dumps (BeginOp pid euid root fresh blocking action classes now boot) w (enter pid r w)"
| end_op: "world_ops w pid = e # es \<Longrightarrow> world_step loads dumps (EndOp pid) w (leave pid e w)"
| spawn: "world_ops w child = [] \<Longrightarrow>
    world_step loads dumps (Spawn parent child) w (w\<lparr>world_env := (world_env w)(child := world_env w parent)\<rparr>)"

inductive_cases begin_opE: "world_step loads dumps (BeginOp pid euid root fresh blocking action classes now boot) w w'"

text \<open>No operation runs, and the lock is free.\<close>

definition idle_world :: "world \<Rightarrow> bool" where
  "idle_world w \<longleftrightarrow> lock_holder (world_lock w) = None \<and> (\<forall>pid. world_ops w pid = [])"

definition owners :: "world \<Rightarrow> nat \<Rightarrow> entered list" where
  "owners w pid = filter fst (world_ops w pid)"

text \<open>
  A process has an owning operation exactly when it holds the lock, then exactly one, and the
  lock file describes that operation.
\<close>

definition lock_inv :: "(json \<Rightarrow> string) \<Rightarrow> world \<Rightarrow> bool" where
  "lock_inv dumps w \<longleftrightarrow>
     (\<forall>pid. lock_holder (world_lock w) \<noteq> Some pid \<longrightarrow> owners w pid = []) \<and>
     (\<forall>pid. lock_holder (world_lock w) = Some pid \<longrightarrow> (\<exists>a env. owners w pid = [(True, a, env)] \<and>
        lock_text (world_lock w) = metadata dumps (op_token a) (op_action a) (op_classes a) pid))"

lemma open_lock_Inr:
  assumes "open_lock root euid f = Inr f'"
  shows "lock_holder f' = lock_holder f" "lock_text f' = lock_text f"
  using assms by (auto simp: open_lock_def and_then_Inr_iff split: if_split_asm)

lemma acquire_Inr:
  assumes "acquire_operation loads dumps opened fresh blocking action classes p = Inr (Some (owns, a, f', p'))"
  obtains f normalized where "opened = Inr f" "normalize_classes classes = Inr normalized" "owns" "lock_holder f = None"
      "a = active_for action normalized p fresh" "proc_env p' = Some fresh"
      "f' = f\<lparr>lock_holder := Some (proc_pid p), lock_text := metadata dumps fresh action normalized (proc_pid p)\<rparr>"
  | f normalized t where "opened = Inr f" "normalize_classes classes = Inr normalized" "\<not> owns" "f' = f" "p' = p"
      "proc_env p = Some t" "a = active_for action normalized p t"
      "validate_coordination_token loads opened t normalized = Inr ()"
  using assms
  by (auto simp: acquire_operation_def Let_def and_then_Inr_iff split: if_split_asm option.split_asm)

lemma enter_inv:
  assumes "lock_inv dumps w"
    and "acquire_operation loads dumps (open_lock root euid (world_lock w)) fresh blocking action classes
      (caller w pid now boot) = Inr (Some r)"
  shows "lock_inv dumps (enter pid r w)"
proof -
  obtain owns a f' p' where r: "r = (owns, a, f', p')" by (cases r)
  from assms(2) [unfolded r] have "lock_inv dumps (enter pid (owns, a, f', p') w)"
  proof (cases rule: acquire_Inr)
    case (1 f normalized)
    have "lock_holder (world_lock w) = None" using open_lock_Inr(1) [OF 1(1)] 1(4) by simp
    with assms(1) have "owners w q = []" for q by (simp add: lock_inv_def)
    then show ?thesis
      using 1 by (auto simp: lock_inv_def enter_def owners_def caller_def active_for_def)
  next
    case (2 f normalized t)
    then have "owners (enter pid (owns, a, f', p') w) q = owners w q" for q
      by (simp add: enter_def owners_def)
    moreover have "lock_holder f' = lock_holder (world_lock w)" "lock_text f' = lock_text (world_lock w)"
      using open_lock_Inr [OF 2(1)] 2(4) by auto
    ultimately show ?thesis using assms(1) unfolding lock_inv_def by (simp add: enter_def [of pid])
  qed
  then show ?thesis by (simp add: r)
qed

lemma leave_inv:
  assumes "lock_inv dumps w" "world_ops w pid = e # es"
  shows "lock_inv dumps (leave pid e w)"
proof -
  obtain owns a previous where e: "e = (owns, a, previous)" by (cases e)
  show ?thesis
  proof (cases owns)
    case True
    then have own: "e \<in> set (owners w pid)" by (simp add: owners_def assms(2) e)
    then have "lock_holder (world_lock w) = Some pid" using assms(1) by (fastforce simp: lock_inv_def)
    then have others: "\<forall>q. q \<noteq> pid \<longrightarrow> owners w q = []" and "\<exists>x. owners w pid = [x]"
      using assms(1) by (auto simp: lock_inv_def)
    then have "filter fst es = []" using True by (auto simp: owners_def assms(2) e)
    with others True show ?thesis
      by (auto simp: lock_inv_def leave_def release_operation_def owners_def e assms(2))
  next
    case False
    then have "owners (leave pid e w) q = owners w q" for q
      by (simp add: leave_def release_operation_def owners_def e assms(2))
    with False assms(1) show ?thesis by (simp add: lock_inv_def leave_def release_operation_def e)
  qed
qed

interpretation processes: invariant_system idle_world "world_step loads dumps" "lock_inv dumps"
  for loads :: "string \<Rightarrow> json option" and dumps :: "json \<Rightarrow> string"
proof unfold_locales
  fix w assume "idle_world w"
  then show "lock_inv dumps w" by (simp add: idle_world_def lock_inv_def owners_def)
next
  fix w l w' assume "lock_inv dumps w" "world_step loads dumps l w w'"
  from this(2,1) show "lock_inv dumps w'"
  proof cases
    case spawn
    with \<open>lock_inv dumps w\<close> show ?thesis by (simp add: lock_inv_def owners_def)
  qed (auto intro: enter_inv leave_inv \<open>lock_inv dumps w\<close>)
qed

section \<open>Facts about classes and metadata\<close>

lemma normalize_classes_Inr:
  assumes "normalize_classes classes = Inr ns"
  shows "set ns = set classes" "ns = sort (remdups classes)" "ns \<noteq> []" "set ns \<subseteq> set KNOWN_CLASSES"
proof -
  obtain names where n: "map_res validate_class classes = Inr names" "names \<noteq> []" "ns = sort (remdups names)"
    using assms by (auto simp: normalize_classes_def and_then_Inr_iff split: if_split_asm)
  have "names = classes \<and> set classes \<subseteq> set KNOWN_CLASSES"
    using n(1) by (induction classes arbitrary: names)
      (auto simp: validate_class_def and_then_Inr_iff split: if_split_asm)
  with n show "set ns = set classes" "ns = sort (remdups classes)" "ns \<noteq> []" "set ns \<subseteq> set KNOWN_CLASSES"
    by auto (metis set_empty set_remdups set_sort)+
qed

lemma map_res_as_str: "map_res as_str (map JStr ss) = Inr ss"
  by (induction ss) auto

lemma held_classes_metadata:
  assumes "metadata_value t a cs q = JObj d"
  shows "held_classes d = Some cs" "dict_get d ''token'' = Some (JStr t)"
  using assms by (auto simp: metadata_value_def held_classes_def map_res_as_str)

lemma validate_token_Inr:
  assumes "validate_coordination_token loads (Inr f) token classes = Inr u"
  obtains d held requested where "lock_holder f \<noteq> None" "read_metadata loads (lock_text f) = Some d"
    "dict_get d ''token'' = Some (JStr token)" "held_classes d = Some held"
    "normalize_classes classes = Inr requested" "classes_cover held requested"
  using assms
  by (auto simp: validate_coordination_token_def and_then_Inr_iff split: if_split_asm option.split_asm)

section \<open>Properties\<close>

text \<open>
  C3: Privileged mutations are mutually exclusive: in every reachable state of the processes at
  most one entered operation owns the appliance lock.
\<close>

theorem lock_mutual_exclusion:
  assumes "processes.reach loads dumps w"
    and "(True, a, e) \<in> set (world_ops w p)" "(True, b, e') \<in> set (world_ops w q)"
  shows "p = q \<and> a = b \<and> lock_holder (world_lock w) = Some p"
proof -
  have inv: "lock_inv dumps w" using assms(1) by (rule processes.reach_inv)
  have own: "(True, a, e) \<in> set (owners w p)" "(True, b, e') \<in> set (owners w q)"
    using assms(2,3) by (simp_all add: owners_def)
  have h: "lock_holder (world_lock w) = Some p" "lock_holder (world_lock w) = Some q"
    using inv own unfolding lock_inv_def by (metis empty_iff empty_set)+
  then obtain a' env where "owners w p = [(True, a', env)]" using inv unfolding lock_inv_def by blast
  with own h show ?thesis by auto
qed

definition free_lock :: lock_file where
  "free_lock = \<lparr>lock_regular = True, lock_mode = 432, lock_owner = 0, lock_holder = None, lock_text = []\<rparr>"

definition idle :: world where
  "idle = \<lparr>world_lock = free_lock, world_env = (\<lambda>_. None), world_ops = (\<lambda>_. [])\<rparr>"

definition sample_token :: string where
  "sample_token = ''0123456789abcdef0123456789abcdef''"

definition sample_dumps :: "json \<Rightarrow> string" where
  "sample_dumps v = ''m''"

definition sample_loads :: "string \<Rightarrow> json option" where
  "sample_loads s = (if s = ''m'' @ [CHR 0x0A] then Some (metadata_value sample_token ''setup'' [''state''] 1) else None)"

definition sample_active :: active_operation where
  "sample_active = active_for ''setup'' [''state''] (caller idle 1 5 ''boot'') sample_token"

definition sample_busy_lock :: lock_file where
  "sample_busy_lock = free_lock\<lparr>lock_holder := Some 1, lock_text := ''m'' @ [CHR 0x0A]\<rparr>"

definition sample_busy :: world where
  "sample_busy = enter 1 (True, sample_active, sample_busy_lock, (caller idle 1 5 ''boot'')\<lparr>proc_env := Some sample_token\<rparr>) idle"

lemma sample_acquire:
  "acquire_operation sample_loads sample_dumps (open_lock (Inr ()) 0 (world_lock idle)) sample_token False ''setup'' [''state'']
     (caller idle 1 5 ''boot'') =
   Inr (Some (True, sample_active, sample_busy_lock, (caller idle 1 5 ''boot'')\<lparr>proc_env := Some sample_token\<rparr>))"
  by code_simp

lemma sample_busy_reach: "processes.reach sample_loads sample_dumps sample_busy"
proof (rule processes.reach.move)
  show "processes.reach sample_loads sample_dumps idle"
    by (rule processes.reach.start) (simp add: idle_world_def idle_def free_lock_def)
  show "world_step sample_loads sample_dumps (BeginOp 1 0 (Inr ()) sample_token False ''setup'' [''state''] 5 ''boot'') idle sample_busy"
    unfolding sample_busy_def by (rule world_step.begin_op) (rule sample_acquire)
qed

theorem lock_mutual_exclusion_witness: "lock_holder (world_lock sample_busy) = Some 1"
proof -
  have "(True, sample_active, None) \<in> set (world_ops sample_busy 1)" by (simp add: sample_busy_def enter_def idle_def)
  from lock_mutual_exclusion [OF sample_busy_reach this this] show ?thesis by blast
qed

text \<open>
  An operation that starts under an inherited token is nested in the operation that holds
  the lock at that moment: the tokens agree and the holder's classes cover the requested
  ones. (The metadata that the holder wrote is read back as written or not at all.)
\<close>

theorem nested_operation_covered:
  assumes "processes.reach loads dumps w" "lock_holder (world_lock w) = Some q" "owners w q = [(True, b, env)]"
    and "loads (take_points 4096 (metadata dumps (op_token b) (op_action b) (op_classes b) q)) \<in>
      {None, Some (metadata_value (op_token b) (op_action b) (op_classes b) q)}"
    and "acquire_operation loads dumps (open_lock root euid (world_lock w)) fresh blocking action classes
      (caller w pid now boot) = Inr (Some (False, a, f, p))"
  shows "op_token a = op_token b \<and> classes_cover (op_classes b) (op_classes a)"
  using assms(5)
proof (cases rule: acquire_Inr)
  case (2 f' normalized t)
  have "lock_inv dumps w" using assms(1) by (rule processes.reach_inv)
  then have content: "lock_text (world_lock w) = metadata dumps (op_token b) (op_action b) (op_classes b) q"
    using assms(2,3) by (auto simp: lock_inv_def)
  obtain d held requested where d: "read_metadata loads (lock_text f') = Some d" "dict_get d ''token'' = Some (JStr t)"
      "held_classes d = Some held" "normalize_classes normalized = Inr requested" "classes_cover held requested"
    using 2(8) unfolding 2(1) by (rule validate_token_Inr)
  have "JObj d = metadata_value (op_token b) (op_action b) (op_classes b) q"
    using d(1) assms(4) open_lock_Inr(2) [OF 2(1)] content
    by (auto simp: read_metadata_def Let_def split: if_split_asm option.split_asm json.split_asm)
  from held_classes_metadata [OF this [symmetric]] d(2,3) have t: "t = op_token b" "held = op_classes b" by auto
  have "set requested = set normalized" using normalize_classes_Inr [OF d(4)] by simp
  with d(5) t 2(7) show ?thesis by (simp add: classes_cover_def active_for_def)
qed simp

theorem nested_operation_covered_witness:
  "classes_cover [''state''] (op_classes (active_for ''sub'' [''state''] (caller sample_busy 1 6 ''boot'') sample_token))"
proof -
  have own: "owners sample_busy 1 = [(True, sample_active, None)]"
    by (simp add: owners_def sample_busy_def enter_def idle_def)
  have h: "lock_holder (world_lock sample_busy) = Some 1" by code_simp
  have "sample_loads (take_points 4096 (metadata sample_dumps (op_token sample_active) (op_action sample_active)
        (op_classes sample_active) 1)) =
      Some (metadata_value (op_token sample_active) (op_action sample_active) (op_classes sample_active) 1)" by code_simp
  then have l: "sample_loads (take_points 4096 (metadata sample_dumps (op_token sample_active) (op_action sample_active)
        (op_classes sample_active) 1)) \<in>
      {None, Some (metadata_value (op_token sample_active) (op_action sample_active) (op_classes sample_active) 1)}"
    by blast
  have acq: "acquire_operation sample_loads sample_dumps (open_lock (Inr ()) 0 (world_lock sample_busy)) [] False ''sub'' [''state'']
      (caller sample_busy 1 6 ''boot'') = Inr (Some (False, active_for ''sub'' [''state''] (caller sample_busy 1 6 ''boot'') sample_token,
        sample_busy_lock, caller sample_busy 1 6 ''boot''))" by code_simp
  have c: "op_classes sample_active = [''state'']" by code_simp
  from nested_operation_covered [OF sample_busy_reach h own l acq] show ?thesis unfolding c by (rule conjunct2)
qed

text \<open>
  Leaving an owning operation undoes entering it: the lock is free again, its file empty,
  and the process has the environment and the operations it had before.
\<close>

theorem release_restores:
  assumes "acquire_operation loads dumps (open_lock root euid (world_lock w)) fresh blocking action classes
      (caller w pid now boot) = Inr (Some (True, a, f, p))"
  defines "w' \<equiv> enter pid (True, a, f, p) w"
  shows "world_step loads dumps (EndOp pid) w' (leave pid (hd (world_ops w' pid)) w') \<and>
    lock_holder (world_lock (leave pid (hd (world_ops w' pid)) w')) = None \<and>
    lock_text (world_lock (leave pid (hd (world_ops w' pid)) w')) = [] \<and>
    world_env (leave pid (hd (world_ops w' pid)) w') = world_env w \<and>
    world_ops (leave pid (hd (world_ops w' pid)) w') = world_ops w"
proof -
  have ops: "world_ops w' pid = (True, a, world_env w pid) # world_ops w pid" by (simp add: w'_def enter_def)
  show ?thesis
    using world_step.end_op [OF ops, of loads dumps]
    by (simp add: ops leave_def release_operation_def caller_def) (simp add: w'_def enter_def)
qed

theorem release_restores_witness: "lock_holder (world_lock (leave 1 (hd (world_ops sample_busy 1)) sample_busy)) = None"
  using release_restores [OF sample_acquire] unfolding sample_busy_def [symmetric] by blast

text \<open>
  Launching a command while another operation holds the lock exits with 75, and with a
  token that does not match the holder with 76; in neither case is the command run.
\<close>

theorem main_busy:
  assumes "arg_classes args \<noteq> []" "list_all (\<lambda>c. c \<in> set KNOWN_CLASSES) (arg_classes args)" "\<not> arg_validate args"
    and "arg_action args = Some action" "action \<noteq> []" "strip_dashes (arg_command args) \<noteq> []" "lock_holder f \<noteq> None"
  shows "(proc_env p = None \<longrightarrow> main loads dumps (Inr f) fresh run args p = Inr 75) \<and>
    (\<forall>t r. proc_env p = Some t \<and> t \<noteq> [] \<and>
       validate_coordination_token loads (Inr f) t (arg_classes args) = Inl (OperationBusyError r) \<longrightarrow>
       main loads dumps (Inr f) fresh run args p = Inr 76)"
proof -
  have "map_res validate_class (arg_classes args) = Inr (arg_classes args)"
    using assms(2) by (induction "arg_classes args" arbitrary: args)
      (auto simp: validate_class_def list_all_iff map_res_Inr_iff list_all2_same)
  then have "normalize_classes (arg_classes args) = Inr (sort (remdups (arg_classes args)))"
    using assms(1) by (simp add: normalize_classes_def)
  then have "acquire_operation loads dumps (Inr f) fresh False action (arg_classes args) p = Inl (OperationBusyError ''conflict'')"
    if "proc_env p = None" using that assms(7) by (simp add: acquire_operation_def)
  then show ?thesis using assms by (auto simp: main_def busy_code_def Let_def)
qed

theorem main_busy_witness:
  "main sample_loads sample_dumps (Inr sample_busy_lock) [] (\<lambda>_ _. 0)
     \<lparr>arg_action = Some ''x'', arg_classes = [''state''], arg_validate = False, arg_command = [''--'', ''true'']\<rparr>
     (caller idle 2 7 ''boot'') = Inr 75"
  using main_busy [where args = "\<lparr>arg_action = Some ''x'', arg_classes = [''state''], arg_validate = False,
      arg_command = [''--'', ''true'']\<rparr>" and f = sample_busy_lock and p = "caller idle 2 7 ''boot''" and action = "''x''"]
  by (simp add: KNOWN_CLASSES_def strip_dashes_def sample_busy_lock_def caller_def idle_def)

end
