(* ===== verification/Guarded_Apply.thy ===== *)
theory Guarded_Apply
  imports Operation_Journal State_System Posix_Path
begin

text \<open>
  The durable rollback guard (\<open>services/nas_guarded_apply.py\<close>). The per-guard record is a JSON
  file that every command reads and writes under the guard's file lock; a critical section is a
  function of the file that returns a result or an error together with the new file. Between
  the two critical sections of \<open>arm\<close> and of \<open>fired\<close> other processes may change the file: that
  change is the argument \<open>meanwhile\<close> there, and the step relation at the end interleaves the
  sections freely. The answers of \<open>systemctl\<close>, the clock, the process identifier and the
  failures of locking and writing are an environment record; a command is numbered by its
  position in the call, so that the same question may be answered differently later. The record
  is modelled up to the order of its keys.
\<close>

section \<open>Sections over the guard file\<close>

datatype guard_file = GMissing | GUnreadable | GInvalid | GJson json

type_synonym 'a guarded = "guard_file \<Rightarrow> 'a res \<times> guard_file"

definition give :: "'a res \<Rightarrow> 'a guarded" where
  "give r f = (r, f)"

definition gbind :: "'a guarded \<Rightarrow> ('a \<Rightarrow> 'b guarded) \<Rightarrow> 'b guarded" where
  "gbind m k f = (case m f of (Inl e, f') \<Rightarrow> (Inl e, f') | (Inr x, f') \<Rightarrow> k x f')"

abbreviation gerror :: "string \<Rightarrow> exn" where
  "gerror s \<equiv> RuntimeError s"

text \<open>\<open>systemctl i command\<close> answers the \<open>i\<close>-th command of a call; \<open>None\<close> is one that cannot be run.\<close>

record guard_env =
  lock_ok :: "nat \<Rightarrow> bool"
  write_ok :: "nat \<Rightarrow> bool"
  clock :: "nat \<Rightarrow> string"
  systemctl :: "nat \<Rightarrow> string list \<Rightarrow> command_result option"
  own_pid :: int
  python_path :: string
  script_path :: string
  systemctl_name :: string

definition ARMED :: string where "ARMED = ''armed''"
definition CLAIMED :: string where "CLAIMED = ''claimed''"
definition COMPLETED :: string where "COMPLETED = ''completed''"
definition FAILED :: string where "FAILED = ''failed''"
definition CANCELLED :: string where "CANCELLED = ''cancelled''"
definition COLLECTED :: string where "COLLECTED = ''collected''"

lemmas state_names = ARMED_def CLAIMED_def COMPLETED_def FAILED_def CANCELLED_def COLLECTED_def

definition run_guard :: "string list \<Rightarrow> bool \<Rightarrow> command_result option \<Rightarrow> command_result res" where
  "run_guard command check outcome =
     (case outcome of
        None \<Rightarrow> Inl (gerror ''unable to execute'')
      | Some r \<Rightarrow> if check \<and> returncode r \<noteq> 0 then Inl (gerror ''command failed'') else Inr r)"

definition unit_chars :: string where
  "unit_chars = ''abcdefghijklmnopqrstuvwxyzABCDEFGHIJKLMNOPQRSTUVWXYZ0123456789_.@:-''"

text \<open>\<open>unit.rsplit(".", 1)[0]\<close> of a text that has a dot.\<close>

definition before_last_dot :: "string \<Rightarrow> string" where
  "before_last_dot s = rev (tl (dropWhile (\<lambda>c. c \<noteq> CHR ''.'') (rev s)))"

definition validate_unit :: "string \<Rightarrow> string res" where
  "validate_unit unit =
     (if unit = [] \<or> 128 < py_len unit then Inl (gerror ''guard unit name'')
      else if \<not> list_all (\<lambda>c. c \<in> set unit_chars) unit then Inl (gerror ''unsafe guard unit name'')
      else if ends_with unit ''.service'' \<or> ends_with unit ''.timer'' then Inr (before_last_dot unit)
      else Inr unit)"

text \<open>\<open>made\<close> says whether the directory exists after \<open>mkdir\<close>.\<close>

definition validate_state_dir :: "bool \<Rightarrow> string \<Rightarrow> pure_path res" where
  "validate_state_dir made state_dir =
     (let path = pure_path state_dir in
      if state_dir = [] \<or> \<not> is_absolute path then Inl (gerror ''guard state directory'')
      else if \<not> made then Inl (gerror ''unable to create guard state directory'')
      else Inr path)"

definition state_path :: "string \<Rightarrow> pure_path \<Rightarrow> pure_path" where
  "state_path unit root = path_join root (unit @ ''.json'')"

definition lock_path :: "string \<Rightarrow> pure_path \<Rightarrow> pure_path" where
  "lock_path unit root = path_join root (unit @ ''.lock'')"

definition read_state :: "json_dict option guarded" where
  "read_state f =
     (case f of
        GMissing \<Rightarrow> (Inr None, f)
      | GUnreadable \<Rightarrow> (Inl (gerror ''unable to read guard state''), f)
      | GInvalid \<Rightarrow> (Inl (gerror ''guard state is corrupt''), f)
      | GJson v \<Rightarrow> (and_then (expect_obj (gerror ''guard state is corrupt'') v) (\<lambda>d. Inr (Some d)), f))"

definition write_state :: "guard_env \<Rightarrow> nat \<Rightarrow> json_dict \<Rightarrow> unit guarded" where
  "write_state env i payload f =
     (if write_ok env i then (Inr (), GJson (JObj payload)) else (Inl (gerror ''unable to persist guard state''), f))"

definition locked :: "guard_env \<Rightarrow> nat \<Rightarrow> 'a guarded \<Rightarrow> 'a guarded" where
  "locked env i body f = (if lock_ok env i then body f else (Inl (gerror ''unable to lock guard''), f))"

section \<open>Live units\<close>

definition show_field :: "string \<Rightarrow> (string, string) dict \<Rightarrow> (string, string) dict" where
  "show_field line props =
     (let key = takeWhile (\<lambda>c. c \<noteq> CHR ''='') line
      in case drop (length key) line of
           [] \<Rightarrow> props
         | _ # v \<Rightarrow> dict_set (py_strip key) (py_strip v) props)"

record live_unit =
  is_active :: bool
  is_failed :: bool
  load_state :: string
  active_state :: string
  sub_state :: string
  result_text :: string

definition field_or :: "(string, string) dict \<Rightarrow> string \<Rightarrow> string \<Rightarrow> string" where
  "field_or props k dflt = (case dict_get props k of Some v \<Rightarrow> v | None \<Rightarrow> dflt)"

definition describe_service :: "guard_env \<Rightarrow> nat \<Rightarrow> string \<Rightarrow> live_unit res" where
  "describe_service env i service =
     (let ask = (\<lambda>j command. run_guard command False (systemctl env (i + j) command)) in
      and_then (ask 0 [''is-active'', service]) (\<lambda>active.
      and_then (ask 1 [''is-failed'', service]) (\<lambda>failed.
      and_then (ask 2 [''show'', service, ''-p'', ''LoadState'', ''-p'', ''ActiveState'', ''-p'', ''SubState'', ''-p'', ''Result'']) (\<lambda>shown.
      let props = (if returncode shown = 0 then fold show_field (splitlines (stdout shown)) []
                    else [(''LoadState'', ''not-found'')]) in
      Inr \<lparr>is_active = returncode active = 0, is_failed = returncode failed = 0,
           load_state = field_or props ''LoadState'' ''unknown'',
           active_state = field_or props ''ActiveState'' ''unknown'',
           sub_state = field_or props ''SubState'' ''unknown'',
           result_text = field_or props ''Result'' ''''\<rparr>))))"

definition live_json :: "live_unit \<Rightarrow> json" where
  "live_json u = JObj [(''isActive'', JBool (is_active u)), (''isFailed'', JBool (is_failed u)),
     (''loadState'', JStr (load_state u)), (''activeState'', JStr (active_state u)),
     (''subState'', JStr (sub_state u)), (''result'', JStr (result_text u))]"

definition started :: "live_unit \<Rightarrow> bool" where
  "started u \<longleftrightarrow> is_active u \<or> active_state u \<in> {''active'', ''activating''}"

definition broken :: "live_unit \<Rightarrow> bool" where
  "broken u \<longleftrightarrow> is_failed u \<or> active_state u = ''failed''"

definition fired_wrapper :: "guard_env \<Rightarrow> string \<Rightarrow> string \<Rightarrow> string list \<Rightarrow> string list" where
  "fired_wrapper env unit state_dir rollback =
     [python_path env, script_path env, ''--state-dir'', state_dir, ''--systemctl'', systemctl_name env, ''--unit'', unit,
      ''fired'', ''--''] @ rollback"

definition terminal_error :: "string \<Rightarrow> exn" where
  "terminal_error state =
     (if state = CLAIMED then gerror ''rollback already claimed''
      else if state = COMPLETED then gerror ''rollback already completed''
      else if state = FAILED then gerror ''rollback already failed''
      else if state = CANCELLED then gerror ''guard already cancelled''
      else if state = COLLECTED then gerror ''guard already collected''
      else gerror ''guard is not armed'')"

text \<open>\<open>str(record.get("state", "unknown"))\<close>.\<close>

definition state_of :: "json_dict \<Rightarrow> string" where
  "state_of d = (case dict_get d ''state'' of Some v \<Rightarrow> py_str v | None \<Rightarrow> ''unknown'')"

section \<open>Arming\<close>

definition armed_payload :: "guard_env \<Rightarrow> string \<Rightarrow> string list \<Rightarrow> int \<Rightarrow> json_dict" where
  "armed_payload env unit command timeout =
     [(''schemaVersion'', JInt 1), (''unit'', JStr unit), (''timer'', JStr (unit @ ''.timer'')),
      (''service'', JStr (unit @ ''.service'')), (''state'', JStr ARMED),
      (''rollbackCommand'', JList (map JStr command)), (''timeoutSeconds'', JInt timeout),
      (''armedAt'', JStr (clock env 0)), (''updatedAt'', JStr (clock env 1))]"

definition check_prior :: "json_dict option \<Rightarrow> unit res" where
  "check_prior prior =
     (case prior of
        None \<Rightarrow> Inr ()
      | Some d \<Rightarrow>
          if state_of d \<in> {ARMED, CLAIMED} then Inl (gerror ''guard already active'')
          else if state_of d \<in> {COMPLETED, FAILED} then Inl (gerror ''unresolved prior guard outcome'')
          else Inr ())"

text \<open>The commands are numbered: 0 stops the timer, 1 to 3 and 4 to 6 describe service and timer.\<close>

definition check_units :: "guard_env \<Rightarrow> string \<Rightarrow> unit res" where
  "check_units env unit =
     and_then (run_guard [''stop'', unit @ ''.timer''] False (systemctl env 0 [''stop'', unit @ ''.timer''])) (\<lambda>_.
     and_then (describe_service env 1 (unit @ ''.service'')) (\<lambda>live.
     if started live then Inl (gerror ''rollback service is already active'')
     else if broken live then Inl (gerror ''rollback service already failed'')
     else and_then (describe_service env 4 (unit @ ''.timer'')) (\<lambda>timer_live.
       if active_state timer_live = ''active'' then Inl (gerror ''rollback timer is already armed'') else Inr ())))"

definition arm_record :: "guard_env \<Rightarrow> string \<Rightarrow> string list \<Rightarrow> int \<Rightarrow> unit guarded" where
  "arm_record env unit command timeout = locked env 0
     (gbind read_state (\<lambda>prior.
      gbind (give (check_prior prior)) (\<lambda>_.
      gbind (give (check_units env unit)) (\<lambda>_.
      write_state env 0 (armed_payload env unit command timeout)))))"

text \<open>The timer could not be started: the record is removed if it is still the one just written.\<close>

definition arm_withdraw :: "guard_env \<Rightarrow> string list \<Rightarrow> unit guarded" where
  "arm_withdraw env command = locked env 1
     (gbind read_state (\<lambda>current f.
        case current of
          Some d \<Rightarrow>
            if dict_get d ''state'' = Some (JStr ARMED) \<and> dict_get d ''rollbackCommand'' = Some (JList (map JStr command))
            then (Inr (), if write_ok env 1 then GMissing else f)
            else (Inr (), f)
        | None \<Rightarrow> (Inr (), f)))"

definition armed_result :: "string \<Rightarrow> pure_path \<Rightarrow> int \<Rightarrow> string list \<Rightarrow> json" where
  "armed_result unit root timeout command = JObj [(''ok'', JBool True), (''armed'', JBool True),
     (''unit'', JStr unit), (''timer'', JStr (unit @ ''.timer'')), (''state'', JStr ARMED),
     (''stateDir'', JStr (path_str root)), (''timeoutSeconds'', JInt timeout), (''rollbackCommand'', JList (map JStr command))]"

definition check_command :: "string list \<Rightarrow> unit res" where
  "check_command command =
     (case command of [] \<Rightarrow> Inl (gerror ''rollback command must not be empty'')
      | c # _ \<Rightarrow> if c = [] then Inl (gerror ''rollback command must not be empty'') else Inr ())"

text \<open>
  \<open>timeout\<close> is the JSON value given for the timeout, so that the type check is part of the model;
  \<open>timer_run\<close> is what \<open>systemd-run\<close> answers to its arguments, \<open>meanwhile\<close> what others do to the file while it runs.
\<close>

fun positive_int :: "json \<Rightarrow> int res" where
  "positive_int (JInt n) = (if n \<le> 0 then Inl (gerror ''guard timeout must be a positive integer'') else Inr n)"
| "positive_int _ = Inl (gerror ''guard timeout must be a positive integer'')"

definition timer_command :: "guard_env \<Rightarrow> string \<Rightarrow> string \<Rightarrow> int \<Rightarrow> string list \<Rightarrow> string list" where
  "timer_command env unit state_dir seconds command =
     [''--unit='' @ unit, ''--on-active='' @ int_str seconds @ ''s'', ''--timer-property=AccuracySec=1s'', ''--collect'',
      ''--quiet'', ''--''] @ fired_wrapper env unit state_dir command"

definition start_timer ::
  "guard_env \<Rightarrow> (string list \<Rightarrow> command_result option) \<Rightarrow> (guard_file \<Rightarrow> guard_file) \<Rightarrow> string list \<Rightarrow> string list
     \<Rightarrow> unit guarded" where
  "start_timer env timer_run meanwhile timer_args command f =
     (case run_guard timer_args False (timer_run timer_args) of
        Inl e \<Rightarrow> (Inl e, meanwhile f)
      | Inr r \<Rightarrow>
          if returncode r = 0 then (Inr (), meanwhile f)
          else gbind (arm_withdraw env command) (\<lambda>_. give (Inl (gerror ''unable to arm rollback timer''))) (meanwhile f))"

definition arm ::
  "guard_env \<Rightarrow> bool \<Rightarrow> (string list \<Rightarrow> command_result option) \<Rightarrow> (guard_file \<Rightarrow> guard_file) \<Rightarrow> string list \<Rightarrow> json \<Rightarrow> string
     \<Rightarrow> string \<Rightarrow> json guarded" where
  "arm env made timer_run meanwhile command timeout unit state_dir =
     gbind (give (validate_unit unit)) (\<lambda>unit.
     gbind (give (positive_int timeout)) (\<lambda>seconds.
     gbind (give (check_command command)) (\<lambda>_.
     gbind (give (validate_state_dir made state_dir)) (\<lambda>root.
     gbind (arm_record env unit command seconds) (\<lambda>_.
     gbind (start_timer env timer_run meanwhile (timer_command env unit (path_str root) seconds command) command) (\<lambda>_.
     give (Inr (armed_result unit root seconds command))))))))"

section \<open>Cancelling\<close>

definition observed_failure :: "guard_env \<Rightarrow> nat \<Rightarrow> json_dict \<Rightarrow> live_unit \<Rightarrow> json_dict" where
  "observed_failure env i d live = update_all [(''state'', JStr FAILED), (''updatedAt'', JStr (clock env i)),
     (''detail'', JStr ''cancel observed failed rollback service''), (''live'', live_json live)] d"

definition refuse_started :: "guard_env \<Rightarrow> nat \<Rightarrow> json_dict \<Rightarrow> live_unit \<Rightarrow> unit guarded" where
  "refuse_started env i d live =
     (if started live then give (Inl (gerror ''rollback service already started''))
      else if broken live then
        gbind (write_state env i (observed_failure env i d live)) (\<lambda>_. give (Inl (gerror ''rollback already failed'')))
      else give (Inr ()))"

text \<open>
  Commands 0 to 2 describe the service, 3 stops the timer, 4 to 6 describe the timer when stopping
  failed, 7 to 9 describe the service again.
\<close>

definition stop_timer :: "guard_env \<Rightarrow> string \<Rightarrow> unit res" where
  "stop_timer env unit =
     and_then (run_guard [''stop'', unit @ ''.timer''] False (systemctl env 3 [''stop'', unit @ ''.timer''])) (\<lambda>stopped.
     if returncode stopped = 0 then Inr ()
     else and_then (describe_service env 4 (unit @ ''.timer'')) (\<lambda>timer_live.
       if active_state timer_live = ''active'' then Inl (gerror ''unable to cancel rollback timer'') else Inr ()))"

definition cancelled_result :: "string \<Rightarrow> json" where
  "cancelled_result unit = JObj [(''ok'', JBool True), (''armed'', JBool False), (''unit'', JStr unit),
     (''timer'', JStr (unit @ ''.timer'')), (''state'', JStr CANCELLED)]"

definition require_record :: "json_dict option \<Rightarrow> json_dict res" where
  "require_record current =
     (case current of None \<Rightarrow> Inl (gerror ''no durable guard state'') | Some d \<Rightarrow> Inr d)"

definition cancel_section :: "guard_env \<Rightarrow> string \<Rightarrow> json guarded" where
  "cancel_section env unit = locked env 0
     (gbind read_state (\<lambda>current.
      gbind (give (require_record current)) (\<lambda>d.
      if state_of d \<noteq> ARMED then give (Inl (terminal_error (state_of d)))
      else gbind (give (describe_service env 0 (unit @ ''.service''))) (\<lambda>live.
        gbind (refuse_started env 0 d live) (\<lambda>_.
        gbind (give (stop_timer env unit)) (\<lambda>_.
        gbind (give (describe_service env 7 (unit @ ''.service''))) (\<lambda>after.
        gbind (refuse_started env 1 d after) (\<lambda>_.
        gbind (write_state env 2 (update_all [(''state'', JStr CANCELLED), (''updatedAt'', JStr (clock env 2))] d)) (\<lambda>_.
        give (Inr (cancelled_result unit)))))))))))"

definition cancel :: "guard_env \<Rightarrow> bool \<Rightarrow> string \<Rightarrow> string \<Rightarrow> json guarded" where
  "cancel env made unit state_dir =
     gbind (give (validate_unit unit)) (\<lambda>unit.
     gbind (give (validate_state_dir made state_dir)) (\<lambda>_. cancel_section env unit))"

section \<open>Firing\<close>

definition orphan_claim :: "guard_env \<Rightarrow> string \<Rightarrow> string list \<Rightarrow> json_dict" where
  "orphan_claim env unit command =
     [(''schemaVersion'', JInt 1), (''unit'', JStr unit), (''timer'', JStr (unit @ ''.timer'')),
      (''service'', JStr (unit @ ''.service'')), (''state'', JStr CLAIMED), (''rollbackCommand'', JList (map JStr command)),
      (''armedAt'', JStr (clock env 0)), (''updatedAt'', JStr (clock env 1)),
      (''detail'', JStr ''timer fired without prior armed record''), (''pid'', JInt (own_pid env))]"

definition skipped_result :: "string \<Rightarrow> string \<Rightarrow> json" where
  "skipped_result unit state = JObj [(''ok'', JBool True), (''unit'', JStr unit), (''state'', JStr state),
     (''ranRollback'', JBool False)]"

text \<open>The claim: \<open>Some\<close> result is an early return, \<open>None\<close> means the rollback is ours to run.\<close>

definition claim :: "guard_env \<Rightarrow> string \<Rightarrow> string list \<Rightarrow> json option guarded" where
  "claim env unit command = locked env 0
     (gbind read_state (\<lambda>current.
      case current of
        None \<Rightarrow> gbind (write_state env 0 (orphan_claim env unit command)) (\<lambda>_. give (Inr None))
      | Some d \<Rightarrow>
          if state_of d \<in> {CANCELLED, COMPLETED, FAILED, COLLECTED}
          then give (Inr (Some (skipped_result unit (state_of d))))
          else if state_of d \<noteq> ARMED then give (Inl (terminal_error (state_of d)))
          else gbind (write_state env 0 (update_all [(''state'', JStr CLAIMED), (''updatedAt'', JStr (clock env 0)),
              (''pid'', JInt (own_pid env))] d)) (\<lambda>_. give (Inr None))))"

text \<open>What running the rollback command gave: an exception with its message, or a finished process.\<close>

datatype rollback_end = RollbackRaised string | RollbackExited command_result

definition rollback_report :: "rollback_end \<Rightarrow> int \<times> string" where
  "rollback_report e =
     (case e of
        RollbackRaised message \<Rightarrow> (127, take_points 4000 message)
      | RollbackExited c \<Rightarrow> (returncode c, take_points 4000
          (py_strip (stderr c @ (if stderr c = [] then [] else [CHR 0x0A]) @ stdout c))))"

definition outcome_state :: "int \<Rightarrow> string" where
  "outcome_state exit_code = (if exit_code = 0 then COMPLETED else FAILED)"

definition finish :: "guard_env \<Rightarrow> string \<Rightarrow> string list \<Rightarrow> rollback_end \<Rightarrow> json guarded" where
  "finish env unit command e = locked env 1
     (gbind read_state (\<lambda>current.
      let d = (case current of Some d \<Rightarrow> d | None \<Rightarrow> []);
          (exit_code, tail) = rollback_report e in
      gbind (write_state env 1 (update_all [(''schemaVersion'', JInt 1), (''unit'', JStr unit),
        (''timer'', JStr (unit @ ''.timer'')), (''service'', JStr (unit @ ''.service'')),
        (''state'', JStr (outcome_state exit_code)), (''rollbackCommand'', JList (map JStr command)),
        (''updatedAt'', JStr (clock env 2)), (''exitCode'', JInt exit_code), (''outputTail'', JStr tail)] d)) (\<lambda>_.
      give (Inr (JObj [(''ok'', JBool (exit_code = 0)), (''unit'', JStr unit), (''state'', JStr (outcome_state exit_code)),
        (''exitCode'', JInt exit_code), (''ranRollback'', JBool True)])))))"

definition fired ::
  "guard_env \<Rightarrow> bool \<Rightarrow> rollback_end \<Rightarrow> (guard_file \<Rightarrow> guard_file) \<Rightarrow> string list \<Rightarrow> string \<Rightarrow> string \<Rightarrow> json guarded" where
  "fired env made ending meanwhile command unit state_dir =
     gbind (give (validate_unit unit)) (\<lambda>unit.
     gbind (give (check_command command)) (\<lambda>_.
     gbind (give (validate_state_dir made state_dir)) (\<lambda>_.
     gbind (claim env unit command) (\<lambda>early.
     case early of
       Some result \<Rightarrow> give (Inr result)
     | None \<Rightarrow> (\<lambda>f. finish env unit command ending (meanwhile f))))))"

section \<open>Collecting, reporting and the command line\<close>

definition collected_record :: "guard_env \<Rightarrow> json_dict \<Rightarrow> json_dict" where
  "collected_record env d = update_all [(''priorState'', JStr (state_of d)), (''priorExitCode'', field d ''exitCode''),
     (''state'', JStr COLLECTED), (''updatedAt'', JStr (clock env 0)), (''collectedAt'', JStr (clock env 1))] d"

definition collect_section :: "guard_env \<Rightarrow> string \<Rightarrow> json guarded" where
  "collect_section env unit = locked env 0
     (gbind read_state (\<lambda>current.
      gbind (give (require_record current)) (\<lambda>d.
      if state_of d \<in> {ARMED, CLAIMED} then give (Inl (gerror ''cannot collect active guard''))
      else if state_of d = COLLECTED then give (Inl (gerror ''guard already collected''))
      else gbind (give (run_guard [''stop'', unit @ ''.timer''] False (systemctl env 0 [''stop'', unit @ ''.timer'']))) (\<lambda>_.
        gbind (write_state env 0 (collected_record env d)) (\<lambda>_.
        give (Inr (JObj [(''ok'', JBool True), (''unit'', JStr unit), (''state'', JStr COLLECTED),
          (''priorState'', JStr (state_of d))])))))))"








section \<open>Concurrent commands\<close>

text \<open>
  The world of one guard: its file and the processes that have claimed it and run the rollback. A
  step is one critical section of any process, or the death of a process that runs the rollback.
\<close>

record guard_world =
  guard_record :: guard_file
  running :: "nat set"

datatype guard_label =
    Arm "string list" int
  | Withdraw "string list"
  | Cancel
  | Fire nat "string list"
  | Finish nat "string list" rollback_end
  | Die nat
  | Collect

inductive guard_step :: "string \<Rightarrow> guard_env \<times> guard_label \<Rightarrow> guard_world \<Rightarrow> guard_world \<Rightarrow> bool" for unit where
  arm: "arm_record env unit command timeout (guard_record w) = (r, f) \<Longrightarrow>
    guard_step unit (env, Arm command timeout) w (w\<lparr>guard_record := f\<rparr>)"
| withdraw: "arm_withdraw env command (guard_record w) = (r, f) \<Longrightarrow>
    guard_step unit (env, Withdraw command) w (w\<lparr>guard_record := f\<rparr>)"
| cancel: "cancel_section env unit (guard_record w) = (r, f) \<Longrightarrow>
    guard_step unit (env, Cancel) w (w\<lparr>guard_record := f\<rparr>)"
| claimed: "claim env unit command (guard_record w) = (Inr None, f) \<Longrightarrow> p \<notin> running w \<Longrightarrow>
    guard_step unit (env, Fire p command) w (w\<lparr>guard_record := f, running := insert p (running w)\<rparr>)"
| not_claimed: "claim env unit command (guard_record w) = (r, f) \<Longrightarrow> r \<noteq> Inr None \<Longrightarrow>
    guard_step unit (env, Fire p command) w (w\<lparr>guard_record := f\<rparr>)"
| finish: "p \<in> running w \<Longrightarrow> finish env unit command e (guard_record w) = (r, f) \<Longrightarrow>
    guard_step unit (env, Finish p command e) w (w\<lparr>guard_record := f, running := running w - {p}\<rparr>)"
| die: "p \<in> running w \<Longrightarrow> guard_step unit (env, Die p) w (w\<lparr>running := running w - {p}\<rparr>)"
| collect: "collect_section env unit (guard_record w) = (r, f) \<Longrightarrow>
    guard_step unit (env, Collect) w (w\<lparr>guard_record := f\<rparr>)"

text \<open>The state recorded on disk, \<open>None\<close> without a usable record.\<close>

definition phase :: "guard_file \<Rightarrow> string option" where
  "phase f = (case f of GJson (JObj d) \<Rightarrow> Some (state_of d) | _ \<Rightarrow> None)"

definition idle_guard :: "guard_world \<Rightarrow> bool" where
  "idle_guard w \<longleftrightarrow> running w = {}"

definition guard_inv :: "guard_world \<Rightarrow> bool" where
  "guard_inv w \<longleftrightarrow> (\<forall>p \<in> running w. \<forall>q \<in> running w. p = q) \<and>
     (running w \<noteq> {} \<longrightarrow> phase (guard_record w) = Some CLAIMED)"

section \<open>What each section does to the record\<close>

lemma gbind_give: "gbind (give m) k f = (case m of Inl e \<Rightarrow> (Inl e, f) | Inr x \<Rightarrow> k x f)"
  by (simp add: gbind_def give_def)

lemma gbind_write:
  "gbind (write_state env i d) k f =
     (if write_ok env i then k () (GJson (JObj d)) else (Inl (gerror ''unable to persist guard state''), f))"
  by (simp add: gbind_def write_state_def)

lemma gbind_read:
  "gbind read_state k f =
     (case f of
        GMissing \<Rightarrow> k None f
      | GJson (JObj d) \<Rightarrow> k (Some d) f
      | GUnreadable \<Rightarrow> (Inl (gerror ''unable to read guard state''), f)
      | _ \<Rightarrow> (Inl (gerror ''guard state is corrupt''), f))"
  by (auto simp: gbind_def read_state_def split: guard_file.splits json.splits)

lemmas section_simps = gbind_give gbind_write gbind_read write_state_def locked_def give_def

lemma phase_simps [simp]: "phase GMissing = None" "phase (GJson (JObj d)) = Some (state_of d)"
  by (simp_all add: phase_def)

lemma state_of_set: "dict_get d ''state'' = Some (JStr s) \<Longrightarrow> state_of d = s"
  by (simp add: state_of_def)

lemma state_of_dict_set [simp]: "state_of (dict_set k v d) = (if k = ''state'' then py_str v else state_of d)"
  by (auto simp: state_of_def dict_simps)

lemma state_of_Cons [simp]: "state_of ((k, v) # d) = (if k = ''state'' then py_str v else state_of d)"
  by (simp add: state_of_def)

lemma state_texts [simp]:
  "ARMED \<noteq> CLAIMED" "ARMED \<noteq> COMPLETED" "ARMED \<noteq> FAILED" "ARMED \<noteq> CANCELLED" "ARMED \<noteq> COLLECTED"
  "CLAIMED \<noteq> COMPLETED" "CLAIMED \<noteq> FAILED" "CLAIMED \<noteq> CANCELLED" "CLAIMED \<noteq> COLLECTED"
  "COMPLETED \<noteq> FAILED" "COMPLETED \<noteq> CANCELLED" "COMPLETED \<noteq> COLLECTED"
  "FAILED \<noteq> CANCELLED" "FAILED \<noteq> COLLECTED" "CANCELLED \<noteq> COLLECTED"
  by (simp_all add: state_names)

lemmas state_texts_sym [simp] = state_texts [symmetric]

lemma arm_record_cases:
  assumes "arm_record env unit command timeout f = (r, f')"
  shows "isl r \<and> f' = f \<or>
    r = Inr () \<and> phase f' = Some ARMED \<and> f' = GJson (JObj (armed_payload env unit command timeout)) \<and>
    (f = GMissing \<or> (\<exists>s. phase f = Some s \<and> s \<notin> {ARMED, CLAIMED, COMPLETED, FAILED}))"
proof -
  have state: "state_of (armed_payload env unit command timeout) = ARMED"
    by (rule state_of_set) (simp add: armed_payload_def)
  note simps = arm_record_def section_simps check_prior_def state
  show ?thesis
  proof (cases "check_units env unit")
    case (Inl e)
    show ?thesis using assms by (auto simp: simps Inl split: if_splits guard_file.splits json.splits)
  next
    case (Inr u)
    show ?thesis using assms by (auto simp: simps Inr split: if_splits guard_file.splits json.splits)
  qed
qed

lemma arm_withdraw_cases:
  assumes "arm_withdraw env command f = (r, f')"
  shows "f' = f \<or> phase f = Some ARMED \<and> f' = GMissing"
  using assms
  by (auto simp: arm_withdraw_def section_simps state_of_def split: if_splits guard_file.splits json.splits)

lemma refuse_started_cases:
  assumes "refuse_started env i d live f = (r, f')"
  shows "isl r \<and> (f' = f \<or> phase f' = Some FAILED) \<or> r = Inr () \<and> f' = f"
proof -
  have "state_of (observed_failure env i d live) = FAILED"
    by (rule state_of_set) (simp add: observed_failure_def update_all_def dict_simps)
  then show ?thesis using assms by (auto simp: refuse_started_def section_simps split: if_splits)
qed

lemma gbind_Pair:
  "gbind m k f = (r, f') \<longleftrightarrow> (\<exists>e. r = Inl e \<and> m f = (Inl e, f')) \<or> (\<exists>x g. m f = (Inr x, g) \<and> k x g = (r, f'))"
  by (auto simp: gbind_def split: prod.splits sum.splits)

text \<open>The part of \<open>cancel\<close> after the record was found armed.\<close>

lemma cancel_tail_cases:
  assumes "gbind (refuse_started env i d live) k f = (r, f')" and "k () f = (r, f') \<Longrightarrow> P"
    and "isl r \<Longrightarrow> f' = f \<or> phase f' = Some FAILED \<Longrightarrow> P"
  shows P
  using assms(1)
proof (cases "refuse_started env i d live f")
  case (Pair q g)
  with refuse_started_cases [OF Pair] assms show ?thesis
    by (cases q) (auto simp: gbind_def)
qed

lemma cancel_cases:
  assumes "cancel_section env unit f = (r, f')"
  shows "isl r \<and> f' = f \<or>
    phase f = Some ARMED \<and> (isl r \<and> phase f' = Some FAILED \<or> r = Inr (cancelled_result unit) \<and> phase f' = Some CANCELLED)"
proof (cases "isl r \<and> f' = f")
  case False
  with assms obtain d live where f: "f = GJson (JObj d)" "state_of d = ARMED" and
    tail: "gbind (refuse_started env 0 d live) (\<lambda>_.
        gbind (give (stop_timer env unit)) (\<lambda>_.
        gbind (give (describe_service env 7 (unit @ ''.service''))) (\<lambda>after.
        gbind (refuse_started env 1 d after) (\<lambda>_.
        gbind (write_state env 2 (update_all [(''state'', JStr CANCELLED), (''updatedAt'', JStr (clock env 2))] d)) (\<lambda>_.
        give (Inr (cancelled_result unit))))))) f = (r, f')"
    by (auto simp: cancel_section_def require_record_def gbind_give gbind_read locked_def give_def
        split: if_splits sum.splits guard_file.splits json.splits)
  show ?thesis
  proof (rule cancel_tail_cases [OF tail], goal_cases)
    case 1
    then obtain after where "gbind (refuse_started env 1 d after) (\<lambda>_.
        gbind (write_state env 2 (update_all [(''state'', JStr CANCELLED), (''updatedAt'', JStr (clock env 2))] d)) (\<lambda>_.
        give (Inr (cancelled_result unit)))) f = (r, f')"
      using False by (auto simp: gbind_give split: sum.splits)
    then show ?case
      by (rule cancel_tail_cases) (use False f in \<open>auto simp: section_simps split: if_splits\<close>)
  next
    case 2
    with False f show ?case by auto
  qed
qed simp

lemma claim_cases:
  assumes "claim env unit command f = (r, f')"
  shows "r \<noteq> Inr None \<and> f' = f \<or>
    r = Inr None \<and> phase f' = Some CLAIMED \<and> (f = GMissing \<or> phase f = Some ARMED)"
proof -
  have "state_of (orphan_claim env unit command) = CLAIMED"
    by (rule state_of_set) (simp add: orphan_claim_def)
  moreover have "state_of (update_all [(''state'', JStr CLAIMED), (''updatedAt'', JStr t), (''pid'', JInt n)] d) = CLAIMED" for t n d
    by (rule state_of_set) (simp add: update_all_def dict_simps)
  ultimately show ?thesis using assms
    by (auto simp: claim_def section_simps split: if_splits guard_file.splits json.splits)
qed

lemma finish_cases:
  assumes "finish env unit command e f = (r, f')"
  shows "isl r \<and> f' = f \<or> \<not> isl r \<and> phase f' = Some (outcome_state (fst (rollback_report e)))"
proof -
  obtain code tail where rep: "rollback_report e = (code, tail)" by (cases "rollback_report e")
  have "state_of (update_all [(''schemaVersion'', a), (''unit'', b), (''timer'', c), (''service'', g),
        (''state'', JStr s), (''rollbackCommand'', h), (''updatedAt'', i), (''exitCode'', j), (''outputTail'', k)] d) = s"
    for a b c g h i j k s d
    by (rule state_of_set) (simp add: update_all_def dict_simps)
  then show ?thesis using assms
    by (auto simp: finish_def section_simps rep Let_def split: if_splits guard_file.splits json.splits)
qed

lemma collect_cases:
  assumes "collect_section env unit f = (r, f')"
  shows "isl r \<and> f' = f \<or> (\<exists>d. \<not> isl r \<and> f = GJson (JObj d) \<and> state_of d \<notin> {ARMED, CLAIMED, COLLECTED} \<and>
    f' = GJson (JObj (collected_record env d)))"
  using assms
  by (auto simp: collect_section_def require_record_def section_simps
      split: if_splits sum.splits guard_file.splits json.splits)

lemma collected_record_get:
  "dict_get (collected_record env d) ''state'' = Some (JStr COLLECTED)"
  "dict_get (collected_record env d) ''priorState'' = Some (JStr (state_of d))"
  "dict_get (collected_record env d) ''priorExitCode'' = Some (field d ''exitCode'')"
  by (simp_all add: collected_record_def update_all_def dict_simps)

section \<open>The invariant\<close>

inductive_cases guard_stepE: "guard_step unit l w w'"

lemma guard_inv_keep: "guard_inv w \<Longrightarrow> running w = {} \<or> phase f = Some CLAIMED \<Longrightarrow> guard_inv (w\<lparr>guard_record := f\<rparr>)"
  by (auto simp: guard_inv_def)

lemma guard_inv_idle: "guard_inv w \<Longrightarrow> phase (guard_record w) \<noteq> Some CLAIMED \<Longrightarrow> running w = {}"
  by (auto simp: guard_inv_def)

lemma guard_step_inv:
  assumes "guard_inv w" and "guard_step unit l w w'"
  shows "guard_inv w'"
  using assms(2)
proof cases
  case (arm env command timeout r f)
  with arm_record_cases [OF arm(3)] assms(1) show ?thesis
    by (auto intro!: guard_inv_keep dest: guard_inv_idle)
next
  case (withdraw env command r f)
  with arm_withdraw_cases [OF withdraw(3)] assms(1) show ?thesis
    by (auto intro!: guard_inv_keep dest: guard_inv_idle)
next
  case (cancel env r f)
  with cancel_cases [OF cancel(3)] assms(1) show ?thesis
    by (auto intro!: guard_inv_keep dest: guard_inv_idle)
next
  case (claimed env command f p)
  with claim_cases [OF claimed(3)] guard_inv_idle [OF assms(1)] show ?thesis
    by (auto simp: guard_inv_def)
next
  case (not_claimed env command r f p)
  with claim_cases [OF not_claimed(3)] assms(1) show ?thesis by auto
next
  case (finish p env command e r f)
  with assms(1) show ?thesis by (auto simp: guard_inv_def)
next
  case (die p env)
  with assms(1) show ?thesis by (auto simp: guard_inv_def)
next
  case (collect env r f)
  with collect_cases [OF collect(3)] assms(1) show ?thesis
    by (auto intro!: guard_inv_keep dest: guard_inv_idle)
qed

interpretation guards: invariant_system idle_guard "guard_step unit" guard_inv
  for unit :: string
proof unfold_locales
  show "idle_guard w \<Longrightarrow> guard_inv w" for w by (simp add: idle_guard_def guard_inv_def)
qed (rule guard_step_inv)

section \<open>A concrete run\<close>

text \<open>Every unit is inactive, every lock and write succeeds.\<close>

definition quiet_env :: guard_env where
  "quiet_env = \<lparr>lock_ok = (\<lambda>_. True), write_ok = (\<lambda>_. True), clock = (\<lambda>_. ''now''),
     systemctl = (\<lambda>_ command. Some \<lparr>returncode = (if hd command = ''stop'' then 0 else 3), stdout = [], stderr = []\<rparr>),
     own_pid = 7, python_path = ''python3'', script_path = ''guard.py'', systemctl_name = ''systemctl''\<rparr>"

definition fresh_world :: guard_world where
  "fresh_world = \<lparr>guard_record = GMissing, running = {}\<rparr>"

definition armed_file :: guard_file where
  "armed_file = snd (arm_record quiet_env ''g'' [''undo''] 60 GMissing)"

definition claimed_file :: guard_file where
  "claimed_file = snd (claim quiet_env ''g'' [''undo''] armed_file)"

definition armed_world :: guard_world where
  "armed_world = fresh_world\<lparr>guard_record := armed_file\<rparr>"

definition claimed_world :: guard_world where
  "claimed_world = armed_world\<lparr>guard_record := claimed_file, running := insert 7 (running armed_world)\<rparr>"

lemma armed_reach: "guards.reach ''g'' armed_world"
proof (rule guards.reach.move [OF guards.reach.start])
  show "idle_guard fresh_world" by (simp add: idle_guard_def fresh_world_def)
  have "arm_record quiet_env ''g'' [''undo''] 60 (guard_record fresh_world) = (Inr (), armed_file)" by code_simp
  then show "guard_step ''g'' (quiet_env, Arm [''undo''] 60) fresh_world armed_world"
    unfolding armed_world_def by (rule guard_step.arm)
qed

lemma claimed_step: "guard_step ''g'' (quiet_env, Fire 7 [''undo'']) armed_world claimed_world"
proof -
  have "claim quiet_env ''g'' [''undo''] (guard_record armed_world) = (Inr None, claimed_file)" by code_simp
  moreover have "7 \<notin> running armed_world" by (simp add: armed_world_def fresh_world_def)
  ultimately show ?thesis unfolding claimed_world_def by (rule guard_step.claimed)
qed

section \<open>Properties\<close>

text \<open>
  The abstract life of a guard: a new one is armed where no outcome is pending; an armed guard is
  withdrawn, claimed, cancelled or found failed; a claimed one completes or fails; an outcome
  is collected. A timer that fires without a record claims it.
\<close>

definition guard_edge :: "string option \<Rightarrow> string option \<Rightarrow> bool" where
  "guard_edge a b \<longleftrightarrow>
     b = Some ARMED \<and> a \<notin> Some ` {ARMED, CLAIMED, COMPLETED, FAILED} \<or>
     a = Some ARMED \<and> b \<in> {None, Some CLAIMED, Some CANCELLED, Some FAILED} \<or>
     a = None \<and> b = Some CLAIMED \<or>
     a = Some CLAIMED \<and> b \<in> {Some COMPLETED, Some FAILED} \<or>
     b = Some COLLECTED \<and> a \<notin> {None, Some ARMED, Some CLAIMED, Some COLLECTED}"

text \<open>
  C2: In every reachable state of concurrent guard commands at most one process runs the
  rollback, and while it runs the durable record says that the guard is claimed.
\<close>

theorem guard_single_rollback:
  assumes "guards.reach unit w" and "p \<in> running w" and "q \<in> running w"
  shows "p = q \<and> phase (guard_record w) = Some CLAIMED"
  using guards.reach_inv [OF assms(1)] assms(2,3) by (auto simp: guard_inv_def)

theorem guard_single_rollback_witness:
  "phase (guard_record claimed_world) = Some CLAIMED"
proof -
  have "guards.reach ''g'' claimed_world" using armed_reach claimed_step by (rule guards.reach.move)
  moreover have "7 \<in> running claimed_world" by (simp add: claimed_world_def)
  ultimately show ?thesis using guard_single_rollback [of "''g''" claimed_world 7 7] by simp
qed

text \<open>
  C15: The detailed commands refine the abstract life of a guard: every step of every process
  keeps the recorded state or moves it along an edge of the abstract machine.
\<close>

theorem guard_refines_life:
  assumes "guards.reach unit w" and step: "guard_step unit l w w'"
  shows "phase (guard_record w') = phase (guard_record w) \<or> guard_edge (phase (guard_record w)) (phase (guard_record w'))"
  using step
proof cases
  case (arm env command timeout r f)
  with arm_record_cases [OF arm(3)] show ?thesis by (auto simp: guard_edge_def)
next
  case (withdraw env command r f)
  with arm_withdraw_cases [OF withdraw(3)] show ?thesis by (auto simp: guard_edge_def)
next
  case (cancel env r f)
  with cancel_cases [OF cancel(3)] show ?thesis by (auto simp: guard_edge_def)
next
  case (claimed env command f p)
  with claim_cases [OF claimed(3)] show ?thesis by (auto simp: guard_edge_def)
next
  case (not_claimed env command r f p)
  with claim_cases [OF not_claimed(3)] show ?thesis by auto
next
  case (finish p env command e r f)
  have "phase (guard_record w) = Some CLAIMED"
    using guards.reach_inv [OF assms(1)] finish(3) by (auto simp: guard_inv_def)
  with finish finish_cases [OF finish(4)] show ?thesis
    by (auto simp: guard_edge_def outcome_state_def split: if_splits)
next
  case (die p env)
  then show ?thesis by simp
next
  case (collect env r f)
  with collect_cases [OF collect(3)] collected_record_get(1) [THEN state_of_set] show ?thesis
    by (auto simp: guard_edge_def)
qed

theorem guard_refines_life_witness:
  "guard_edge (phase (guard_record armed_world)) (phase (guard_record claimed_world))"
proof -
  have "phase (guard_record claimed_world) \<noteq> phase (guard_record armed_world)" by code_simp
  with guard_refines_life [OF armed_reach claimed_step] show ?thesis by blast
qed

text \<open>
  C16: A cancellation that reports success excludes the rollback: no process runs it at that
  moment, and a timer that fires afterwards finds the cancelled record, runs nothing and leaves
  the record as it is.
\<close>

theorem cancel_excludes_rollback:
  assumes "guards.reach unit w" and "cancel_section env unit (guard_record w) = (Inr v, f)"
  shows "running w = {} \<and> v = cancelled_result unit \<and> phase f = Some CANCELLED \<and>
    (lock_ok env' 0 \<longrightarrow> claim env' unit command f = (Inr (Some (skipped_result unit CANCELLED)), f))"
proof -
  from cancel_cases [OF assms(2)] have c: "phase (guard_record w) = Some ARMED" "v = cancelled_result unit" "phase f = Some CANCELLED"
    by auto
  then obtain d where "f = GJson (JObj d)" "state_of d = CANCELLED"
    by (auto simp: phase_def split: guard_file.splits json.splits)
  then have "lock_ok env' 0 \<longrightarrow> claim env' unit command f = (Inr (Some (skipped_result unit CANCELLED)), f)"
    by (simp add: claim_def section_simps)
  moreover have "running w = {}" using guard_inv_idle [OF guards.reach_inv [OF assms(1)]] c(1) by simp
  ultimately show ?thesis using c by blast
qed

theorem cancel_excludes_rollback_witness:
  "claim quiet_env ''g'' [''undo''] (snd (cancel_section quiet_env ''g'' armed_file)) =
     (Inr (Some (skipped_result ''g'' CANCELLED)), snd (cancel_section quiet_env ''g'' armed_file))"
proof -
  have "cancel_section quiet_env ''g'' (guard_record armed_world) =
      (Inr (cancelled_result ''g''), snd (cancel_section quiet_env ''g'' armed_file))" by code_simp
  from cancel_excludes_rollback [OF armed_reach this, of quiet_env "[''undo'']"] show ?thesis
    by (simp add: quiet_env_def)
qed



text \<open>
  Collecting keeps the outcome: the record is collected, and its earlier state and exit code
  stay in it.
\<close>

theorem collect_keeps_outcome:
  assumes "collect_section env unit f = (Inr v, f')"
  shows "\<exists>d d'. f = GJson (JObj d) \<and> f' = GJson (JObj d') \<and> state_of d' = COLLECTED \<and>
    field d' ''priorState'' = JStr (state_of d) \<and> field d' ''priorExitCode'' = field d ''exitCode''"
  using collect_cases [OF assms] collected_record_get [of env] state_of_set [OF collected_record_get(1) [of env]]
  by (auto simp: field_def)

theorem collect_keeps_outcome_witness:
  "\<exists>d'. snd (collect_section quiet_env ''g'' (GJson (JObj [(''state'', JStr ''failed''), (''exitCode'', JInt 1)]))) = GJson (JObj d') \<and>
     field d' ''priorState'' = JStr ''failed'' \<and> field d' ''priorExitCode'' = JInt 1"
proof -
  let ?d = "[(''state'', JStr ''failed''), (''exitCode'', JInt 1)]"
  let ?run = "collect_section quiet_env ''g'' (GJson (JObj ?d))"
  have "\<not> isl (fst ?run)" by code_simp
  then have "?run = (Inr (projr (fst ?run)), snd ?run)" by (simp add: prod_eq_iff right_result)
  from collect_keeps_outcome [OF this] show ?thesis by (auto simp: field_def state_of_def)
qed

text \<open>
  A unit name that consists of the suffix alone passes the check for empty names and becomes
  the empty unit name.
\<close>

theorem validate_unit_suffix_only:
  "validate_unit ''.service'' = Inr '''' \<and> isl (validate_unit '''')"
  by code_simp

end
