(* ===== verification/Setup_Config.thy ===== *)
theory Setup_Config
  imports Identity_Model Posix_Path Operation_Lock
begin

text \<open>
  The setup configuration (\<open>services/nas_setup_config.py\<close>), the request and secret payload of the
  first-start job (\<open>services/nas_setup_first_start.py\<close>) and the account plan that the setup
  command hands to the identity service (\<open>services/nas_setup.py\<close>, \<open>identity_plan\<close> and the
  handling of the local administrator). Files are parameters: a password file is what opening it
  gave.
\<close>

section \<open>Values\<close>

definition setup_bool :: "json \<Rightarrow> bool \<Rightarrow> bool res" where
  "setup_bool v dflt = (case v of JNull \<Rightarrow> Inr dflt | JBool b \<Rightarrow> Inr b | _ \<Rightarrow> Inl (SetupError ''true or false''))"

definition setup_string :: "bool \<Rightarrow> json \<Rightarrow> string res" where
  "setup_string allow_empty v =
     and_then (expect_str (SetupError ''non-empty string'') v) (\<lambda>s.
       if \<not> allow_empty \<and> py_strip s = [] then Inl (SetupError ''non-empty string'') else Inr (py_strip s))"

definition reject_unknown_fields :: "json_dict \<Rightarrow> string list \<Rightarrow> unit res" where
  "reject_unknown_fields d allowed =
     (if list_ex (\<lambda>k. k \<notin> set allowed) (map fst d) then Inl (SetupError ''unknown field'') else Inr ())"

section \<open>Accounts\<close>

record account =
  acc_username :: string
  acc_name :: string
  acc_email :: string
  acc_active :: bool
  acc_groups :: "string list"
  acc_password_file :: "string option"
  acc_attributes :: json_dict

definition account_fields :: "string list" where
  "account_fields = [''username'', ''name'', ''email'', ''active'', ''groups'', ''passwordFile'', ''attributes'']"

text \<open>A device error becomes a setup error.\<close>

definition device_to_setup :: "'a res \<Rightarrow> 'a res" where
  "device_to_setup r = (case r of Inl (DeviceError m) \<Rightarrow> Inl (SetupError m) | _ \<Rightarrow> r)"

definition account_roles :: "identity_config \<Rightarrow> bool \<Rightarrow> json \<Rightarrow> string set res" where
  "account_roles cfg active raw =
     and_then (expect_list (SetupError ''groups'') raw) (\<lambda>xs.
     if \<not> list_all is_str xs then Inl (SetupError ''groups'') else
     let groups = set (filter (\<lambda>s. s \<noteq> []) (map (\<lambda>v. py_strip (py_str v)) xs)) in
     if groups - RESERVED_GROUPS cfg \<noteq> {} then Inl (SetupError ''non-role group'')
     else if active then
       (let kept = groups - {DISABLED_GROUP cfg} in
        Inr (if {ADMIN_GROUP cfg, GUEST_GROUP cfg} \<inter> kept = {} then insert (USER_GROUP cfg) kept else kept))
     else if ADMIN_GROUP cfg \<in> groups then Inl (SetupError ''disable administrator'')
     else Inr {DISABLED_GROUP cfg})"

definition account_password_file :: "json \<Rightarrow> string option res" where
  "account_password_file v =
     (case v of
        JNull \<Rightarrow> Inr None
      | _ \<Rightarrow> and_then (setup_string False v) (\<lambda>s.
          if \<not> is_absolute (pure_path s) then Inl (SetupError ''absolute path'') else Inr (Some s)))"

definition device_key :: "json_dict \<Rightarrow> string option" where
  "device_key attrs =
     (if dict_get attrs ''nasSyncthingDevices'' \<noteq> None then Some ''nasSyncthingDevices''
      else if dict_get attrs ''nasSyncthingDevice'' \<noteq> None then Some ''nasSyncthingDevice''
      else None)"

definition account_devices :: "nat \<Rightarrow> (string \<Rightarrow> json option) \<Rightarrow> json_dict \<Rightarrow> json_dict res" where
  "account_devices max_devices loads attrs =
     (if dict_get attrs ''nasSyncthingDevices'' \<noteq> None \<and> dict_get attrs ''nasSyncthingDevice'' \<noteq> None
      then Inl (SetupError ''both device attributes'')
      else case device_key attrs of
        None \<Rightarrow> Inr attrs
      | Some k \<Rightarrow>
          let raw = (case dict_get attrs k of Some v \<Rightarrow> v | None \<Rightarrow> JNull);
              values = (case raw of JList xs \<Rightarrow> xs | _ \<Rightarrow> [raw]) in
          and_then (device_to_setup (normalize_devices max_devices loads values)) (\<lambda>devices.
          Inr (dict_set ''nasSyncthingDevices'' (JList (map device_json devices)) (AList.delete k attrs))))"

definition normalize_account ::
  "identity_config \<Rightarrow> nat \<Rightarrow> (string \<Rightarrow> json option) \<Rightarrow> json \<Rightarrow> account res" where
  "normalize_account cfg max_devices loads raw =
     and_then (expect_obj (SetupError ''must be an object'') raw) (\<lambda>d.
     if dict_get d ''password'' \<noteq> None then Inl (SetupError ''plaintext password'') else
     and_then (reject_unknown_fields d account_fields) (\<lambda>_.
     and_then (setup_string False (dict_get_or d ''username'' JNull)) (\<lambda>name_text.
     and_then (device_to_setup (validate_username (JStr name_text))) (\<lambda>username.
     if username = ''akadmin'' then Inl (SetupError ''akadmin'') else
     and_then (setup_bool (dict_get_or d ''active'' JNull) True) (\<lambda>active.
     and_then (setup_string False (dict_get_or d ''name'' (JStr username))) (\<lambda>name.
     and_then (setup_string False (dict_get_or d ''email'' (JStr (username @ ''@invalid.local'')))) (\<lambda>email.
     and_then (account_roles cfg active (dict_get_or d ''groups'' (JList [JStr (USER_GROUP cfg)]))) (\<lambda>roles.
     and_then (account_password_file (dict_get_or d ''passwordFile'' JNull)) (\<lambda>password_file.
     and_then (expect_obj (SetupError ''attributes'') (dict_get_or d ''attributes'' JEmpty)) (\<lambda>attrs.
     and_then (account_devices max_devices loads attrs) (\<lambda>attributes.
     Inr \<lparr>acc_username = username, acc_name = name, acc_email = email, acc_active = active,
          acc_groups = sorted_list_of_set roles, acc_password_file = password_file,
          acc_attributes = attributes\<rparr>)))))))))))"

section \<open>The configuration\<close>

record storage_config =
  create_pool :: bool
  pool_devices :: "string list"
  topology :: string
  wipe_devices :: bool
  ashift :: int

record setup_config =
  cfg_storage :: storage_config
  cfg_accounts :: "account list"
  cfg_services :: "(string, string) dict"
  cfg_deactivate :: bool
  cfg_preflight :: bool

definition SERVICE_MODES :: "string list" where
  "SERVICE_MODES = [''off'', ''on-demand'', ''always'']"

definition ZFS_TOPOLOGIES :: "string list" where
  "ZFS_TOPOLOGIES = [''single'', ''stripe'', ''mirror'', ''raidz1'', ''raidz2'', ''raidz3'']"

definition minimum_devices :: "string \<Rightarrow> nat" where
  "minimum_devices t =
     (if t = ''single'' then 1 else if t = ''stripe'' then 2 else if t = ''mirror'' then 2
      else if t = ''raidz1'' then 3 else if t = ''raidz2'' then 4 else 5)"

definition check_devices :: "string list \<Rightarrow> unit res" where
  "check_devices devices =
     (if list_ex (\<lambda>s. \<not> starts_with s ''/dev/'') devices then Inl (SetupError ''absolute /dev path'')
      else if list_ex (\<lambda>s. ''..'' \<in> set (path_tail (pure_path s))) devices then Inl (SetupError ''parent-directory traversal'')
      else if \<not> distinct devices then Inl (SetupError ''Duplicate storage devices'')
      else Inr ())"

definition storage_devices :: "json \<Rightarrow> string list res" where
  "storage_devices v =
     and_then (expect_list (SetupError ''storage.devices'') v) (\<lambda>xs.
     if \<not> list_all is_str xs then Inl (SetupError ''storage.devices'')
     else and_then (map_res (setup_string False) xs) (\<lambda>devices.
       and_then (check_devices devices) (\<lambda>_. Inr devices)))"

definition storage_topology :: "json \<Rightarrow> string res" where
  "storage_topology v =
     and_then (setup_string False v) (\<lambda>t.
       if t \<notin> set ZFS_TOPOLOGIES then Inl (SetupError ''storage.topology'') else Inr t)"

fun storage_ashift :: "json \<Rightarrow> int res" where
  "storage_ashift (JInt n) = (if 9 \<le> n \<and> n \<le> 16 then Inr n else Inl (SetupError ''storage.ashift''))"
| "storage_ashift _ = Inl (SetupError ''storage.ashift'')"

definition check_pool :: "storage_config \<Rightarrow> unit res" where
  "check_pool st =
     (if create_pool st then
        (if length (pool_devices st) < minimum_devices (topology st) then Inl (SetupError ''too few devices'')
         else if topology st = ''single'' \<and> length (pool_devices st) \<noteq> 1 then Inl (SetupError ''single device'')
         else Inr ())
      else if pool_devices st \<noteq> [] \<or> wipe_devices st then Inl (SetupError ''require createPool'')
      else Inr ())"

definition normalize_storage :: "json \<Rightarrow> storage_config res" where
  "normalize_storage v =
     and_then (expect_obj (SetupError ''storage'') v) (\<lambda>d.
     and_then (reject_unknown_fields d [''createPool'', ''devices'', ''topology'', ''wipeDevices'', ''ashift'']) (\<lambda>_.
     and_then (storage_devices (dict_get_or d ''devices'' (JList []))) (\<lambda>devices.
     and_then (storage_topology (dict_get_or d ''topology'' (JStr ''single''))) (\<lambda>t.
     and_then (storage_ashift (dict_get_or d ''ashift'' (JInt 12))) (\<lambda>shift.
     and_then (setup_bool (dict_get_or d ''createPool'' JNull) False) (\<lambda>create.
     and_then (setup_bool (dict_get_or d ''wipeDevices'' JNull) False) (\<lambda>wipe.
     let st = \<lparr>create_pool = create, pool_devices = devices, topology = t, wipe_devices = wipe, ashift = shift\<rparr> in
     and_then (check_pool st) (\<lambda>_. Inr st))))))))"

definition add_service_mode :: "string \<times> json \<Rightarrow> (string, string) dict \<Rightarrow> (string, string) dict res" where
  "add_service_mode = (\<lambda>(service, mode) services.
     and_then (setup_string False (JStr service)) (\<lambda>name.
     and_then (setup_string False mode) (\<lambda>mode_name.
     if mode_name \<notin> set SERVICE_MODES then Inl (SetupError ''services'')
     else Inr (dict_set name mode_name services))))"

definition config_fields :: "string list" where
  "config_fields = [''schemaVersion'', ''storage'', ''accounts'', ''services'', ''deactivateMissingManagedAccounts'', ''runPreflight'']"

definition normalize_accounts ::
  "identity_config \<Rightarrow> nat \<Rightarrow> (string \<Rightarrow> json option) \<Rightarrow> json \<Rightarrow> account list res" where
  "normalize_accounts cfg max_devices loads v =
     and_then (expect_list (SetupError ''accounts must be a list'') v) (\<lambda>xs.
     and_then (map_res (normalize_account cfg max_devices loads) xs) (\<lambda>accounts.
     if \<not> distinct (map acc_username accounts) then Inl (SetupError ''Duplicate setup accounts'') else Inr accounts))"

definition normalize_config ::
  "identity_config \<Rightarrow> nat \<Rightarrow> (string \<Rightarrow> json option) \<Rightarrow> json_dict \<Rightarrow> setup_config res" where
  "normalize_config cfg max_devices loads raw =
     and_then (reject_unknown_fields raw config_fields) (\<lambda>_.
     if \<not> eq_int (dict_get_or raw ''schemaVersion'' (JInt 2)) 2 then Inl (SetupError ''schemaVersion'') else
     and_then (normalize_accounts cfg max_devices loads (dict_get_or raw ''accounts'' (JList []))) (\<lambda>accounts.
     and_then (normalize_storage (dict_get_or raw ''storage'' JEmpty)) (\<lambda>storage.
     and_then (expect_obj (SetupError ''services must be an object'') (dict_get_or raw ''services'' JEmpty)) (\<lambda>services_raw.
     and_then (for_each services_raw add_service_mode []) (\<lambda>services.
     and_then (setup_bool (dict_get_or raw ''deactivateMissingManagedAccounts'' JNull) False) (\<lambda>deactivate.
     and_then (setup_bool (dict_get_or raw ''runPreflight'' JNull) True) (\<lambda>preflight.
     Inr \<lparr>cfg_storage = storage, cfg_accounts = accounts, cfg_services = services, cfg_deactivate = deactivate,
          cfg_preflight = preflight\<rparr>)))))))"

section \<open>Secrets\<close>

definition strip_line_end :: "string \<Rightarrow> string" where
  "strip_line_end raw =
     (if ends_with raw [CHR 0x0D, CHR 0x0A] then take (length raw - 2) raw
      else if ends_with raw [CHR 0x0A] \<or> ends_with raw [CHR 0x0D] then take (length raw - 1) raw
      else raw)"

definition normalize_secret_line :: "string \<Rightarrow> string res" where
  "normalize_secret_line raw =
     (if 4098 < py_len raw \<or> CHR 0x00 \<in> set raw then Inl (SetupError ''too long or malformed'')
      else let v = strip_line_end raw in
        if v = [] \<or> 4096 < py_len v \<or> list_ex is_control v
        then Inl (SetupError ''exactly one non-empty line'') else Inr v)"

text \<open>\<open>sys.stdin.read(4099)\<close> reads at most that many characters.\<close>

definition read_secret_stdin :: "string \<Rightarrow> string res" where
  "read_secret_stdin input = normalize_secret_line (take_points 4099 input)"

text \<open>What opening a password file without following links gives: its mode bits and text.\<close>

record password_file =
  pw_regular :: bool
  pw_mode :: nat
  pw_text :: "string option"

definition group_other_bits :: "nat \<Rightarrow> bool" where
  "group_other_bits mode \<longleftrightarrow> mode mod 64 \<noteq> 0"

definition read_password_file :: "password_file option \<Rightarrow> string res" where
  "read_password_file opened =
     (case opened of
        None \<Rightarrow> Inl (SetupError ''Unable to open password file'')
      | Some f \<Rightarrow>
          if \<not> pw_regular f then Inl (SetupError ''not a regular file'')
          else if group_other_bits (pw_mode f) then Inl (SetupError ''must not be readable by group/other'')
          else (case pw_text f of
            None \<Rightarrow> Inl (SetupError ''not valid UTF-8'')
          | Some s \<Rightarrow> normalize_secret_line (take_points 4099 s)))"

section \<open>The first-start job\<close>

definition hex_text :: "nat \<Rightarrow> string \<Rightarrow> bool" where
  "hex_text n s \<longleftrightarrow> length s = n \<and> list_all (\<lambda>c. is_digit c \<or> 97 \<le> code c \<and> code c \<le> 102) s"

definition hex_field :: "json_dict \<Rightarrow> string \<Rightarrow> nat \<Rightarrow> unit res" where
  "hex_field d k n =
     and_then (expect_str (SetupError k) (dict_get_or d k JNull)) (\<lambda>s.
       if hex_text n s then Inr () else Inl (SetupError k))"

definition request_keys :: "string list" where
  "request_keys = [''schemaVersion'', ''jobId'', ''reservationToken'', ''config'', ''planDigest'', ''devices'',
     ''allowDestructiveStorage'', ''confirmPasswordReapply'', ''encryptStorage'']"

definition request_devices :: "json \<Rightarrow> unit res" where
  "request_devices v =
     and_then (expect_list (SetupError ''devices'') v) (\<lambda>xs.
       if list_all (\<lambda>x. is_str x \<and> truthy x) xs \<and> distinct xs then Inr () else Inl (SetupError ''devices''))"

definition parse_first_start_request :: "(string \<Rightarrow> json option) \<Rightarrow> string \<Rightarrow> json_dict res" where
  "parse_first_start_request loads txt =
     (case loads txt of
        None \<Rightarrow> Inl (SetupError ''request is invalid'')
      | Some v \<Rightarrow>
          and_then (expect_obj (SetupError ''request contract'') v) (\<lambda>d.
          if fst ` set d \<noteq> set request_keys \<or> \<not> eq_int (dict_get_or d ''schemaVersion'' JNull) 1
          then Inl (SetupError ''request contract'') else
          and_then (hex_field d ''reservationToken'' 32) (\<lambda>_.
          and_then (hex_field d ''jobId'' 24) (\<lambda>_.
          and_then (expect_str (SetupError ''config'') (dict_get_or d ''config'' JNull)) (\<lambda>config.
          if \<not> is_absolute (pure_path config) then Inl (SetupError ''config'') else
          and_then (hex_field d ''planDigest'' 64) (\<lambda>_.
          and_then (request_devices (dict_get_or d ''devices'' JNull)) (\<lambda>_.
          if list_all (\<lambda>k. is_bool (dict_get_or d k JNull))
               [''allowDestructiveStorage'', ''confirmPasswordReapply'', ''encryptStorage'']
          then Inr d else Inl (SetupError ''confirmation flags''))))))))"

definition parse_first_start_secrets :: "(string \<Rightarrow> json option) \<Rightarrow> string \<Rightarrow> (string \<times> json_dict) res" where
  "parse_first_start_secrets loads txt =
     (case loads txt of
        None \<Rightarrow> Inl (SetupError ''payload is invalid'')
      | Some v \<Rightarrow>
          and_then (expect_obj (SetupError ''payload contract'') v) (\<lambda>d.
          if fst ` set d \<noteq> {''keepass'', ''administrator''} then Inl (SetupError ''payload contract'') else
          and_then (expect_str (SetupError ''KeePass database password'') (dict_get_or d ''keepass'' JNull)) (\<lambda>password.
          and_then (normalize_secret_line password) (\<lambda>password.
          and_then (expect_obj (SetupError ''administrator'') (dict_get_or d ''administrator'' JNull)) (\<lambda>administrator.
          if fst ` set administrator \<noteq> {''username'', ''name'', ''email'', ''password''}
          then Inl (SetupError ''administrator'') else Inr (password, administrator))))))"

section \<open>The account plan\<close>

definition account_json :: "account \<Rightarrow> json_dict" where
  "account_json a = [(''username'', JStr (acc_username a)), (''name'', JStr (acc_name a)), (''email'', JStr (acc_email a)),
     (''active'', JBool (acc_active a)), (''groups'', JList (map JStr (acc_groups a))), (''attributes'', JObj (acc_attributes a))]"

text \<open>\<open>files\<close> opens a password file by name. A password file is given by a non-empty name.\<close>

definition plan_item :: "(string \<Rightarrow> password_file option) \<Rightarrow> account \<Rightarrow> json res" where
  "plan_item files a =
     (case acc_password_file a of
        None \<Rightarrow> Inr (JObj (account_json a))
      | Some name \<Rightarrow>
          if name = [] then Inr (JObj (account_json a))
          else and_then (read_password_file (files name)) (\<lambda>secret.
            Inr (JObj (dict_set ''password'' (JStr secret) (account_json a)))))"

definition identity_plan :: "(string \<Rightarrow> password_file option) \<Rightarrow> setup_config \<Rightarrow> json res" where
  "identity_plan files config =
     and_then (map_res (plan_item files) (cfg_accounts config)) (\<lambda>accounts.
     Inr (JObj [(''schemaVersion'', JInt 1), (''accounts'', JList accounts),
       (''deactivateMissingManagedAccounts'', JBool (cfg_deactivate config))]))"

definition local_administrator_details :: "identity_config \<Rightarrow> string \<Rightarrow> json_dict \<Rightarrow> json_dict res" where
  "local_administrator_details cfg bootstrap_user administrator =
     and_then (expect_str (SetupError ''Administrator username'') (dict_get_or administrator ''username'' JNull)) (\<lambda>name.
     and_then (device_to_setup (validate_username (JStr name))) (\<lambda>username.
     if username = bootstrap_user then Inl (SetupError ''reserved bootstrap identity'')
     else Inr [(''username'', JStr username),
       (''name'', JStr (py_str (dict_get_or administrator ''name'' (JStr username)))),
       (''email'', JStr (py_str (dict_get_or administrator ''email'' (JStr (username @ ''@invalid.local''))))),
       (''active'', JBool True), (''groups'', JList [JStr (ADMIN_GROUP cfg)]), (''attributes'', JEmpty)]))"

text \<open>\<open>account_plan["accounts"]\<close> with the entry of the administrator replaced or appended.\<close>

fun put_administrator :: "json \<Rightarrow> json \<Rightarrow> json list \<Rightarrow> json list" where
  "put_administrator name entry [] = [entry]"
| "put_administrator name entry (x # xs) =
     (if soft_get x ''username'' = name then entry # xs else x # put_administrator name entry xs)"

definition include_local_administrator :: "json list \<Rightarrow> json_dict \<Rightarrow> string \<Rightarrow> json list" where
  "include_local_administrator accounts administrator password =
     put_administrator (dict_get_or administrator ''username'' JNull)
       (JObj (dict_set ''password'' (JStr password) administrator)) accounts"

section \<open>Facts\<close>

lemma setup_string_Inr: "setup_string False v = Inr s \<Longrightarrow> s \<noteq> [] \<and> py_strip s = s"
  by (auto simp: setup_string_def and_then_Inr_iff py_strip_idem split: if_splits)

lemma device_to_setup_Inr [simp]: "device_to_setup r = Inr x \<longleftrightarrow> r = Inr x"
  by (auto simp: device_to_setup_def split: sum.splits exn.splits)

lemma validate_username_Inr: "validate_username (JStr s) = Inr u \<Longrightarrow> u = s \<and> username_matches u"
  by (auto simp: validate_username_def split: if_splits)

text \<open>The role rules of the setup configuration and of the identity service are the same.\<close>

lemma map_res_as_str_iff: "map_res as_str xs = Inr ns \<longleftrightarrow> list_all is_str xs \<and> ns = map py_str xs"
proof (induction xs arbitrary: ns)
  case (Cons x xs)
  then show ?case by (cases x) (auto simp: and_then_Inr_iff)
qed auto

lemma account_roles_plan: "account_roles cfg active raw = Inr roles \<longleftrightarrow> plan_roles cfg active raw = Inr roles"
proof (cases raw)
  case (JList xs)
  show ?thesis
  proof (cases "list_all is_str xs")
    case True
    then have "map_res as_str xs = Inr (map py_str xs)" by (simp add: map_res_as_str_iff)
    with True show ?thesis
      by (auto simp: account_roles_def plan_roles_def JList Let_def image_image split: if_splits)
  next
    case False
    then have "\<nexists>ns. map_res as_str xs = Inr ns" by (simp add: map_res_as_str_iff)
    with False show ?thesis by (auto simp: account_roles_def plan_roles_def JList split: sum.splits)
  qed
qed (auto simp: account_roles_def plan_roles_def)

lemma account_password_file_Inr:
  "account_password_file v = Inr (Some s) \<Longrightarrow> s \<noteq> [] \<and> is_absolute (pure_path s)"
  by (auto simp: account_password_file_def and_then_Inr_iff dest: setup_string_Inr split: json.splits if_splits)

lemma normalize_account_Inr:
  assumes "normalize_account cfg max_devices loads raw = Inr a"
  obtains roles raw_roles where "username_matches (acc_username a)" "acc_username a \<noteq> ''akadmin''"
    "acc_name a \<noteq> []" "py_strip (acc_name a) = acc_name a" "acc_email a \<noteq> []" "py_strip (acc_email a) = acc_email a"
    "plan_roles cfg (acc_active a) raw_roles = Inr roles" "acc_groups a = sorted_list_of_set roles"
    "\<And>s. acc_password_file a = Some s \<Longrightarrow> s \<noteq> [] \<and> is_absolute (pure_path s)"
proof -
  obtain d name_text username active name email roles raw_roles pwfile v attributes where
    "validate_username (JStr name_text) = Inr username" "username \<noteq> ''akadmin''"
    and n: "setup_string False (dict_get_or d ''name'' (JStr username)) = Inr name"
      "setup_string False (dict_get_or d ''email'' (JStr (username @ ''@invalid.local''))) = Inr email"
    and r: "account_roles cfg active raw_roles = Inr roles" and f: "account_password_file v = Inr pwfile"
    and a: "a = \<lparr>acc_username = username, acc_name = name, acc_email = email, acc_active = active,
          acc_groups = sorted_list_of_set roles, acc_password_file = pwfile, acc_attributes = attributes\<rparr>"
    using assms by (auto simp: normalize_account_def and_then_Inr_iff expect_Inr_iff split: if_splits)
  moreover have "s \<noteq> [] \<and> is_absolute (pure_path s)" if "acc_password_file a = Some s" for s
    using that f a account_password_file_Inr by simp
  ultimately show thesis
    using setup_string_Inr [OF n(1)] setup_string_Inr [OF n(2)]
    by (intro that [of raw_roles roles]) (auto simp: account_roles_plan dest: validate_username_Inr)
qed

lemma normalize_secret_line_Inr:
  assumes "normalize_secret_line raw = Inr v"
  shows "v \<noteq> []" "py_len v \<le> 4096" "\<not> list_ex is_control v" "v = strip_line_end raw"
  using assms by (auto simp: normalize_secret_line_def Let_def split: if_splits)

lemma secret_valid: "normalize_secret_line raw = Inr v \<Longrightarrow> plan_secret (JStr v) = Inr (Some v)"
  using normalize_secret_line_Inr [of raw v]
  by (auto simp: plan_secret_def list_ex_iff is_control_def)

lemma read_password_file_Inr: "read_password_file f = Inr v \<Longrightarrow> plan_secret (JStr v) = Inr (Some v)"
  by (auto simp: read_password_file_def secret_valid split: option.splits if_splits)

section \<open>Properties\<close>

text \<open>The configured role names are distinct from the disabled role, non-empty and without outer blanks.\<close>

definition clean_roles :: "identity_config \<Rightarrow> bool" where
  "clean_roles cfg \<longleftrightarrow> DISABLED_GROUP cfg \<notin> {ADMIN_GROUP cfg, USER_GROUP cfg, GUEST_GROUP cfg} \<and>
     (\<forall>g \<in> RESERVED_GROUPS cfg. g \<noteq> [] \<and> py_strip g = g)"

lemma plan_roles_again:
  assumes "clean_roles cfg" and "plan_roles cfg active raw = Inr roles"
  shows "plan_roles cfg active (JList (map JStr (sorted_list_of_set roles))) = Inr roles"
proof -
  note r = plan_roles_Inr [OF assms(2)]
  have strip: "py_strip g = g \<and> g \<noteq> []" if "g \<in> roles" for g using that r(2) assms(1) by (auto simp: clean_roles_def)
  then have "map py_strip (sorted_list_of_set roles) = sorted_list_of_set roles"
    using r(1) by (intro map_idI) simp
  then have gs: "set (filter (\<lambda>s. s \<noteq> []) (map py_strip (sorted_list_of_set roles))) = roles"
    using r(1) strip by auto
  have user: "active \<Longrightarrow> ADMIN_GROUP cfg \<notin> roles \<Longrightarrow> GUEST_GROUP cfg \<notin> roles \<Longrightarrow> USER_GROUP cfg \<in> roles"
    using r(2,4,5) assms(1) by (auto simp: RESERVED_GROUPS_def clean_roles_def)
  have "DISABLED_GROUP cfg \<notin> roles" if active using that r(5) assms(1) by (auto simp: clean_roles_def)
  moreover have "map_res as_str (map JStr (sorted_list_of_set roles)) = Inr (sorted_list_of_set roles)"
    by (rule map_res_as_str)
  ultimately have eq: "plan_roles cfg active (JList (map JStr (sorted_list_of_set roles))) =
    (if \<not> roles \<subseteq> RESERVED_GROUPS cfg then Inl (SyncError ''non-role group'')
     else if active then Inr (if ADMIN_GROUP cfg \<notin> roles \<and> GUEST_GROUP cfg \<notin> roles then insert (USER_GROUP cfg) roles else roles)
     else if ADMIN_GROUP cfg \<in> roles then Inl (SyncError ''disable administrator'') else Inr {DISABLED_GROUP cfg})"
    unfolding plan_roles_def json.case by (simp only: sum.case gs Let_def) auto
  show ?thesis
  proof (cases active)
    case True
    with r(2) user show ?thesis unfolding eq by (auto simp: insert_absorb)
  next
    case False
    with r(2,3) assms(1) show ?thesis unfolding eq by (auto simp: clean_roles_def)
  qed
qed

lemma plan_text_again: "s \<noteq> [] \<Longrightarrow> py_strip s = s \<Longrightarrow> plan_text l (JStr s) = Inr s"
  by (simp add: plan_text_def)

text \<open>
  C30: What setup sends, the identity service accepts unchanged: every account that
  \<open>normalize_account\<close> returns becomes a plan entry that \<open>normalized_account_plan\<close> accepts with
  the same name, state, roles and attributes, and with the secret of its password file.
\<close>

theorem setup_plan_accepted:
  assumes "clean_roles cfg" and "normalize_account cfg max_devices loads raw = Inr a"
    and "plan_item files a = Inr entry"
  shows "\<exists>secret. normalized_account_plan cfg entry = Inr \<lparr>plan_username = acc_username a, plan_name = acc_name a,
    plan_email = acc_email a, plan_active = acc_active a, plan_groups = acc_groups a,
    plan_attributes = acc_attributes a, plan_password = secret\<rparr> \<and>
    (case acc_password_file a of None \<Rightarrow> secret = None | Some name \<Rightarrow> read_password_file (files name) = Inr (the secret))"
proof -
  from assms(2) obtain roles raw_roles where u: "username_matches (acc_username a)" "acc_username a \<noteq> ''akadmin''"
    and n: "acc_name a \<noteq> []" "py_strip (acc_name a) = acc_name a" "acc_email a \<noteq> []" "py_strip (acc_email a) = acc_email a"
    and r: "plan_roles cfg (acc_active a) raw_roles = Inr roles" "acc_groups a = sorted_list_of_set roles"
    and f: "\<And>s. acc_password_file a = Some s \<Longrightarrow> s \<noteq> [] \<and> is_absolute (pure_path s)"
    by (rule normalize_account_Inr) blast
  note again = plan_roles_again [OF assms(1) r(1)]
  note simps = normalized_account_plan_def plan_fields_def dict_get_or_def validate_uid_def account_json_def
    plan_text_again u n r(2) again
  show ?thesis
  proof (cases "acc_password_file a")
    case None
    then have "entry = JObj (account_json a)" using assms(3) by (simp add: plan_item_def)
    then show ?thesis using None by (simp add: simps) (simp add: plan_secret_def)
  next
    case (Some name)
    with f assms(3) obtain v where v: "read_password_file (files name) = Inr v"
      "entry = JObj (dict_set ''password'' (JStr v) (account_json a))"
      by (auto simp: plan_item_def and_then_Inr_iff)
    from read_password_file_Inr [OF v(1)] v Some show ?thesis by (intro exI [of _ "Some v"]) (simp add: simps)
  qed
qed

definition sample_account :: json where
  "sample_account = JObj [(''username'', JStr ''bob''), (''name'', JStr '' Bob ''), (''passwordFile'', JStr ''/run/bob'')]"

definition sample_files :: "string \<Rightarrow> password_file option" where
  "sample_files name = Some \<lparr>pw_regular = True, pw_mode = 384, pw_text = Some (''hunter2'' @ [CHR 0x0A])\<rparr>"

theorem setup_plan_accepted_witness:
  "\<exists>p. normalized_account_plan default_config (projr (plan_item sample_files
      (projr (normalize_account default_config 32 (\<lambda>_. None) sample_account)))) = Inr p \<and> plan_name p = ''Bob''"
proof -
  let ?a = "projr (normalize_account default_config 32 (\<lambda>_. None) sample_account)"
  have "clean_roles default_config" unfolding clean_roles_def by code_simp
  moreover have "normalize_account default_config 32 (\<lambda>_. None) sample_account = Inr ?a" by (rule right_result) code_simp
  moreover have "plan_item sample_files ?a = Inr (projr (plan_item sample_files ?a))" by (rule right_result) code_simp
  ultimately have "\<exists>p. normalized_account_plan default_config (projr (plan_item sample_files ?a)) = Inr p \<and> plan_name p = acc_name ?a"
    using setup_plan_accepted [of default_config 32 "\<lambda>_. None" sample_account ?a sample_files] by fastforce
  moreover have "acc_name ?a = ''Bob''" by code_simp
  ultimately show ?thesis by metis
qed

text \<open>What a normalized configuration promises to the code that creates pools and accounts.\<close>

definition valid_storage :: "storage_config \<Rightarrow> bool" where
  "valid_storage st \<longleftrightarrow>
     distinct (pool_devices st) \<and> list_all (\<lambda>s. starts_with s ''/dev/'' \<and> ''..'' \<notin> set (path_tail (pure_path s))) (pool_devices st) \<and>
     topology st \<in> set ZFS_TOPOLOGIES \<and> 9 \<le> ashift st \<and> ashift st \<le> 16 \<and>
     (if create_pool st then minimum_devices (topology st) \<le> length (pool_devices st) \<and>
        (topology st = ''single'' \<longrightarrow> length (pool_devices st) = 1)
      else pool_devices st = [] \<and> \<not> wipe_devices st)"

definition valid_account :: "identity_config \<Rightarrow> account \<Rightarrow> bool" where
  "valid_account cfg a \<longleftrightarrow>
     username_matches (acc_username a) \<and> acc_username a \<noteq> ''akadmin'' \<and> set (acc_groups a) \<subseteq> RESERVED_GROUPS cfg \<and>
     (if acc_active a then acc_groups a \<noteq> [] \<and> DISABLED_GROUP cfg \<notin> set (acc_groups a)
      else acc_groups a = [DISABLED_GROUP cfg])"

lemma storage_devices_Inr:
  "storage_devices v = Inr ds \<Longrightarrow> distinct ds \<and> list_all (\<lambda>s. starts_with s ''/dev/'' \<and> ''..'' \<notin> set (path_tail (pure_path s))) ds"
  by (auto simp: storage_devices_def check_devices_def and_then_Inr_iff list_all_iff list_ex_iff split: if_splits)

lemma storage_ashift_Inr: "storage_ashift v = Inr n \<Longrightarrow> 9 \<le> n \<and> n \<le> 16"
  by (cases v) (auto split: if_splits)

lemma normalize_storage_valid:
  assumes "normalize_storage v = Inr st"
  shows "valid_storage st"
proof -
  obtain ds t n create wipe x y z where st: "st = \<lparr>create_pool = create, pool_devices = ds, topology = t, wipe_devices = wipe, ashift = n\<rparr>"
    and parts: "storage_devices x = Inr ds" "storage_topology y = Inr t" "storage_ashift z = Inr n" "check_pool st = Inr ()"
    using assms by (auto simp: normalize_storage_def and_then_Inr_iff Let_def)
  have "t \<in> set ZFS_TOPOLOGIES" using parts(2) by (auto simp: storage_topology_def and_then_Inr_iff split: if_splits)
  with parts storage_devices_Inr [OF parts(1)] storage_ashift_Inr [OF parts(3)] show ?thesis
    by (auto simp: valid_storage_def check_pool_def st split: if_splits)
qed

lemma normalize_account_valid:
  assumes "normalize_account cfg max_devices loads raw = Inr a" and "clean_roles cfg"
  shows "valid_account cfg a"
  using assms(1)
proof (rule normalize_account_Inr)
  fix roles raw_roles
  assume u: "username_matches (acc_username a)" "acc_username a \<noteq> ''akadmin''"
    and r: "plan_roles cfg (acc_active a) raw_roles = Inr roles" "acc_groups a = sorted_list_of_set roles"
  note p = plan_roles_Inr [OF r(1)]
  show ?thesis using u r(2) p assms(2) by (auto simp: valid_account_def clean_roles_def)
qed

lemma add_service_mode_values:
  assumes "for_each xs add_service_mode d = Inr d'" and "set (map snd d) \<subseteq> set SERVICE_MODES"
  shows "set (map snd d') \<subseteq> set SERVICE_MODES"
  using assms
proof (rule for_each_invariant [where I = "\<lambda>d. set (map snd d) \<subseteq> set SERVICE_MODES"])
  fix x t t' assume t: "set (map snd t) \<subseteq> set SERVICE_MODES" and step: "add_service_mode x t = Inr t'"
  from step obtain k v where "t' = dict_set k v t" "v \<in> set SERVICE_MODES"
    by (cases x) (auto simp: add_service_mode_def and_then_Inr_iff split: if_splits)
  with t dict_set_values [of k v t] show "set (map snd t') \<subseteq> set SERVICE_MODES" by blast
qed

text \<open>
  A setup configuration that is accepted is safe to execute: pool devices are distinct device
  paths without parent traversal, a pool is created only with enough devices for its topology
  (a single-disk pool with exactly one), nothing is wiped without a pool, account names are
  distinct and safe, accounts hold base roles that fit their state, and modes are known.
\<close>

theorem setup_config_valid:
  assumes "normalize_config cfg max_devices loads raw = Inr c" and "clean_roles cfg"
  shows "valid_storage (cfg_storage c) \<and> list_all (valid_account cfg) (cfg_accounts c) \<and>
    distinct (map acc_username (cfg_accounts c)) \<and> set (map snd (cfg_services c)) \<subseteq> set SERVICE_MODES"
proof -
  obtain v w ds where a: "normalize_accounts cfg max_devices loads v = Inr (cfg_accounts c)"
    and s: "normalize_storage w = Inr (cfg_storage c)" and m: "for_each ds add_service_mode [] = Inr (cfg_services c)"
    using assms(1) by (auto simp: normalize_config_def and_then_Inr_iff split: if_splits)
  from a obtain xs where "map_res (normalize_account cfg max_devices loads) xs = Inr (cfg_accounts c)"
    and d: "distinct (map acc_username (cfg_accounts c))"
    by (auto simp: normalize_accounts_def and_then_Inr_iff split: if_splits)
  then have "list_all (valid_account cfg) (cfg_accounts c)"
    by (auto simp: map_res_Inr_iff list_all2_conv_all_nth list_all_length intro: normalize_account_valid [OF _ assms(2)])
  with d normalize_storage_valid [OF s] add_service_mode_values [OF m] show ?thesis by simp
qed

definition sample_config :: json_dict where
  "sample_config = [(''storage'', JObj [(''createPool'', JBool True), (''topology'', JStr ''mirror''),
       (''devices'', JList [JStr ''/dev/sda'', JStr ''/dev/sdb''])]),
     (''accounts'', JList [sample_account]), (''services'', JObj [(''photos'', JStr ''always'')])]"

theorem setup_config_valid_witness:
  "valid_storage (cfg_storage (projr (normalize_config default_config 32 (\<lambda>_. None) sample_config)))"
proof -
  have "clean_roles default_config" unfolding clean_roles_def by code_simp
  moreover have "normalize_config default_config 32 (\<lambda>_. None) sample_config =
      Inr (projr (normalize_config default_config 32 (\<lambda>_. None) sample_config))"
    by (rule right_result) code_simp
  ultimately show ?thesis using setup_config_valid by blast
qed

text \<open>
  A first-start request that is accepted carries a reservation token that the operation lock
  recognises, an absolute configuration path and distinct, non-empty device names.
\<close>

theorem first_start_request_valid:
  assumes "parse_first_start_request loads txt = Inr d"
  shows "(\<exists>token. dict_get d ''reservationToken'' = Some (JStr token) \<and> token_matches token) \<and>
    (\<exists>config. dict_get d ''config'' = Some (JStr config) \<and> is_absolute (pure_path config)) \<and>
    (\<exists>names. dict_get d ''devices'' = Some (JList (map JStr names)) \<and> distinct names \<and> [] \<notin> set names)"
proof -
  have hex: "\<exists>s. dict_get d k = Some (JStr s) \<and> hex_text n s" if "hex_field d k n = Inr u" for k n u
    using that by (auto simp: hex_field_def dict_get_or_def and_then_Inr_iff expect_Inr_iff split: option.splits if_splits)
  from assms obtain v where v: "loads txt = Some v"
    by (cases "loads txt") (simp_all add: parse_first_start_request_def)
  note body = assms [unfolded parse_first_start_request_def v option.case and_then_Inr_iff expect_Inr_iff if_Inl_Inr_iff]
  from body obtain config where token: "hex_field d ''reservationToken'' 32 = Inr ()"
    and c: "dict_get_or d ''config'' JNull = JStr config" "is_absolute (pure_path config)"
    and devs: "request_devices (dict_get_or d ''devices'' JNull) = Inr ()"
    by (elim exE conjE) (simp split: if_split_asm)
  from devs obtain xs where xs: "dict_get_or d ''devices'' JNull = JList xs" "list_all (\<lambda>x. is_str x \<and> truthy x) xs" "distinct xs"
    by (auto simp: request_devices_def and_then_Inr_iff expect_Inr_iff split: if_splits)
  have strs: "xs = map JStr (map py_str xs)" "[] \<notin> set (map py_str xs)"
    using xs(2) by (induction xs) (auto elim!: is_str.elims)
  then have "distinct (map py_str xs)" using xs(3) by (metis distinct_map)
  moreover have "dict_get d ''devices'' = Some (JList (map JStr (map py_str xs)))"
    using xs(1) strs(1) by (auto simp: dict_get_or_def split: option.splits)
  ultimately have "\<exists>names. dict_get d ''devices'' = Some (JList (map JStr names)) \<and> distinct names \<and> [] \<notin> set names"
    using strs(2) by blast
  moreover have "dict_get d ''config'' = Some (JStr config)" using c(1) by (auto simp: dict_get_or_def split: option.splits)
  ultimately show ?thesis using hex [OF token] c(2) by (simp add: hex_text_def token_matches_def)
qed

definition sample_request :: json where
  "sample_request = JObj [(''schemaVersion'', JInt 1), (''jobId'', JStr (replicate 24 CHR ''a'')),
     (''reservationToken'', JStr (replicate 32 CHR ''0'')), (''config'', JStr ''/etc/setup.json''),
     (''planDigest'', JStr (replicate 64 CHR ''f'')), (''devices'', JList [JStr ''/dev/sda'']),
     (''allowDestructiveStorage'', JBool True), (''confirmPasswordReapply'', JBool False), (''encryptStorage'', JBool True)]"

theorem first_start_request_valid_witness: "token_matches (replicate 32 CHR ''0'')"
proof -
  let ?d = "projr (parse_first_start_request (\<lambda>_. Some sample_request) [])"
  have "parse_first_start_request (\<lambda>_. Some sample_request) [] = Inr ?d" by (rule right_result) code_simp
  moreover have "dict_get ?d ''reservationToken'' = Some (JStr (replicate 32 CHR ''0''))" by code_simp
  ultimately show ?thesis using first_start_request_valid by fastforce
qed

end
