(* ===== verification/V2_Activation.thy ===== *)
theory V2_Activation
  imports Py_Json Posix_Path Common_Policy
begin

text \<open>
  Socket names and upstream targets of on-demand routes (\<open>services/nas_v2_activation.py\<close>). The
  hash of a pair of identifiers and the check of an IPv6 literal are parameters: \<open>digest\<close> is the
  hexadecimal SHA-256 of a text, \<open>ipv6\<close> says whether \<open>ipaddress.IPv6Address\<close> accepts it.
\<close>

section \<open>Definitions\<close>

definition activation_root :: pure_path where
  "activation_root = pure_path ''/run/nas-control/activate''"

definition activation_error :: "string \<Rightarrow> exn" where
  "activation_error m = RuntimeError m"

text \<open>The pattern of an identifier is that of a service.\<close>

definition safe_id :: "json \<Rightarrow> string res" where
  "safe_id v =
     and_then (expect_str (activation_error ''invalid identifier'') v) (\<lambda>s.
       if application_id s then Inr s else Inl (activation_error ''invalid identifier''))"

definition sock_path :: "string \<Rightarrow> pure_path" where
  "sock_path name = path_join activation_root (name @ ''.sock'')"

definition route_name :: "(string \<Rightarrow> string) \<Rightarrow> json \<Rightarrow> json \<Rightarrow> string res" where
  "route_name digest service_id route_id =
     and_then (safe_id service_id) (\<lambda>service.
     and_then (safe_id route_id) (\<lambda>route.
     let name = service @ ''-'' @ route in
     if CHR ''-'' \<in> set service \<or> CHR ''-'' \<in> set route \<or> 107 < length (path_str (sock_path name))
     then Inr (''h_'' @ digest (service @ [CHR 0x00] @ route))
     else Inr name))"

definition unit_base :: "(string \<Rightarrow> string) \<Rightarrow> json \<Rightarrow> json \<Rightarrow> string res" where
  "unit_base digest service_id route_id =
     and_then (route_name digest service_id route_id) (\<lambda>n. Inr (''nas-v2-activate-'' @ n))"

definition socket_unit :: "(string \<Rightarrow> string) \<Rightarrow> json \<Rightarrow> json \<Rightarrow> string res" where
  "socket_unit digest service_id route_id =
     and_then (unit_base digest service_id route_id) (\<lambda>n. Inr (n @ ''.socket''))"

definition proxy_unit :: "(string \<Rightarrow> string) \<Rightarrow> json \<Rightarrow> json \<Rightarrow> string res" where
  "proxy_unit digest service_id route_id =
     and_then (unit_base digest service_id route_id) (\<lambda>n. Inr (n @ ''.service''))"

definition socket_path :: "(string \<Rightarrow> string) \<Rightarrow> json \<Rightarrow> json \<Rightarrow> pure_path res" where
  "socket_path digest service_id route_id =
     and_then (route_name digest service_id route_id) (\<lambda>n. Inr (sock_path n))"

text \<open>Brackets around a host must be balanced; they are removed.\<close>

definition unbracket :: "string \<Rightarrow> string res" where
  "unbracket host =
     (if starts_with host ''['' \<or> (host \<noteq> [] \<and> last host = CHR '']'') then
        (if \<not> (starts_with host ''['' \<and> last host = CHR '']'') \<or> py_len host \<le> 2
         then Inl (activation_error ''malformed upstream host'')
         else Inr (tl (butlast host)))
      else Inr host)"

definition check_host :: "(string \<Rightarrow> bool) \<Rightarrow> string \<Rightarrow> string res" where
  "check_host ipv6 host =
     and_then (unbracket host) (\<lambda>h.
       if CHR ''['' \<in> set h \<or> CHR '']'' \<in> set h then Inl (activation_error ''malformed upstream host'')
       else if CHR '':'' \<in> set h \<and> \<not> ipv6 h then Inl (activation_error ''invalid upstream IPv6 host'')
       else Inr h)"

definition unsafe_host_char :: "char \<Rightarrow> bool" where
  "unsafe_host_char c \<longleftrightarrow> code c \<in> {0, 13, 10, 32} \<or> c = CHR ''{'' \<or> c = CHR ''}''"

fun port_number :: "json \<Rightarrow> int res" where
  "port_number (JInt n) = (if 1 \<le> n \<and> n \<le> 65535 then Inr n else Inl (activation_error ''invalid upstream port''))"
| "port_number _ = Inl (activation_error ''invalid upstream port'')"

definition http_target :: "(string \<Rightarrow> bool) \<Rightarrow> json_dict \<Rightarrow> string res" where
  "http_target ipv6 target =
     (let at = (\<lambda>k. case dict_get target k of Some v \<Rightarrow> v | None \<Rightarrow> JNull) in
      and_then (expect_str (activation_error ''unsafe upstream host'') (at ''host'')) (\<lambda>host.
      if list_ex unsafe_host_char host then Inl (activation_error ''unsafe upstream host'') else
      and_then (port_number (at ''port'')) (\<lambda>port.
      and_then (check_host ipv6 host) (\<lambda>h. Inr (h @ '':'' @ int_str port)))))"

definition unix_target :: "json_dict \<Rightarrow> string res" where
  "unix_target target =
     and_then (expect_str (activation_error ''invalid upstream socket'')
       (case dict_get target ''socket'' of Some v \<Rightarrow> v | None \<Rightarrow> JNull)) (\<lambda>raw.
     if list_ex (\<lambda>c. code c \<in> {0, 13, 10}) raw then Inl (activation_error ''invalid upstream socket'')
     else let path = pure_path raw in
       if \<not> is_absolute path \<or> ''..'' \<in> set (path_tail path)
       then Inl (activation_error ''absolute safe path'') else Inr (path_str path))"

definition backend_target :: "(string \<Rightarrow> bool) \<Rightarrow> json \<Rightarrow> string res" where
  "backend_target ipv6 route =
     and_then (get route ''target'') (\<lambda>raw.
     and_then (expect_obj (activation_error ''missing its target'') raw) (\<lambda>target.
     let target_type = (case dict_get target ''type'' of Some v \<Rightarrow> v | None \<Rightarrow> JNull) in
     and_then (in_strs target_type [''http'', ''https'']) (\<lambda>http.
     if http then http_target ipv6 target
     else if target_type = JStr ''unix-http'' then unix_target target
     else Inl (activation_error ''unsupported target type''))))"

section \<open>Names are distinct and short\<close>

definition id_char :: "char \<Rightarrow> bool" where
  "id_char c \<longleftrightarrow> is_lower c \<or> is_digit c \<or> c = CHR ''-''"

lemma safe_id_Inr: "safe_id v = Inr s \<Longrightarrow> v = JStr s \<and> s \<noteq> [] \<and> list_all id_char s"
  by (auto simp: safe_id_def application_id_def and_then_Inr_iff expect_Inr_iff id_char_def list_all_iff
      split: if_splits list.splits)

lemma id_chars_absent:
  assumes "list_all id_char s"
  shows "CHR ''_'' \<notin> set s" "CHR 0x00 \<notin> set s" "CHR ''/'' \<notin> set s" "CHR ''.'' \<notin> set s"
  using assms by (auto simp: list_all_iff id_char_def is_lower_def is_digit_def)

text \<open>What a name is made of.\<close>

lemma route_name_Inr:
  assumes "route_name digest a b = Inr n"
  obtains s r where "a = JStr s" "b = JStr r" "list_all id_char s" "list_all id_char r" "s \<noteq> []" "r \<noteq> []"
    "n = ''h_'' @ digest (s @ [CHR 0x00] @ r) \<or>
     n = s @ ''-'' @ r \<and> CHR ''-'' \<notin> set s \<and> CHR ''-'' \<notin> set r \<and> length (path_str (sock_path n)) \<le> 107"
  using assms
  by (auto simp: route_name_def and_then_Inr_iff Let_def not_less dest!: safe_id_Inr split: if_splits)

lemma append_sep_inj:
  assumes "c \<notin> set s" "c \<notin> set s'" "s @ c # r = s' @ c # r'"
  shows "s = s' \<and> r = r'"
  using assms by (induction s arbitrary: s') (auto simp: Cons_eq_append_conv append_eq_Cons_conv)

text \<open>
  Two on-demand routes share a socket name only if the hash collides: equal names mean equal
  pairs of identifiers, although a hyphen may occur in an identifier and separates them, or
  exhibit two distinct texts of the form hashed here with the same digest.
\<close>

theorem route_names_distinct:
  assumes n: "route_name digest a b = Inr n" and n': "route_name digest a' b' = Inr n"
  shows "a = a' \<and> b = b' \<or> (\<exists>x y. x \<noteq> y \<and> CHR 0x00 \<in> set x \<and> CHR 0x00 \<in> set y \<and> digest x = digest y)"
proof (rule disjCI)
  assume free: "\<nexists>x y. x \<noteq> y \<and> CHR 0x00 \<in> set x \<and> CHR 0x00 \<in> set y \<and> digest x = digest y"
  from n obtain s r where 1: "a = JStr s" "b = JStr r" "list_all id_char s" "list_all id_char r"
    "n = ''h_'' @ digest (s @ [CHR 0x00] @ r) \<or> n = s @ ''-'' @ r \<and> CHR ''-'' \<notin> set s \<and> CHR ''-'' \<notin> set r"
    by (rule route_name_Inr) blast
  from n' obtain s' r' where 2: "a' = JStr s'" "b' = JStr r'" "list_all id_char s'" "list_all id_char r'"
    "n = ''h_'' @ digest (s' @ [CHR 0x00] @ r') \<or> n = s' @ ''-'' @ r' \<and> CHR ''-'' \<notin> set s' \<and> CHR ''-'' \<notin> set r'"
    by (rule route_name_Inr) blast
  note absent = id_chars_absent [OF 1(3)] id_chars_absent [OF 1(4)] id_chars_absent [OF 2(3)] id_chars_absent [OF 2(4)]
  have plain: "''h_'' @ x \<noteq> t @ ''-'' @ u" if "CHR ''_'' \<notin> set t" "CHR ''_'' \<notin> set u" for x t u
  proof
    assume "''h_'' @ x = t @ ''-'' @ u"
    then have "CHR ''_'' \<in> set (t @ ''-'' @ u)" by (metis in_set_conv_decomp append_Cons append_Nil)
    with that show False by auto
  qed
  from 1(5) 2(5) have "s = s' \<and> r = r'"
  proof (elim disjE conjE)
    assume "n = ''h_'' @ digest (s @ [CHR 0x00] @ r)" "n = ''h_'' @ digest (s' @ [CHR 0x00] @ r')"
    then have "digest (s @ CHR 0x00 # r) = digest (s' @ CHR 0x00 # r')" by simp
    then have "s @ CHR 0x00 # r = s' @ CHR 0x00 # r'" using free by fastforce
    then show ?thesis using absent by (blast dest: append_sep_inj)
  next
    assume "n = s @ ''-'' @ r" "CHR ''-'' \<notin> set s" "n = s' @ ''-'' @ r'" "CHR ''-'' \<notin> set s'"
    then show ?thesis by (auto dest: append_sep_inj)
  qed (use plain absent in \<open>blast+\<close>)
  with 1 2 show "a = a' \<and> b = b'" by simp
qed

theorem route_names_distinct_witness:
  "route_name (\<lambda>x. x) (JStr ''a-b'') (JStr ''c'') \<noteq> route_name (\<lambda>x. x) (JStr ''a'') (JStr ''b-c'')"
proof
  have n: "route_name (\<lambda>x. x) (JStr ''a-b'') (JStr ''c'') = Inr (''h_a-b'' @ [CHR 0x00] @ ''c'')" by code_simp
  moreover assume "route_name (\<lambda>x. x) (JStr ''a-b'') (JStr ''c'') = route_name (\<lambda>x. x) (JStr ''a'') (JStr ''b-c'')"
  ultimately have "route_name (\<lambda>x. x) (JStr ''a'') (JStr ''b-c'') = Inr (''h_a-b'' @ [CHR 0x00] @ ''c'')" by simp
  from route_names_distinct [OF n this] show False by simp
qed

lemma sock_path_str:
  assumes "CHR ''/'' \<notin> set name"
  shows "path_str (sock_path name) = ''/run/nas-control/activate/'' @ name @ ''.sock''"
proof -
  have root: "activation_root = PurePath ''/'' [''run'', ''nas-control'', ''activate'']" by code_simp
  have "CHR ''/'' \<notin> set (name @ ''.sock'')" using assms by simp
  then have split: "py_split (CHR ''/'') (name @ ''.sock'') = [name @ ''.sock'']" by (rule py_split_no_sep)
  have "split_root (name @ ''.sock'') = ('''', name @ ''.sock'')"
    using assms by (cases name) (auto simp: split_root_def)
  moreover have "name @ ''.sock'' \<noteq> ''.''" by (cases name) auto
  ultimately have "pure_path (name @ ''.sock'') = PurePath '''' [name @ ''.sock'']"
    by (simp add: pure_path_def split)
  then show ?thesis by (simp add: sock_path_def path_join_def root path_str_def)
qed

text \<open>
  The path of every activation socket fits the 107 bytes that a Unix socket address has for
  it, whatever the length of the identifiers; the digest has 64 hexadecimal digits.
\<close>

theorem socket_path_fits:
  assumes "\<And>x. length (digest x) = 64 \<and> list_all (\<lambda>c. is_digit c \<or> is_lower c) (digest x)"
    and "socket_path digest a b = Inr p"
  shows "length (path_str p) \<le> 107"
proof -
  from assms(2) obtain n where n: "route_name digest a b = Inr n" "p = sock_path n"
    by (auto simp: socket_path_def and_then_Inr_iff)
  from n(1) obtain s r where "n = ''h_'' @ digest (s @ [CHR 0x00] @ r) \<or> length (path_str (sock_path n)) \<le> 107"
    by (rule route_name_Inr) blast
  then show ?thesis
  proof
    assume h: "n = ''h_'' @ digest (s @ [CHR 0x00] @ r)"
    have "CHR ''/'' \<notin> set (digest (s @ [CHR 0x00] @ r))"
      using assms(1) [of "s @ [CHR 0x00] @ r"] by (auto simp: list_all_iff is_digit_def is_lower_def)
    then have "CHR ''/'' \<notin> set n" by (simp add: h)
    from sock_path_str [OF this] assms(1) [of "s @ [CHR 0x00] @ r"] show ?thesis by (simp add: n h)
  qed (simp add: n)
qed

theorem socket_path_fits_witness:
  "length (path_str (projr (socket_path (\<lambda>_. replicate 64 CHR ''0'') (JStr ''my-photos'') (JStr ''ui'')))) \<le> 107"
proof (rule socket_path_fits)
  show "length (replicate 64 CHR ''0'') = 64 \<and> list_all (\<lambda>c. is_digit c \<or> is_lower c) (replicate 64 CHR ''0'')" for x :: string
    by code_simp
  show "socket_path (\<lambda>_. replicate 64 CHR ''0'') (JStr ''my-photos'') (JStr ''ui'') =
      Inr (projr (socket_path (\<lambda>_. replicate 64 CHR ''0'') (JStr ''my-photos'') (JStr ''ui'')))"
    by (rule right_result) code_simp
qed

section \<open>Upstream targets\<close>

text \<open>How the socket proxy reads its argument: the port is what follows the last colon.\<close>

definition split_last_colon :: "string \<Rightarrow> string \<times> string" where
  "split_last_colon s =
     (let port = rev (takeWhile (\<lambda>c. c \<noteq> CHR '':'') (rev s)) in (take (length s - Suc (length port)) s, port))"

lemma split_last_colon_append:
  assumes "CHR '':'' \<notin> set d"
  shows "split_last_colon (h @ '':'' @ d) = (h, d)"
proof -
  have "takeWhile (\<lambda>c. c \<noteq> CHR '':'') (rev d @ CHR '':'' # rev h) = rev d"
    using assms by (subst takeWhile_append2) auto
  then show ?thesis by (simp add: split_last_colon_def)
qed

text \<open>
  An HTTP target is rendered so that the proxy reads back the host and the port: the text
  after the last colon is the port number of the route, and what precedes it is the host
  without brackets, also for an IPv6 literal.
\<close>

theorem backend_target_splits:
  assumes "backend_target ipv6 route = Inr t" and "item route ''target'' = Inr (JObj target)"
    and "dict_get target ''type'' = Some (JStr ''http'')"
  shows "\<exists>host port. dict_get target ''host'' = Some (JStr host) \<and> dict_get target ''port'' = Some (JInt port) \<and>
    1 \<le> port \<and> port \<le> 65535 \<and> unbracket host = Inr (fst (split_last_colon t)) \<and> snd (split_last_colon t) = int_str port"
proof -
  have "http_target ipv6 target = Inr t"
    using assms by (cases route) (auto simp: backend_target_def and_then_Inr_iff expect_Inr_iff Let_def split: option.splits)
  then obtain host v port h where d: "dict_get target ''host'' = Some (JStr host)" "dict_get target ''port'' = Some v"
    and p: "port_number v = Inr port" "check_host ipv6 host = Inr h" "t = h @ '':'' @ int_str port"
    by (auto simp: http_target_def and_then_Inr_iff expect_Inr_iff Let_def split: option.splits if_splits)
  from p(1) have v: "v = JInt port" "1 \<le> port" "port \<le> 65535" by (cases v; auto split: if_splits)+
  have "CHR '':'' \<notin> set (nat_digits (nat port))"
    using nat_digits_digits [of "nat port"] by (auto simp: list_all_iff is_digit_def)
  then have "split_last_colon t = (h, int_str port)"
    using v(2) unfolding p(3) by (intro split_last_colon_append) (simp add: int_str_def)
  moreover have "unbracket host = Inr h" using p(2) by (auto simp: check_host_def and_then_Inr_iff split: if_splits)
  ultimately show ?thesis using d v by auto
qed

theorem backend_target_splits_witness:
  "split_last_colon ''::1:80'' = (''::1'', ''80'')"
proof -
  let ?target = "[(''type'', JStr ''http''), (''host'', JStr ''[::1]''), (''port'', JInt 80)]"
  let ?route = "JObj [(''target'', JObj ?target)]"
  have "backend_target (\<lambda>s. s = ''::1'') ?route = Inr ''::1:80''" by code_simp
  from backend_target_splits [OF this, of ?target]
  have "unbracket ''[::1]'' = Inr (fst (split_last_colon ''::1:80''))" "snd (split_last_colon ''::1:80'') = int_str 80"
    by auto
  moreover have "unbracket ''[::1]'' = Inr ''::1''" "int_str 80 = ''80''" by code_simp+
  ultimately show ?thesis by (simp add: prod_eq_iff)
qed

end
