(* ===== verification/V2_Plan.thy ===== *)
theory V2_Plan
  imports V2_Effective "HOL-Library.Multiset"
begin

text \<open>
  The native-subsystem plan (\<open>services/nas_v2_plan.py\<close>): one list of actions per subsystem, built
  from the effective state by a loop over the services in the order of their names.
\<close>

section \<open>Definitions\<close>

record plan =
  plan_runtime :: "json list"
  plan_systemd :: "json list"
  plan_authentik :: "json list"
  plan_caddy :: "json list"
  plan_network :: "json list"
  plan_storage :: "json list"

definition runtime_action :: "string \<Rightarrow> json \<Rightarrow> json \<Rightarrow> json res" where
  "runtime_action sid service owner =
     and_then (item service ''workload'') (\<lambda>workload.
     and_then (item2 service ''runtime'' ''type'') (\<lambda>t.
     and_then (item service ''enabled'') (\<lambda>enabled.
     and_then (item service ''managed'') (\<lambda>managed.
     and_then (item workload ''kind'') (\<lambda>kind.
     and_then (get workload ''activation'') (\<lambda>activation.
     Inr (JObj [(''action'', JStr ''ensure-runtime''), (''service'', JStr sid), (''runtimeType'', t), (''ownerUnit'', owner),
       (''enabled'', enabled), (''managed'', managed), (''workloadKind'', kind), (''activation'', activation)])))))))"

definition dependency_action :: "string \<Rightarrow> json \<Rightarrow> json res" where
  "dependency_action sid dependency =
     and_then (item dependency ''service'') (\<lambda>target.
     and_then (item dependency ''condition'') (\<lambda>condition.
     Inr (JObj [(''action'', JStr ''dependency''), (''service'', JStr sid), (''dependsOn'', target), (''condition'', condition)])))"

definition timer_action :: "string \<Rightarrow> nat \<times> json \<Rightarrow> json" where
  "timer_action sid = (\<lambda>(index, schedule). JObj [(''action'', JStr ''timer''), (''service'', JStr sid),
     (''scheduleIndex'', JInt (int index)), (''schedule'', schedule)])"

definition workload_actions :: "string \<Rightarrow> json \<Rightarrow> json list res" where
  "workload_actions sid service =
     and_then (item service ''workload'') (\<lambda>workload.
     and_then (item workload ''kind'') (\<lambda>kind.
     if kind = JStr ''job'' then
       and_then (item_list workload ''schedules'') (\<lambda>xs. Inr (map (timer_action sid) (enumerate 0 xs)))
     else if kind = JStr ''daemon'' then
       and_then (item_is workload ''activation'' ''on-demand'') (\<lambda>on_demand.
       if \<not> on_demand then Inr []
       else and_then (item_dict service ''routes'') (\<lambda>rs.
         and_then (item workload ''idleSeconds'') (\<lambda>idle.
         Inr [JObj [(''action'', JStr ''socket-activation''), (''service'', JStr sid),
           (''routes'', JList (map JStr (sort (map fst rs)))), (''idleSeconds'', idle)]])))
     else Inr []))"

definition capability_action :: "string \<Rightarrow> string \<times> json \<Rightarrow> json" where
  "capability_action sid = (\<lambda>(cap, name). JObj [(''action'', JStr ''ensure-capability''), (''service'', JStr sid),
     (''capability'', JStr cap), (''canonicalName'', name)])"

definition capability_actions :: "json \<Rightarrow> string \<Rightarrow> json list res" where
  "capability_actions derived sid =
     and_then (item2 derived ''authorization'' sid) (\<lambda>entry.
     and_then (item_dict entry ''capabilities'') (\<lambda>caps.
     Inr (map (capability_action sid) (sort_key fst caps))))"

definition policy_actions :: "json \<Rightarrow> string \<Rightarrow> json \<Rightarrow> json list res" where
  "policy_actions effective sid service =
     and_then (has_key service ''networkProfile'') (\<lambda>by_profile.
     and_then (if by_profile then
         and_then (item_str service ''networkProfile'') (\<lambda>name. item2 effective ''networkProfiles'' name)
       else get service ''network'') (\<lambda>policy.
     Inr (if policy = JNull then []
          else [JObj [(''action'', JStr ''service-policy''), (''service'', JStr sid), (''policy'', policy)]])))"

definition listener_action :: "string \<Rightarrow> string \<times> json \<Rightarrow> json res" where
  "listener_action sid = (\<lambda>(lid, listener).
     and_then (item listener ''protocol'') (\<lambda>protocol.
     and_then (item listener ''exposure'') (\<lambda>exposure.
     and_then (item listener ''firewall'') (\<lambda>firewall.
     Inr (JObj [(''action'', JStr ''listener''), (''service'', JStr sid), (''listener'', JStr lid), (''protocol'', protocol),
       (''exposure'', exposure), (''firewall'', firewall)])))))"

definition plan_service :: "json \<Rightarrow> json \<Rightarrow> string \<times> json \<Rightarrow> plan \<Rightarrow> plan res" where
  "plan_service effective derived = (\<lambda>(sid, service) p.
     and_then (item2 derived ''runtime'' sid) (\<lambda>meta.
     and_then (item meta ''ownerUnit'') (\<lambda>owner.
     and_then (runtime_action sid service owner) (\<lambda>runtime.
     and_then (item_list service ''dependencies'') (\<lambda>dependencies.
     and_then (map_res (dependency_action sid) dependencies) (\<lambda>deps.
     and_then (workload_actions sid service) (\<lambda>work.
     and_then (capability_actions derived sid) (\<lambda>caps.
     and_then (policy_actions effective sid service) (\<lambda>policies.
     and_then (item_dict service ''listeners'') (\<lambda>ls.
     and_then (map_res (listener_action sid) (sort_key fst ls)) (\<lambda>listeners.
     Inr (p\<lparr>plan_runtime := plan_runtime p @ [runtime], plan_systemd := plan_systemd p @ deps @ work,
       plan_authentik := plan_authentik p @ caps, plan_network := plan_network p @ policies @ listeners\<rparr>))))))))))))"

definition route_action :: "json \<Rightarrow> json res" where
  "route_action route = and_then (dict_items route) (\<lambda>d.
     Inr (JObj (fold (\<lambda>(k, v). dict_set k v) d [(''action'', JStr ''route'')])))"

definition resource_action :: "string \<times> json \<Rightarrow> json res" where
  "resource_action = (\<lambda>(rid, resource).
     and_then (item resource ''path'') (\<lambda>path.
     and_then (item resource ''stateClass'') (\<lambda>state_class.
     and_then (item resource ''backup'') (\<lambda>backup.
     and_then (item resource ''fileBrowser'') (\<lambda>browser.
     Inr (JObj [(''action'', JStr ''resource''), (''resource'', JStr rid), (''path'', path), (''stateClass'', state_class),
       (''backup'', backup), (''fileBrowser'', browser)]))))))"

definition attach_actions :: "string \<times> json \<Rightarrow> json list res" where
  "attach_actions = (\<lambda>(sid, service).
     and_then (item_list service ''storage'') (\<lambda>xs.
     Inr (map (\<lambda>a. JObj [(''action'', JStr ''attach''), (''service'', JStr sid), (''attachment'', a)]) xs)))"

definition build_plan :: "json \<Rightarrow> (json \<times> plan) res" where
  "build_plan effective =
     and_then (item effective ''generation'') (\<lambda>generation.
     and_then (item effective ''derived'') (\<lambda>derived.
     and_then (item_dict effective ''services'') (\<lambda>services.
     and_then (for_each (sort_key fst services) (plan_service effective derived)
         \<lparr>plan_runtime = [], plan_systemd = [], plan_authentik = [], plan_caddy = [], plan_network = [], plan_storage = []\<rparr>) (\<lambda>p.
     and_then (item_list derived ''routes'') (\<lambda>rs.
     and_then (map_res route_action rs) (\<lambda>caddy.
     and_then (item_dict effective ''storageResources'') (\<lambda>resources.
     and_then (map_res resource_action (sort_key fst resources)) (\<lambda>storage.
     and_then (map_res attach_actions (sort_key fst services)) (\<lambda>attachments.
     Inr (generation, p\<lparr>plan_caddy := caddy, plan_storage := storage @ concat attachments\<rparr>))))))))))"

section \<open>What the plan contains\<close>

text \<open>Each service contributes one runtime action and its capability actions, in order.\<close>

lemma plan_service_runtime:
  assumes "plan_service effective derived (sid, service) p = Inr p'"
  obtains a cs where "plan_runtime p' = plan_runtime p @ [a]" "soft_get a ''service'' = JStr sid"
    "capability_actions derived sid = Inr cs" "plan_authentik p' = plan_authentik p @ cs"
  using assms
  by (auto simp: plan_service_def and_then_Inr_iff runtime_action_def soft_get_def)

lemma plan_services_runtime:
  assumes "for_each xs (plan_service effective derived) p = Inr p'"
  shows "map (\<lambda>a. soft_get a ''service'') (plan_runtime p') = map (\<lambda>a. soft_get a ''service'') (plan_runtime p) @ map (JStr \<circ> fst) xs
    \<and> plan_authentik p' = plan_authentik p @ concat (map (\<lambda>x. projr (capability_actions derived (fst x))) xs)"
  using assms
proof (induction xs arbitrary: p)
  case (Cons x xs)
  obtain sid service where x: "x = (sid, service)" by (cases x)
  from Cons.prems obtain q where q: "plan_service effective derived (sid, service) p = Inr q"
    and rest: "for_each xs (plan_service effective derived) q = Inr p'"
    by (auto simp: and_then_Inr_iff x)
  from q obtain a cs where "plan_runtime q = plan_runtime p @ [a]" "soft_get a ''service'' = JStr sid"
    "capability_actions derived sid = Inr cs" "plan_authentik q = plan_authentik p @ cs"
    by (rule plan_service_runtime)
  with Cons.IH [OF rest] show ?case by (simp add: x)
qed simp

lemma sort_key_fst_keys: "map fst (sort_key fst xs) = sort (map fst xs)" for xs :: "('a :: linorder \<times> 'b) list"
proof (rule properties_for_sort [symmetric])
  show "mset (map fst (sort_key fst xs)) = mset (map fst xs)" by (metis mset_map mset_sort)
qed simp

lemma build_plan_services:
  assumes "build_plan eff = Inr (g, p)" and "item_dict eff ''services'' = Inr services" and "item eff ''derived'' = Inr derived"
  shows "map (\<lambda>a. soft_get a ''service'') (plan_runtime p) = map JStr (sort (map fst services))"
    and "plan_authentik p = concat (map (\<lambda>x. projr (capability_actions derived (fst x))) (sort_key fst services))"
proof -
  obtain q caddy storage where q: "for_each (sort_key fst services) (plan_service eff derived)
      \<lparr>plan_runtime = [], plan_systemd = [], plan_authentik = [], plan_caddy = [], plan_network = [], plan_storage = []\<rparr> = Inr q"
    and p: "p = q\<lparr>plan_caddy := caddy, plan_storage := storage\<rparr>"
    using assms by (auto simp: build_plan_def and_then_Inr_iff)
  from plan_services_runtime [OF q] p
  show "map (\<lambda>a. soft_get a ''service'') (plan_runtime p) = map JStr (sort (map fst services))"
    "plan_authentik p = concat (map (\<lambda>x. projr (capability_actions derived (fst x))) (sort_key fst services))"
    by (simp_all flip: sort_key_fst_keys)
qed

text \<open>The capability actions of a compiled document are those of its declared capabilities.\<close>

lemma compiled_capability_actions:
  assumes eff: "build_effective n = Inr eff" and shape: "schema_shape n"
    and svc: "item_dict n ''services'' = Inr services" and d: "item eff ''derived'' = Inr derived"
    and s: "dict_get services s = Some service"
  shows "set (projr (capability_actions derived s)) = {capability_action s (c, JStr (''application.'' @ s @ ''.'' @ c)) |c. declares n s c}"
proof -
  have dist: "distinct (map fst services)" and shapes: "list_all schema_service services"
    using shape svc by (auto simp: schema_shape_def)
  from eff svc obtain top st backups where
    run: "for_each services derive_service \<lparr>authorization = [], runtimes = [], routes = []\<rparr> = Inr st"
    and e: "eff = JObj (dict_set ''derived'' (JObj [(''authorization'', JObj (authorization st)),
       (''runtime'', JObj (runtimes st)), (''routes'', JList (routes st)), (''backupResources'', backups)]) top)"
    by (rule build_effectiveE)
  let ?caps = "projr (service_capabilities s service)"
  from derive_services_get [OF run dist, of s] s
  have entry: "dict_get (authorization st) s = Some (JObj [(''capabilities'', JObj ?caps)])"
    and caps: "service_capabilities s service = Inr ?caps"
    by (auto intro: right_result simp del: map_of_eq_Some_iff)
  have "schema_service (s, service)" using shapes s by (auto simp: list_all_iff dest: map_of_SomeD)
  from this caps obtain xs where xs: "item2 service ''authorization'' ''capabilities'' = Inr (JList xs)"
    "list_all declared_item_ok xs" "application_id s"
    by (rule schema_service_declared)
  have "derived = JObj [(''authorization'', JObj (authorization st)),
       (''runtime'', JObj (runtimes st)), (''routes'', JList (routes st)), (''backupResources'', backups)]"
    using d by (simp add: e dict_simps)
  then have acts: "projr (capability_actions derived s) = map (capability_action s) (sort_key fst ?caps)"
    using entry by (simp add: capability_actions_def item2_def item_dict_def)
  have decl: "declares n s c \<longleftrightarrow> c = ''access'' \<or> list_ex (\<lambda>x. item_str x ''id'' = Inr c) xs" for c
    using svc s xs(1) list_ex_declared [OF xs(2), of c] by (simp add: declares_def)
  have "(c, v) \<in> set ?caps \<longleftrightarrow> declares n s c \<and> v = JStr (''application.'' @ s @ ''.'' @ c)" for c v
  proof -
    have "(c, v) \<in> set ?caps \<longleftrightarrow> dict_get ?caps c = Some v"
      using service_capabilities_get(2) [OF caps xs(1)] by simp
    then show ?thesis
      unfolding service_capabilities_get(1) [OF caps xs(1), of c] decl capability_group_text_def by auto
  qed
  then show ?thesis unfolding acts by (auto simp: set_sort image_iff)
qed

lemma declares_service: "item_dict n ''services'' = Inr services \<Longrightarrow> declares n s c \<Longrightarrow> \<exists>service. dict_get services s = Some service"
  by (auto simp: declares_def split: option.splits)

text \<open>
  The plan of a compiled document has exactly one runtime action per service, in the order of
  the service names, and asks Authentik for exactly the groups of the declared capabilities: no
  group is missing and none is added.
\<close>

theorem compiled_plan_complete:
  assumes "\<And>d. iter_errors schema d = [] \<Longrightarrow> schema_shape d"
    and "compile_document iter_errors resolve document schema platform = Inr eff"
    and "normalize document = Inr n" and "item_dict n ''services'' = Inr services"
    and plan: "build_plan eff = Inr (g, p)"
  shows "map (\<lambda>a. soft_get a ''service'') (plan_runtime p) = map JStr (sort (map fst services)) \<and>
    set (plan_authentik p) = {capability_action s (c, JStr (''application.'' @ s @ ''.'' @ c)) |s c. declares n s c}"
proof -
  have n: "schema_shape n" "build_effective n = Inr eff"
    using assms(3) compile_documentE [OF assms(1,2)] by auto
  from n(2) assms(4) obtain derived where d: "item eff ''derived'' = Inr derived" "item_dict eff ''services'' = Inr services"
    by (rule build_effectiveE) (auto simp: item_dict_def dict_simps)
  note acts = compiled_capability_actions [OF n(2,1) assms(4) d(1)]
  have dist: "distinct (map fst services)" using n(1) assms(4) by (auto simp: schema_shape_def)
  have "set (plan_authentik p) = (\<Union>x \<in> set services. set (projr (capability_actions derived (fst x))))"
    unfolding build_plan_services(2) [OF plan d(2,1)] by (simp add: set_sort)
  also have "\<dots> = {capability_action s (c, JStr (''application.'' @ s @ ''.'' @ c)) |s c. declares n s c}"
  proof (intro equalityI subsetI)
    fix a assume "a \<in> (\<Union>x \<in> set services. set (projr (capability_actions derived (fst x))))"
    then obtain s service where "(s, service) \<in> set services" and a: "a \<in> set (projr (capability_actions derived s))" by auto
    with dist have "dict_get services s = Some service" by simp
    from a [unfolded acts [OF this]] show "a \<in> {capability_action s (c, JStr (''application.'' @ s @ ''.'' @ c)) |s c. declares n s c}"
      by blast
  next
    fix a assume "a \<in> {capability_action s (c, JStr (''application.'' @ s @ ''.'' @ c)) |s c. declares n s c}"
    then obtain s c where a: "a = capability_action s (c, JStr (''application.'' @ s @ ''.'' @ c))" "declares n s c" by blast
    then obtain service where s: "dict_get services s = Some service" using declares_service [OF assms(4)] by blast
    have "a \<in> set (projr (capability_actions derived s))" unfolding acts [OF s] using a by blast
    then show "a \<in> (\<Union>x \<in> set services. set (projr (capability_actions derived (fst x))))"
      using map_of_SomeD [OF s] by fastforce
  qed
  finally show ?thesis using build_plan_services(1) [OF plan d(2,1)] by simp
qed

definition sample_built_plan :: plan where
  "sample_built_plan = snd (projr (build_plan sample_effective))"

theorem compiled_plan_complete_witness:
  "map (\<lambda>a. soft_get a ''service'') (plan_runtime sample_built_plan) = [JStr ''photos'']"
proof -
  let ?services = "projr (item_dict sample_spec_normalized ''services'')"
  have "build_plan sample_effective = Inr (fst (projr (build_plan sample_effective)), sample_built_plan)"
    unfolding sample_built_plan_def by (simp add: right_result) code_simp
  moreover have "item_dict sample_spec_normalized ''services'' = Inr ?services" by (rule right_result) code_simp
  ultimately have "map (\<lambda>a. soft_get a ''service'') (plan_runtime sample_built_plan) = map JStr (sort (map fst ?services))"
    using compiled_plan_complete [OF _ sample_compiles sample_spec_normalizes, of ?services] shape_errors_Nil by blast
  moreover have "map JStr (sort (map fst ?services)) = [JStr ''photos'']" by code_simp
  ultimately show ?thesis by simp
qed

end
