(* ===== verification/V2_Accelerator.thy ===== *)
theory V2_Accelerator
  imports V2_Semantic Common_Policy "HOL-Library.Product_Lexorder"
begin

text \<open>
  Resolution of accelerator requests against the host inventory
  (\<open>services/nas_v2_accelerator.py\<close>). A GPU appears in the inventory as device nodes and as a CDI
  name; the resolver chooses the representation that the runtime can use and counts physical
  GPUs, not representations. The digits of a device name are those of ASCII.
\<close>

section \<open>Selectors\<close>

definition accelerator_error :: "string \<Rightarrow> exn" where
  "accelerator_error m = RuntimeError m"

datatype selector = SelCdi string | SelDevices "string list"

definition alnum :: "char \<Rightarrow> bool" where
  "alnum c \<longleftrightarrow> is_lower c \<or> is_upper c \<or> is_digit c"

definition cdi_word :: "char list \<Rightarrow> string \<Rightarrow> bool" where
  "cdi_word extra s = (case s of [] \<Rightarrow> False | c # cs \<Rightarrow> alnum c \<and> list_all (\<lambda>d. alnum d \<or> d \<in> set extra) cs)"

text \<open>The text before the first \<open>c\<close> and the text after it, \<open>None\<close> when it does not occur.\<close>

definition cut_at :: "char \<Rightarrow> string \<Rightarrow> (string \<times> string) option" where
  "cut_at c s = (let a = takeWhile (\<lambda>x. x \<noteq> c) s in case drop (length a) s of [] \<Rightarrow> None | _ # b \<Rightarrow> Some (a, b))"

definition is_cdi_selector :: "string \<Rightarrow> bool" where
  "is_cdi_selector s =
     (case cut_at (CHR ''/'') s of
        None \<Rightarrow> False
      | Some (vendor, rest) \<Rightarrow>
          (case cut_at (CHR ''='') rest of
             None \<Rightarrow> False
           | Some (klass, name) \<Rightarrow> cdi_word ''_.-'' vendor \<and> cdi_word ''_.-'' klass \<and> cdi_word ''_.:-'' name))"

definition hex_or_dash :: "char \<Rightarrow> bool" where
  "hex_or_dash c \<longleftrightarrow> is_digit c \<or> 97 \<le> code c \<and> code c \<le> 102 \<or> 65 \<le> code c \<and> code c \<le> 70 \<or> c = CHR ''-''"

definition nvidia_prefix :: string where
  "nvidia_prefix = ''nvidia.com/gpu=GPU-''"

definition nvidia_uuid_cdi :: "string \<Rightarrow> bool" where
  "nvidia_uuid_cdi s \<longleftrightarrow> starts_with s nvidia_prefix \<and> drop (length nvidia_prefix) s \<noteq> [] \<and>
     list_all hex_or_dash (drop (length nvidia_prefix) s)"

definition dev_path :: "json \<Rightarrow> string option" where
  "dev_path v =
     (case v of
        JStr raw \<Rightarrow> (let p = pure_path raw in
          if is_absolute p \<and> ''..'' \<notin> set (path_tail p) \<and> starts_with (path_str p) ''/dev/'' then Some (path_str p) else None)
      | _ \<Rightarrow> None)"

fun dev_paths :: "json list \<Rightarrow> string list \<Rightarrow> string list option" where
  "dev_paths [] devs = Some devs"
| "dev_paths (v # vs) devs =
     (case dev_path v of None \<Rightarrow> None | Some s \<Rightarrow> dev_paths vs (if s \<in> set devs then devs else devs @ [s]))"

definition parse_selector :: "json \<Rightarrow> selector option" where
  "parse_selector v =
     (let kind = soft_get v ''type''; raw = soft_get v ''value'' in
      if kind = JStr ''devices'' then
        (case soft_get v ''values'' of
           JList vals \<Rightarrow> if vals = [] then None else map_option SelDevices (dev_paths vals [])
         | _ \<Rightarrow> None)
      else if kind = JStr ''device'' \<and> is_str raw then map_option (\<lambda>s. SelDevices [s]) (dev_path raw)
      else (case raw of
          JStr s \<Rightarrow> if kind = JStr ''cdi'' \<and> is_cdi_selector s then Some (SelCdi s) else None
        | _ \<Rightarrow> None))"

fun selector_type :: "selector \<Rightarrow> string" where
  "selector_type (SelCdi _) = ''cdi''"
| "selector_type (SelDevices _) = ''devices''"

definition runtime_selector_preference :: "string \<Rightarrow> string list" where
  "runtime_selector_preference rt =
     (if rt \<in> {''compose'', ''oci'', ''quadlet''} then [''cdi'', ''devices'']
      else if rt \<in> {''systemd'', ''exec'', ''python'', ''session-oci''} then [''devices''] else [])"

section \<open>The inventory\<close>

definition load_platform_inventory :: "json option \<Rightarrow> json res" where
  "load_platform_inventory contents =
     (case contents of
        None \<Rightarrow> Inl (accelerator_error ''unable to read platform inventory'')
      | Some v \<Rightarrow>
          if \<not> is_obj v \<or> \<not> eq_int (soft_get v ''schemaVersion'') 1 then Inl (accelerator_error ''schemaVersion 1 object'')
          else if \<not> is_obj (soft_get v ''capabilities'') then Inl (accelerator_error ''capabilities'')
          else and_then (get_or v ''accelerators'' JEmpty) (\<lambda>a.
            if is_obj a then Inr v else Inl (accelerator_error ''accelerators'')))"

definition enabled_capabilities :: "json \<Rightarrow> string set res" where
  "enabled_capabilities inventory =
     and_then (get_or inventory ''capabilities'' JEmpty) (\<lambda>caps.
     and_then (expect_obj (accelerator_error ''capabilities'') caps) (\<lambda>d.
     Inr (set (map fst (filter (\<lambda>(k, v). v = JBool True) d)))))"

definition minor_entry :: "string \<times> json \<Rightarrow> (string, string) dict \<Rightarrow> (string, string) dict" where
  "minor_entry = (\<lambda>(uuid, minor) m.
     case minor of JInt n \<Rightarrow> if 0 \<le> n \<and> n \<le> 254 then dict_set uuid (int_str n) m else m | _ \<Rightarrow> m)"

definition minor_by_uuid :: "json \<Rightarrow> (string, string) dict" where
  "minor_by_uuid vendor =
     (case soft_get vendor ''minorByUuid'' of JObj d \<Rightarrow> fold minor_entry d [] | _ \<Rightarrow> [])"

definition after_equals :: "string \<Rightarrow> string" where
  "after_equals s = (case cut_at (CHR ''='') s of None \<Rightarrow> [] | Some (_, b) \<Rightarrow> b)"

definition before_equals :: "string \<Rightarrow> string" where
  "before_equals s = takeWhile (\<lambda>x. x \<noteq> CHR ''='') s"

definition require_uuid_mapping :: "(string, string) dict \<Rightarrow> selector \<Rightarrow> unit res" where
  "require_uuid_mapping minors sel =
     (case sel of
        SelCdi v \<Rightarrow> if nvidia_uuid_cdi v \<and> dict_get minors (after_equals v) = None
          then Inl (accelerator_error ''no minorByUuid entry'') else Inr ()
      | SelDevices _ \<Rightarrow> Inr ())"

text \<open>\<open>[A-Za-z0-9][A-Za-z0-9_.-]*/gpu=(\d+)\<close> and \<open>/dev/(nvidia\d+)\<close>: the number, if the text matches.\<close>

definition gpu_number :: "string \<Rightarrow> string option" where
  "gpu_number v =
     (case cut_at (CHR ''/'') v of
        None \<Rightarrow> None
      | Some (vendor, rest) \<Rightarrow>
          if cdi_word ''_.-'' vendor \<and> starts_with rest ''gpu='' \<and> drop 4 rest \<noteq> [] \<and> list_all is_digit (drop 4 rest)
          then Some (drop 4 rest) else None)"

definition nvidia_number :: "string \<Rightarrow> string option" where
  "nvidia_number path =
     (if starts_with path ''/dev/nvidia'' \<and> drop 11 path \<noteq> [] \<and> list_all is_digit (drop 11 path)
      then Some (drop 11 path) else None)"

fun first_number :: "string list \<Rightarrow> string option" where
  "first_number [] = None"
| "first_number (p # ps) = (case nvidia_number p of Some n \<Rightarrow> Some n | None \<Rightarrow> first_number ps)"

definition physical_identity :: "(string, string) dict \<Rightarrow> selector \<Rightarrow> string" where
  "physical_identity minors sel =
     (case sel of
        SelCdi v \<Rightarrow>
          (case gpu_number v of
             Some n \<Rightarrow> ''gpu:'' @ n
           | None \<Rightarrow>
               (case dict_get minors (after_equals v) of
                  Some n \<Rightarrow> if before_equals v = ''nvidia.com/gpu'' then ''gpu:'' @ n else ''cdi:'' @ v
                | None \<Rightarrow> ''cdi:'' @ v))
      | SelDevices paths \<Rightarrow>
          (case first_number paths of Some n \<Rightarrow> ''gpu:'' @ n | None \<Rightarrow> ''devices:'' @ py_join [CHR 0x00] paths))"

section \<open>Choosing selectors\<close>

definition vendor_order :: "string list" where
  "vendor_order = [''NVIDIA'', ''AMD'', ''Intel'']"

definition add_selector :: "string list \<Rightarrow> json \<Rightarrow> selector list \<Rightarrow> selector list" where
  "add_selector pref v parsed =
     (case parse_selector v of
        None \<Rightarrow> parsed
      | Some c \<Rightarrow> if selector_type c \<notin> set pref \<or> c \<in> set parsed then parsed else parsed @ [c])"

fun index_of :: "'a list \<Rightarrow> 'a \<Rightarrow> nat" where
  "index_of [] x = 0"
| "index_of (y # ys) x = (if x = y then 0 else Suc (index_of ys x))"

fun selector_text :: "selector \<Rightarrow> string" where
  "selector_text (SelCdi v) = v"
| "selector_text (SelDevices vs) = py_join [CHR 0x00] vs"

definition selector_key :: "string list \<Rightarrow> selector \<Rightarrow> nat \<times> string" where
  "selector_key pref s = (index_of pref (selector_type s), selector_text s)"

definition keep_first :: "(string, string) dict \<Rightarrow> selector \<Rightarrow> selector list \<times> string set \<Rightarrow> selector list \<times> string set" where
  "keep_first minors c = (\<lambda>(sels, seen).
     let i = physical_identity minors c in if i \<in> seen then (sels, seen) else (sels @ [c], insert i seen))"

definition vendor_selectors :: "string list \<Rightarrow> json \<Rightarrow> selector list res" where
  "vendor_selectors pref vendor =
     and_then (get_or vendor ''selectors'' (JList [])) (\<lambda>raw.
     and_then (iter raw) (\<lambda>vs.
     let parsed = sort_key (selector_key pref) (fold (add_selector pref) vs []);
         minors = minor_by_uuid vendor in
     and_then (check_all parsed (require_uuid_mapping minors)) (\<lambda>_.
     Inr (fst (fold (keep_first minors) parsed ([], {}))))))"

definition all_selector :: "string list \<Rightarrow> json \<Rightarrow> selector option" where
  "all_selector pref vendor =
     (case parse_selector (soft_get vendor ''allSelector'') of
        None \<Rightarrow> None
      | Some s \<Rightarrow> if selector_type s \<in> set pref then Some s else None)"

type_synonym choice = "string option \<times> selector list \<times> selector option"

fun try_vendors :: "json \<Rightarrow> string list \<Rightarrow> string list \<Rightarrow> choice res" where
  "try_vendors raw_all pref [] = Inr (None, [], None)"
| "try_vendors raw_all pref (v # vs) =
     (let vendor = soft_get raw_all v in
      if \<not> is_obj vendor then try_vendors raw_all pref vs
      else and_then (vendor_selectors pref vendor) (\<lambda>sels.
        if sels \<noteq> [] then Inr (Some v, sels, all_selector pref vendor) else try_vendors raw_all pref vs))"

definition select_vendor :: "json \<Rightarrow> string \<Rightarrow> string \<Rightarrow> choice res" where
  "select_vendor inventory requested rt =
     and_then (get_or inventory ''accelerators'' JEmpty) (\<lambda>raw_all.
     try_vendors raw_all (runtime_selector_preference rt) (if requested = ''any'' then vendor_order else [requested]))"

section \<open>Resolving requests\<close>

fun selector_json :: "selector \<Rightarrow> json" where
  "selector_json (SelCdi v) = JObj [(''type'', JStr ''cdi''), (''value'', JStr v)]"
| "selector_json (SelDevices vs) = JObj [(''type'', JStr ''devices''), (''values'', JList (map JStr vs))]"

text \<open>\<open>xs[:n]\<close>, where a negative \<open>n\<close> counts from the back.\<close>

definition slice_to :: "int \<Rightarrow> 'a list \<Rightarrow> 'a list" where
  "slice_to n xs = take (nat (if n < 0 then int (length xs) + n else n)) xs"

definition explicit_selector :: "string \<Rightarrow> selector option" where
  "explicit_selector dev =
     (if starts_with dev ''/dev/'' then parse_selector (JObj [(''type'', JStr ''device''), (''value'', JStr dev)])
      else if is_cdi_selector dev then parse_selector (JObj [(''type'', JStr ''cdi''), (''value'', JStr dev)])
      else None)"

definition explicit_choice :: "string \<Rightarrow> json \<Rightarrow> json \<Rightarrow> string \<Rightarrow> (json \<times> selector list) res" where
  "explicit_choice rt req qty dev =
     (if \<not> eq_int qty 1 then Inl (accelerator_error ''explicit device must use quantity=1'')
      else case explicit_selector dev of
        None \<Rightarrow> Inl (accelerator_error ''invalid shared GPU device selector'')
      | Some s \<Rightarrow>
          if selector_type s \<notin> set (runtime_selector_preference rt)
          then Inl (accelerator_error ''runtime cannot faithfully lower selector'')
          else and_then (get_or req ''vendor'' (JStr ''any'')) (\<lambda>vendor. Inr (vendor, [s])))"

fun opt_str :: "string option \<Rightarrow> json" where
  "opt_str None = JNull"
| "opt_str (Some s) = JStr s"

definition counted_choice :: "json \<Rightarrow> string \<Rightarrow> json \<Rightarrow> json \<Rightarrow> (json \<times> selector list) res" where
  "counted_choice inventory rt req qty =
     and_then (get_or req ''vendor'' (JStr ''any'')) (\<lambda>requested.
     and_then (select_vendor inventory (py_str requested) rt) (\<lambda>(vendor, sels, all_sel).
     if qty = JStr ''all'' then Inr (opt_str vendor, case all_sel of None \<Rightarrow> sels | Some a \<Rightarrow> [a])
     else case qty of
       JInt n \<Rightarrow> Inr (opt_str vendor, slice_to n sels)
     | _ \<Rightarrow> Inl (accelerator_error ''invalid quantity'')))"

definition enough :: "json \<Rightarrow> selector list \<Rightarrow> bool" where
  "enough qty sels =
     (if qty = JStr ''all'' then sels \<noteq> []
      else case as_int qty of Inl _ \<Rightarrow> False | Inr n \<Rightarrow> n \<le> int (length sels))"

definition grant_request :: "json \<Rightarrow> json \<Rightarrow> selector list \<Rightarrow> json res" where
  "grant_request req vendor sels =
     and_then (get_or req ''vendor'' (JStr ''any'')) (\<lambda>requested.
     and_then (get_or req ''required'' (JBool False)) (\<lambda>required.
     and_then (has_key req ''target'') (\<lambda>targeted.
     and_then (get req ''target'') (\<lambda>target.
     Inr (JObj ([(''kind'', JStr ''gpu''), (''vendor'', if truthy vendor then vendor else requested),
       (''required'', JBool (truthy required)), (''mode'', JStr ''shared''),
       (''selectors'', JList (map selector_json sels))] @ (if targeted then [(''target'', target)] else [])))))))"

definition resolve_request :: "json \<Rightarrow> string \<Rightarrow> string \<Rightarrow> json \<Rightarrow> json option res" where
  "resolve_request inventory rt_type sel_rt req =
     (if \<not> is_obj req \<or> soft_get req ''kind'' \<noteq> JStr ''gpu'' then Inl (accelerator_error ''accelerator is invalid'')
      else if rt_type = ''vm'' then Inr (Some req)
      else and_then (get_or req ''mode'' (JStr ''shared'')) (\<lambda>mode.
        if mode \<noteq> JStr ''shared'' then Inl (accelerator_error ''passthrough is valid only for VM runtimes'')
        else and_then (get_or req ''quantity'' (JInt 1)) (\<lambda>qty.
          and_then (case soft_get req ''device'' of
              JStr dev \<Rightarrow> explicit_choice sel_rt req qty dev
            | _ \<Rightarrow> counted_choice inventory sel_rt req qty) (\<lambda>(vendor, sels).
          if \<not> enough qty sels then
            and_then (get_or req ''required'' (JBool False)) (\<lambda>required.
              if truthy required then Inl (accelerator_error ''requires unavailable GPU request'') else Inr None)
          else and_then (grant_request req vendor sels) (\<lambda>r. Inr (Some r))))))"

definition selection_runtime :: "json \<Rightarrow> string \<Rightarrow> string res" where
  "selection_runtime service rt_type =
     (if rt_type = ''oci'' then
        and_then (get_or service ''workload'' JEmpty) (\<lambda>w.
        and_then (get w ''kind'') (\<lambda>k. Inr (if k = JStr ''session'' then ''session-oci'' else rt_type)))
      else Inr rt_type)"

definition resolve_service_accelerators :: "json \<Rightarrow> json \<Rightarrow> json list res" where
  "resolve_service_accelerators service inventory =
     and_then (get_or service ''runtime'' JEmpty) (\<lambda>rt.
     and_then (expect_str (accelerator_error ''missing its runtime type'') (soft_get rt ''type'')) (\<lambda>rt_type.
     and_then (selection_runtime service rt_type) (\<lambda>sel_rt.
     and_then (get_or service ''resources'' JEmpty) (\<lambda>resources.
     and_then (get_or resources ''accelerators'' (JList [])) (\<lambda>raw.
     and_then (iter raw) (\<lambda>reqs.
     and_then (map_res (resolve_request inventory rt_type sel_rt) reqs) (\<lambda>rs.
     Inr (map the (filter (\<lambda>r. r \<noteq> None) rs)))))))))"

section \<open>The effective state\<close>

definition selector_values :: "json \<Rightarrow> json list res" where
  "selector_values sel =
     and_then (item sel ''type'') (\<lambda>t.
       if t = JStr ''cdi'' then and_then (item sel ''value'') (\<lambda>v. Inr [v])
       else and_then (item sel ''values'') iter)"

definition device_grant :: "json \<Rightarrow> json_dict \<Rightarrow> json \<Rightarrow> json" where
  "device_grant vendor extra v =
     JObj ([(''kind'', JStr ''gpu''), (''vendor'', vendor), (''quantity'', JInt 1), (''required'', JBool True),
       (''mode'', JStr ''shared''), (''device'', v)] @ extra)"

definition materialise :: "json \<Rightarrow> json list res" where
  "materialise req =
     and_then (get req ''mode'') (\<lambda>mode.
     if mode = JStr ''passthrough'' then Inr [req]
     else
       and_then (has_key req ''target'') (\<lambda>targeted.
       and_then (get req ''target'') (\<lambda>target.
       and_then (get_or req ''vendor'' (JStr ''any'')) (\<lambda>vendor.
       and_then (get_or req ''selectors'' (JList [])) (\<lambda>raw.
       and_then (iter raw) (\<lambda>sels.
       and_then (map_res selector_values sels) (\<lambda>vals.
       Inr (map (device_grant vendor (if targeted then [(''target'', target)] else [])) (concat vals)))))))))"

definition resolve_one :: "json \<Rightarrow> string \<Rightarrow> json_dict \<times> json_dict \<Rightarrow> (json_dict \<times> json_dict) res" where
  "resolve_one inventory sid = (\<lambda>(svcs, resolved).
     and_then (item (JObj svcs) sid) (\<lambda>svc.
     if \<not> is_obj svc then Inl (accelerator_error ''compiled service is invalid'')
     else
       and_then (resolve_service_accelerators svc inventory) (\<lambda>rs.
       and_then (expect_obj (accelerator_error ''compiled service has invalid resources'') (soft_get svc ''resources'')) (\<lambda>resources.
       and_then (map_res materialise rs) (\<lambda>mats.
       and_then (set_item ''resources'' (JObj (dict_set ''accelerators'' (JList (concat mats)) resources)) svc) (\<lambda>svc'.
       Inr (dict_set sid svc' svcs, dict_set sid (JList rs) resolved)))))))"

definition resolve_effective :: "json \<Rightarrow> json \<Rightarrow> json res" where
  "resolve_effective effective inventory =
     and_then (get effective ''services'') (\<lambda>services.
     and_then (expect_obj (accelerator_error ''missing services'') services) (\<lambda>svcs.
     and_then (setdefault ''derived'' JEmpty effective) (\<lambda>result.
     and_then (expect_obj (accelerator_error ''invalid derived metadata'') (soft_get result ''derived'')) (\<lambda>derived.
     and_then (for_each (sort (map fst svcs)) (resolve_one inventory) (svcs, [])) (\<lambda>(svcs', resolved).
     and_then (set_item ''services'' (JObj svcs') result) (\<lambda>result'.
     set_item ''derived'' (JObj (dict_set ''accelerators'' (JObj resolved) derived)) result'))))))"

section \<open>Physical GPUs are counted once\<close>

lemma keep_first_distinct:
  assumes "distinct (map (physical_identity m) sels)" "seen = physical_identity m ` set sels"
  shows "distinct (map (physical_identity m) (fst (fold (keep_first m) cs (sels, seen))))"
  using assms
proof (induction cs arbitrary: sels seen)
  case (Cons c cs)
  show ?case
  proof (cases "physical_identity m c \<in> seen")
    case True
    then show ?thesis using Cons by (simp add: keep_first_def)
  next
    case False
    then show ?thesis
      using Cons.IH [of "sels @ [c]" "insert (physical_identity m c) seen"] Cons.prems by (simp add: keep_first_def)
  qed
qed simp

lemma keep_first_subset:
  "set (fst (fold (keep_first m) cs (sels, seen))) \<subseteq> set cs \<union> set sels"
proof (induction cs arbitrary: sels seen)
  case (Cons c cs)
  show ?case
    using Cons.IH [of sels seen] Cons.IH [of "sels @ [c]" "insert (physical_identity m c) seen"]
    by (auto simp: keep_first_def Let_def)
qed simp

definition lowerable :: "string list \<Rightarrow> selector \<Rightarrow> bool" where
  "lowerable pref s \<longleftrightarrow> selector_type s \<in> set pref \<and> (\<exists>v. parse_selector v = Some s)"

lemma add_selector_lowerable:
  "list_all (lowerable pref) parsed \<Longrightarrow> list_all (lowerable pref) (fold (add_selector pref) vs parsed)"
proof (induction vs arbitrary: parsed)
  case (Cons v vs)
  have "list_all (lowerable pref) (add_selector pref v parsed)"
    using Cons.prems by (auto simp: add_selector_def lowerable_def list_all_iff split: option.splits)
  then show ?case using Cons.IH by simp
qed simp

lemma vendor_selectors_ok:
  assumes "vendor_selectors pref vendor = Inr sels"
  shows "distinct (map (physical_identity (minor_by_uuid vendor)) sels)" "list_all (lowerable pref) sels"
proof -
  obtain vs where sels: "sels = fst (fold (keep_first (minor_by_uuid vendor))
      (sort_key (selector_key pref) (fold (add_selector pref) vs [])) ([], {}))"
    using assms by (auto simp: vendor_selectors_def res_simps Let_def)
  show "distinct (map (physical_identity (minor_by_uuid vendor)) sels)"
    unfolding sels by (rule keep_first_distinct) simp_all
  have "set sels \<subseteq> set (fold (add_selector pref) vs [])"
    unfolding sels using keep_first_subset by fastforce
  then show "list_all (lowerable pref) sels"
    using add_selector_lowerable [of pref "[]" vs] by (auto simp: list_all_iff)
qed

text \<open>The vendors whose entries the inventory holds, with the identities their tables give.\<close>

definition distinct_gpus :: "json \<Rightarrow> selector list \<Rightarrow> bool" where
  "distinct_gpus inventory sels \<longleftrightarrow> sels = [] \<or>
     (\<exists>vendor. distinct (map (physical_identity (minor_by_uuid (soft_get (soft_get inventory ''accelerators'') vendor))) sels))"

lemma try_vendors_ok:
  assumes "try_vendors raw pref vs = Inr (v, sels, a)"
  shows "sels = [] \<or> (\<exists>w \<in> set vs. v = Some w \<and> distinct (map (physical_identity (minor_by_uuid (soft_get raw w))) sels))"
    and "list_all (lowerable pref) sels"
  using assms vendor_selectors_ok
  by (induction vs) (auto simp: res_simps Let_def split: if_splits)

lemma all_selector_lowerable: "all_selector pref vendor = Some a \<Longrightarrow> lowerable pref a"
  by (auto simp: all_selector_def lowerable_def split: option.splits if_splits)

lemma try_vendors_all:
  "try_vendors raw pref vs = Inr (v, sels, Some a) \<Longrightarrow> lowerable pref a"
  by (induction vs) (auto simp: res_simps Let_def all_selector_lowerable split: if_splits)

lemma select_vendor_ok:
  assumes "select_vendor inventory requested rt = Inr (v, sels, a)"
  shows "distinct_gpus inventory sels" "list_all (lowerable (runtime_selector_preference rt)) sels"
    "a = Some b \<Longrightarrow> lowerable (runtime_selector_preference rt) b"
proof -
  obtain raw vs where raw: "get_or inventory ''accelerators'' JEmpty = Inr raw"
    and found: "try_vendors raw (runtime_selector_preference rt) vs = Inr (v, sels, a)"
    using assms by (auto simp: select_vendor_def res_simps)
  show "distinct_gpus inventory sels"
  proof (cases "raw = JEmpty")
    case True
    have "try_vendors JEmpty p ws = Inr (None, [], None)" for p ws
      by (induction ws) (simp_all add: soft_get_def Let_def)
    then show ?thesis using found True by (auto simp: distinct_gpus_def)
  next
    case False
    then have "soft_get inventory ''accelerators'' = raw"
      using raw by (cases inventory) (auto simp: soft_get_def split: option.splits)
    then show ?thesis using try_vendors_ok(1) [OF found] by (auto simp: distinct_gpus_def)
  qed
  show "list_all (lowerable (runtime_selector_preference rt)) sels" by (rule try_vendors_ok(2) [OF found])
  show "a = Some b \<Longrightarrow> lowerable (runtime_selector_preference rt) b" using try_vendors_all found by auto
qed

section \<open>What a request is granted\<close>

fun selector_safe :: "selector \<Rightarrow> bool" where
  "selector_safe (SelCdi v) = is_cdi_selector v"
| "selector_safe (SelDevices vs) = list_all (\<lambda>p. dev_path (JStr p) = Some p) vs"

lemma dev_path_canonical: "dev_path v = Some p \<Longrightarrow> dev_path (JStr p) = Some p"
  by (auto simp: dev_path_def Let_def pure_path_str split: json.splits if_splits)

lemma dev_paths_canonical:
  "dev_paths vs devs = Some ps \<Longrightarrow> list_all (\<lambda>p. dev_path (JStr p) = Some p) devs \<Longrightarrow>
   list_all (\<lambda>p. dev_path (JStr p) = Some p) ps"
proof (induction vs arbitrary: devs)
  case (Cons v vs)
  then obtain s where "dev_path v = Some s" by (auto split: option.splits)
  then show ?case using Cons dev_path_canonical [of v s] by (auto split: if_splits)
qed simp

lemma parse_selector_safe: "parse_selector v = Some s \<Longrightarrow> selector_safe s"
  by (auto simp: parse_selector_def Let_def dest: dev_path_canonical dev_paths_canonical [of _ "[]", simplified]
      split: json.splits if_splits)

lemma lowerable_safe: "lowerable pref s \<Longrightarrow> selector_safe s"
  by (auto simp: lowerable_def intro: parse_selector_safe)

lemma slice_to_take: "0 \<le> n \<Longrightarrow> slice_to n xs = take (nat n) xs"
  by (simp add: slice_to_def)

lemma set_slice_to: "set (slice_to n xs) \<subseteq> set xs"
  by (simp add: slice_to_def set_take_subset)

lemma distinct_gpus_take: "distinct_gpus inventory xs \<Longrightarrow> distinct_gpus inventory (take n xs)"
proof -
  have "distinct (map f xs) \<Longrightarrow> distinct (map f (take n xs))" for f :: "selector \<Rightarrow> string"
    by (simp add: take_map [symmetric] distinct_take)
  then show "distinct_gpus inventory xs \<Longrightarrow> distinct_gpus inventory (take n xs)"
    unfolding distinct_gpus_def by fastforce
qed

lemma explicit_choice_ok:
  "explicit_choice rt req qty dev = Inr (vendor, sels) \<Longrightarrow> list_all (lowerable (runtime_selector_preference rt)) sels"
  by (auto simp: explicit_choice_def explicit_selector_def res_simps lowerable_def split: option.splits if_splits)

lemma counted_choice_ok:
  assumes "counted_choice inventory rt req qty = Inr (vendor, sels)"
  shows "list_all (lowerable (runtime_selector_preference rt)) sels"
    and "qty = JInt n \<Longrightarrow> 0 \<le> n \<Longrightarrow> distinct_gpus inventory sels \<and> length sels \<le> nat n"
proof -
  obtain requested v xs a where c: "select_vendor inventory requested rt = Inr (v, xs, a)"
    and sels: "sels = (if qty = JStr ''all'' then case a of None \<Rightarrow> xs | Some b \<Rightarrow> [b]
      else case qty of JInt n \<Rightarrow> slice_to n xs | _ \<Rightarrow> [])"
    using assms by (auto simp: counted_choice_def res_simps split: if_splits json.splits)
  note ok = select_vendor_ok [OF c]
  show "list_all (lowerable (runtime_selector_preference rt)) sels"
    using ok(2,3) set_slice_to [of _ xs]
    by (auto simp: sels list_all_iff split: option.splits json.splits)
  show "distinct_gpus inventory sels \<and> length sels \<le> nat n" if "qty = JInt n" "0 \<le> n"
    using ok(1) that distinct_gpus_take [of inventory xs "nat n"] by (simp add: sels slice_to_take)
qed

lemma resolve_request_granted:
  assumes "resolve_request inventory rt sel_rt req = Inr (Some r)" and "rt \<noteq> ''vm''"
  obtains qty vendor sels where "get_or req ''quantity'' (JInt 1) = Inr qty" "enough qty sels"
    "grant_request req vendor sels = Inr r"
    "(case soft_get req ''device'' of JStr dev \<Rightarrow> explicit_choice sel_rt req qty dev
      | _ \<Rightarrow> counted_choice inventory sel_rt req qty) = Inr (vendor, sels)"
  using assms by (auto simp: resolve_request_def res_simps split: if_splits)

lemma granted_selectors:
  "grant_request req vendor sels = Inr r \<Longrightarrow> soft_get r ''selectors'' = JList (map selector_json sels) \<and>
     soft_get r ''mode'' = JStr ''shared'' \<and> is_obj r"
  by (auto simp: grant_request_def res_simps soft_get_def)

lemma resolve_request_lowerable:
  assumes "resolve_request inventory rt sel_rt req = Inr (Some r)" and "rt \<noteq> ''vm''"
  obtains sels where "soft_get r ''selectors'' = JList (map selector_json sels)" "soft_get r ''mode'' = JStr ''shared''"
    "is_obj r" "list_all (lowerable (runtime_selector_preference sel_rt)) sels"
proof -
  obtain qty vendor sels where g: "grant_request req vendor sels = Inr r"
    and c: "(case soft_get req ''device'' of JStr dev \<Rightarrow> explicit_choice sel_rt req qty dev
      | _ \<Rightarrow> counted_choice inventory sel_rt req qty) = Inr (vendor, sels)"
    using resolve_request_granted [OF assms] .
  have "list_all (lowerable (runtime_selector_preference sel_rt)) sels"
    using c by (cases "soft_get req ''device''") (auto dest: explicit_choice_ok counted_choice_ok(1))
  then show thesis using that granted_selectors [OF g] by blast
qed



section \<open>The devices of the effective state\<close>

definition device_granted :: "json \<Rightarrow> bool" where
  "device_granted m = (case soft_get m ''device'' of JStr s \<Rightarrow> dev_path (JStr s) = Some s \<or> is_cdi_selector s | _ \<Rightarrow> False)"

definition accelerators_granted :: "json \<Rightarrow> bool" where
  "accelerators_granted svc =
     (soft_get (soft_get svc ''runtime'') ''type'' = JStr ''vm'' \<or>
      (case soft_get (soft_get svc ''resources'') ''accelerators'' of JList ms \<Rightarrow> list_all device_granted ms | _ \<Rightarrow> False))"

lemma selector_values_json:
  "selector_safe s \<Longrightarrow> selector_values (selector_json s) = Inr vs \<Longrightarrow>
     list_all (\<lambda>v. device_granted (device_grant vendor extra v)) vs"
  by (cases s) (auto simp: selector_values_def res_simps device_granted_def device_grant_def soft_get_def list_all_iff)

lemma list_all_concat_res:
  assumes "map_res f xs = Inr ys" and "\<And>x y. x \<in> set xs \<Longrightarrow> f x = Inr y \<Longrightarrow> list_all P y"
  shows "list_all P (concat ys)"
  using assms
proof (induction xs arbitrary: ys)
  case (Cons x xs)
  then obtain z zs where z: "f x = Inr z" "map_res f xs = Inr zs" "ys = z # zs" by (auto simp: res_simps)
  then show ?case using Cons.IH [OF z(2)] Cons.prems(2) by auto
qed simp

lemma materialise_granted:
  assumes sels: "soft_get r ''selectors'' = JList (map selector_json sels)" and mode: "soft_get r ''mode'' = JStr ''shared''"
    and safe: "list_all selector_safe sels" and m: "materialise r = Inr ms"
  shows "list_all device_granted ms"
proof -
  obtain d where r: "r = JObj d" using mode by (cases r) (auto simp: soft_get_def)
  have get: "get_or r ''selectors'' x = Inr (JList (map selector_json sels))" for x
    using sels by (auto simp: r soft_get_def split: option.splits)
  have "get r ''mode'' = Inr (JStr ''shared'')" using mode by (auto simp: r soft_get_def split: option.splits)
  with m get obtain vendor extra vals where vals: "map_res selector_values (map selector_json sels) = Inr vals"
    and ms: "ms = map (device_grant vendor extra) (concat vals)"
    by (auto simp: materialise_def res_simps)
  have "list_all (\<lambda>v. device_granted (device_grant vendor extra v)) (concat vals)"
    using vals by (rule list_all_concat_res) (use safe in \<open>auto simp: list_all_iff intro: selector_values_json [unfolded list_all_iff, rule_format]\<close>)
  then show ?thesis by (simp add: ms list_all_iff)
qed

lemma get_or_soft_type: "get_or v k JEmpty = Inr w \<Longrightarrow> soft_get w l = soft_get (soft_get v k) l"
  by (cases v) (auto simp: soft_get_def split: option.splits)

lemma resolve_service_materialised:
  assumes rs: "resolve_service_accelerators svc inventory = Inr rs"
    and rt: "soft_get (soft_get svc ''runtime'') ''type'' \<noteq> JStr ''vm''" and ms: "map_res materialise rs = Inr mats"
  shows "list_all device_granted (concat mats)"
proof -
  obtain rt_type sel_rt reqs os where t: "soft_get (soft_get svc ''runtime'') ''type'' = JStr rt_type"
    and os: "map_res (resolve_request inventory rt_type sel_rt) reqs = Inr os"
    and r: "rs = map the (filter (\<lambda>r. r \<noteq> None) os)"
    using rs unfolding resolve_service_accelerators_def and_then_Inr_iff expect_Inr_iff
    by (auto simp del: not_None_eq dest!: get_or_soft_type [where l = "''type''", symmetric] intro: that)
  show ?thesis using ms
  proof (rule list_all_concat_res)
    fix x y assume x: "x \<in> set rs" and y: "materialise x = Inr y"
    obtain req where req: "resolve_request inventory rt_type sel_rt req = Inr (Some x)"
      using x map_res_member [OF os, of "Some x"] by (auto simp: r)
    have "rt_type \<noteq> ''vm''" using rt t by auto
    then obtain sels where s: "soft_get x ''selectors'' = JList (map selector_json sels)" "soft_get x ''mode'' = JStr ''shared''"
      and l: "list_all (lowerable (runtime_selector_preference sel_rt)) sels"
      by (rule resolve_request_lowerable [OF req])
    have "list_all selector_safe sels" using l lowerable_safe by (auto simp: list_all_iff)
    then show "list_all device_granted y" using materialise_granted s y by blast
  qed
qed

lemma resolve_one_granted:
  assumes "resolve_one inventory sid (svcs, rs) = Inr (svcs', rs')"
  shows "\<And>x. x \<noteq> sid \<Longrightarrow> dict_get svcs' x = dict_get svcs x"
    and "\<exists>svc. dict_get svcs sid \<noteq> None \<and> dict_get svcs' sid = Some svc \<and> accelerators_granted svc"
proof -
  obtain d res ls mats where svc: "dict_get svcs sid = Some (JObj d)"
    and ls: "resolve_service_accelerators (JObj d) inventory = Inr ls" and mats: "map_res materialise ls = Inr mats"
    and svcs': "svcs' = dict_set sid (JObj (dict_set ''resources'' (JObj (dict_set ''accelerators'' (JList (concat mats)) res)) d)) svcs"
    using assms by (auto simp: resolve_one_def res_simps split: if_splits option.splits)
  show "\<And>x. x \<noteq> sid \<Longrightarrow> dict_get svcs' x = dict_get svcs x" by (simp add: svcs' dict_simps)
  have "accelerators_granted (JObj (dict_set ''resources'' (JObj (dict_set ''accelerators'' (JList (concat mats)) res)) d))"
    using resolve_service_materialised [OF ls _ mats]
    by (auto simp: accelerators_granted_def soft_get_def dict_simps)
  then show "\<exists>svc. dict_get svcs sid \<noteq> None \<and> dict_get svcs' sid = Some svc \<and> accelerators_granted svc"
    by (simp add: svcs' dict_simps svc)
qed

lemma resolve_all_granted:
  assumes "for_each sids (resolve_one inventory) (svcs, rs) = Inr (svcs', rs')"
    and "dict_get svcs' x = Some svc"
  shows "dict_get svcs x \<noteq> None \<and> (x \<in> set sids \<or> dict_get svcs x = Some svc) \<and>
    (x \<in> set sids \<or> accelerators_granted (the (dict_get svcs x)) \<longrightarrow> accelerators_granted svc)"
  using assms
proof (induction sids arbitrary: svcs rs)
  case (Cons sid sids)
  obtain m ms where m: "resolve_one inventory sid (svcs, rs) = Inr (m, ms)"
    and rest: "for_each sids (resolve_one inventory) (m, ms) = Inr (svcs', rs')"
    using Cons.prems(1) by (auto simp: res_simps)
  show ?case
    using Cons.IH [OF rest Cons.prems(2)] resolve_one_granted [OF m] by (cases "x = sid") auto
qed simp

text \<open>
  in the resolved effective state every accelerator of a service that is not a virtual
  machine is one canonical absolute path below \<open>/dev/\<close> without \<open>..\<close>, or one well-formed CDI
  device name: no other text of the inventory or of the request reaches a device list.
\<close>

theorem resolved_devices_confined:
  assumes "resolve_effective effective inventory = Inr out" and "item2 out ''services'' sid = Inr svc"
  shows "accelerators_granted svc"
proof -
  obtain svcs svcs' rs' result derived where loop: "for_each (sort (map fst svcs)) (resolve_one inventory) (svcs, []) = Inr (svcs', rs')"
    and out: "out = JObj (dict_set ''derived'' derived (dict_set ''services'' (JObj svcs') result))"
    using assms(1) by (auto simp: resolve_effective_def res_simps)
  have s: "dict_get svcs' sid = Some svc"
    using assms(2) by (auto simp: out res_simps dict_simps)
  then have "dict_get svcs sid \<noteq> None" using resolve_all_granted [OF loop] by blast
  then have "sid \<in> set (map fst svcs)" by (simp add: map_of_eq_None_iff)
  then show ?thesis using resolve_all_granted [OF loop s] by simp
qed

theorem resolved_devices_confined_witness:
  "\<exists>out svc. resolve_effective
      (JObj [(''services'', JObj [(''x'', JObj [(''runtime'', JObj [(''type'', JStr ''exec'')]),
         (''resources'', JObj [(''accelerators'', JList [JObj [(''kind'', JStr ''gpu''), (''device'', JStr ''/dev//dri/r'')]])])])])])
      (JObj []) = Inr out \<and> item2 out ''services'' ''x'' = Inr svc \<and> accelerators_granted svc"
proof -
  let ?out = "resolve_effective
      (JObj [(''services'', JObj [(''x'', JObj [(''runtime'', JObj [(''type'', JStr ''exec'')]),
         (''resources'', JObj [(''accelerators'', JList [JObj [(''kind'', JStr ''gpu''), (''device'', JStr ''/dev//dri/r'')]])])])])])
      (JObj [])"
  have o: "\<not> isl ?out" by code_simp
  have s: "\<not> isl (item2 (projr ?out) ''services'' ''x'')" by code_simp
  show ?thesis
    using resolved_devices_confined [OF right_result [OF o] right_result [OF s]] right_result [OF o] right_result [OF s] by blast
qed

end
