(* ===== verification/V2_Network.thy ===== *)
theory V2_Network
  imports Py_Json Common_Policy "HOL-Library.Product_Lexorder"
begin

text \<open>
  The network compiler (\<open>services/nas_v2_network.py\<close>): the policy of a service, its VLAN binding,
  the Podman network it runs in, and the projection of all services to firewalld zones and
  policies. \<open>sha256\<close> stands for the hexadecimal digest of \<open>hashlib\<close>; \<open>ip_network\<close> for
  \<open>ipaddress.ip_network(raw, strict=False)\<close>, which yields the version and the text of a network,
  or nothing where it raises. The ports of \<open>allowedHostPorts\<close> are integers, as the schema of a
  document requires; another element is a \<open>TypeError\<close> here.
\<close>

section \<open>Names\<close>

type_synonym digest = "string \<Rightarrow> string"

definition podman_error :: "string \<Rightarrow> exn" where
  "podman_error m = RuntimeError m"

definition firewalld_error :: "string \<Rightarrow> exn" where
  "firewalld_error m = RuntimeError m"

text \<open>\<open>d.get(k, default)\<close> on a value known to be a dictionary.\<close>

definition dget :: "json_dict \<Rightarrow> string \<Rightarrow> json \<Rightarrow> json" where
  "dget d k dflt = (case dict_get d k of None \<Rightarrow> dflt | Some v \<Rightarrow> v)"

abbreviation flag :: "json_dict \<Rightarrow> string \<Rightarrow> bool" where
  "flag d k \<equiv> truthy (dget d k JNull)"

abbreviation flag_on :: "json_dict \<Rightarrow> string \<Rightarrow> bool" where
  "flag_on d k \<equiv> truthy (dget d k (JBool True))"

definition bridge_interface_name :: "digest \<Rightarrow> string \<Rightarrow> string" where
  "bridge_interface_name sha256 sid = ''nv2'' @ take 11 (sha256 sid)"

definition short_digest :: "digest \<Rightarrow> string \<Rightarrow> string" where
  "short_digest sha256 sid = take 12 (sha256 sid)"

definition zone_name :: "digest \<Rightarrow> string \<Rightarrow> string" where
  "zone_name sha256 sid = ''nv2z'' @ short_digest sha256 sid"

definition host_policy_name :: "digest \<Rightarrow> string \<Rightarrow> string" where
  "host_policy_name sha256 sid = ''nv2h'' @ short_digest sha256 sid"

definition lan_policy_name :: "digest \<Rightarrow> string \<Rightarrow> string" where
  "lan_policy_name sha256 sid = ''nv2l'' @ short_digest sha256 sid"

definition world_policy_name :: "digest \<Rightarrow> string \<Rightarrow> string" where
  "world_policy_name sha256 sid = ''nv2w'' @ short_digest sha256 sid"

definition route_policy_name :: "digest \<Rightarrow> string \<Rightarrow> string" where
  "route_policy_name sha256 sid = ''nv2r'' @ short_digest sha256 sid"

definition listener_policy_name :: "digest \<Rightarrow> string \<Rightarrow> string" where
  "listener_policy_name sha256 sid = ''nv2i'' @ short_digest sha256 sid"

definition host_listener_policy_name :: "digest \<Rightarrow> string" where
  "host_listener_policy_name sha256 = listener_policy_name sha256 '':host-listeners''"

definition remote_admin_policy_name :: "digest \<Rightarrow> string" where
  "remote_admin_policy_name sha256 = ''nv2m'' @ short_digest sha256 ''remote-admin''"

section \<open>The policy of a service\<close>

text \<open>\<open>service.get("workload", {}).get("kind") == "session"\<close>.\<close>

definition is_session :: "json_dict \<Rightarrow> bool res" where
  "is_session service = and_then (get (dget service ''workload'' JEmpty) ''kind'') (\<lambda>k. Inr (k = JStr ''session''))"

definition podman_network_name :: "string \<Rightarrow> json_dict \<Rightarrow> string res" where
  "podman_network_name sid service =
     and_then (is_session service) (\<lambda>session. Inr ((if session then ''nas-v2-session-'' else ''nas-v2-'') @ sid))"

definition default_policy :: json_dict where
  "default_policy = [(''mode'', JStr ''host''), (''outboundDefault'', JStr ''allow''), (''lanAccess'', JBool False),
     (''allowedHostPorts'', JList []), (''allowedEgress'', JList [])]"

text \<open>\<open>profiles.get(key)\<close>: a list or a dictionary is no key, another kind of value is never present.\<close>

fun profile_entry :: "json_dict \<Rightarrow> json \<Rightarrow> json res" where
  "profile_entry profiles (JStr k) = Inr (dget profiles k JNull)"
| "profile_entry profiles (JList _) = Inl TypeError"
| "profile_entry profiles (JObj _) = Inl TypeError"
| "profile_entry profiles _ = Inr JNull"

definition network_policy :: "json_dict \<Rightarrow> json_dict \<Rightarrow> json_dict res" where
  "network_policy effective service =
     (case dict_get service ''networkProfile'' of
        Some name \<Rightarrow>
          and_then (case dget effective ''networkProfiles'' JEmpty of
              JObj profiles \<Rightarrow> profile_entry profiles name | _ \<Rightarrow> Inr JNull) (\<lambda>policy.
          expect_obj (podman_error ''compiled network profile is missing'') policy)
      | None \<Rightarrow> Inr (case dget service ''network'' JNull of JObj policy \<Rightarrow> policy | _ \<Rightarrow> default_policy))"

section \<open>VLAN bindings\<close>

record vlan =
  vlan_id :: int
  vlan_parent :: string
  vlan_key :: string
  vlan_table :: int
  vrf_interface :: string
  vlan_interface :: string
  vrf_profile :: string
  vlan_profile :: string
  vlan_unit :: string

definition interface_char :: "char \<Rightarrow> bool" where
  "interface_char c \<longleftrightarrow> is_lower c \<or> is_upper c \<or> is_digit c \<or> c \<in> set ''_.:-''"

definition interface_name_ok :: "string \<Rightarrow> bool" where
  "interface_name_ok s \<longleftrightarrow> s \<noteq> [] \<and> length s \<le> 64 \<and> list_all interface_char s"

definition hex_digit_value :: "char \<Rightarrow> int" where
  "hex_digit_value c = (if is_digit c then int (code c) - 48 else int (code c) - 87)"

text \<open>\<open>int(digest, 16)\<close> on lower-case hexadecimal digits.\<close>

definition hex_number :: "string \<Rightarrow> int" where
  "hex_number s = foldl (\<lambda>n c. 16 * n + hex_digit_value c) 0 s"

definition vlan_of :: "digest \<Rightarrow> int \<Rightarrow> string \<Rightarrow> vlan" where
  "vlan_of sha256 vid parent =
     (let d = take 10 (sha256 (parent @ [CHR 0x00] @ int_str vid)) in
      \<lparr>vlan_id = vid, vlan_parent = parent, vlan_key = d, vlan_table = 1000000000 + hex_number d mod 3000000000,
       vrf_interface = ''nv2vrf'' @ take 7 d, vlan_interface = ''nv2vl'' @ take 8 d, vrf_profile = ''nas-v2-vrf-'' @ d,
       vlan_profile = ''nas-v2-vlan-'' @ d, vlan_unit = ''nas-v2-vlan-'' @ d @ ''.service''\<rparr>)"

definition vlan_binding :: "digest \<Rightarrow> json_dict \<Rightarrow> vlan option res" where
  "vlan_binding sha256 policy =
     (let vid = dget policy ''vlanId'' JNull; parent = dget policy ''vlanParent'' JNull in
      if vid = JNull \<and> parent = JNull then Inr None
      else if vid = JNull \<or> parent = JNull then Inl (podman_error ''vlanId and vlanParent must be specified together'')
      else case vid of
        JInt n \<Rightarrow>
          if n < 1 \<or> 4094 < n then Inl (podman_error ''vlanId'')
          else and_then (expect_str (podman_error ''vlanParent'') parent) (\<lambda>p.
            if interface_name_ok p then Inr (Some (vlan_of sha256 n p)) else Inl (podman_error ''vlanParent''))
      | _ \<Rightarrow> Inl (podman_error ''vlanId''))"

section \<open>What a service needs of the firewall\<close>

definition has_listeners :: "json_dict \<Rightarrow> bool" where
  "has_listeners service = (case dget service ''listeners'' JEmpty of JObj ls \<Rightarrow> ls \<noteq> [] | _ \<Rightarrow> False)"

definition firewalled :: "json \<Rightarrow> bool" where
  "firewalled listener = (case listener of JObj l \<Rightarrow> flag_on l ''firewall'' | _ \<Rightarrow> False)"

definition listener_firewall_requested :: "json_dict \<Rightarrow> bool" where
  "listener_firewall_requested service =
     (case dget service ''listeners'' JEmpty of JObj ls \<Rightarrow> list_ex (\<lambda>(_, l). firewalled l) ls | _ \<Rightarrow> False)"

definition external_egress :: "json_dict \<Rightarrow> bool" where
  "external_egress policy \<longleftrightarrow> dget policy ''outboundDefault'' (JStr ''allow'') = JStr ''allow'' \<or>
     flag policy ''lanAccess'' \<or> flag policy ''allowedEgress''"

definition needs_isolated_firewalld :: "json_dict \<Rightarrow> json_dict \<Rightarrow> bool" where
  "needs_isolated_firewalld service policy \<longleftrightarrow> dget policy ''outboundDefault'' (JStr ''allow'') \<noteq> JStr ''deny'' \<or>
     flag policy ''lanAccess'' \<or> flag policy ''allowedHostPorts'' \<or> flag policy ''allowedEgress'' \<or>
     flag service ''routes'' \<or> has_listeners service"

definition service_requires_firewalld :: "json_dict \<Rightarrow> json \<Rightarrow> bool res" where
  "service_requires_firewalld effective value =
     (case value of
        JObj service \<Rightarrow>
          if \<not> flag_on service ''enabled'' then Inr False
          else and_then (network_policy effective service) (\<lambda>policy.
            let mode = dget policy ''mode'' (JStr ''host'') in
            Inr (mode = JStr ''isolated'' \<and> flag_on service ''managed'' \<and> needs_isolated_firewalld service policy \<or>
                 mode = JStr ''host'' \<and> listener_firewall_requested service))
      | _ \<Rightarrow> Inr False)"

fun any_requires :: "json_dict \<Rightarrow> json list \<Rightarrow> bool res" where
  "any_requires effective [] = Inr False"
| "any_requires effective (v # vs) =
     and_then (service_requires_firewalld effective v) (\<lambda>b. if b then Inr True else any_requires effective vs)"

definition requires_firewalld :: "json_dict \<Rightarrow> bool res" where
  "requires_firewalld effective =
     and_then (expect_obj (podman_error ''missing services'') (dget effective ''services'' JNull)) (\<lambda>services.
     any_requires effective (map snd services))"

section \<open>The Podman network of a service\<close>

definition runtime_type :: "json_dict \<Rightarrow> json" where
  "runtime_type service = soft_get (dget service ''runtime'' JNull) ''type''"

definition isolated_supported :: "digest \<Rightarrow> bool \<Rightarrow> json_dict \<Rightarrow> json_dict \<Rightarrow> unit res" where
  "isolated_supported sha256 firewalld_enabled service policy =
     and_then (vlan_binding sha256 policy) (\<lambda>_.
     and_then (in_strs (runtime_type service) [''oci'', ''quadlet'', ''compose'']) (\<lambda>bridged.
     if \<not> bridged then Inl (podman_error ''requires a runtime with a stable bridge'')
     else and_then (is_session service) (\<lambda>session.
       if session \<and> runtime_type service \<noteq> JStr ''oci'' then Inl (podman_error ''session requires direct OCI runtime'')
       else if session \<and> (flag service ''routes'' \<or> flag service ''listeners'')
       then Inl (podman_error ''session cannot expose fixed routes/listeners'')
       else if needs_isolated_firewalld service policy \<and> \<not> firewalld_enabled
       then Inl (podman_error ''requires the firewalld policy projection'')
       else Inr ())))"

definition quadlet_network_reference :: "digest \<Rightarrow> bool \<Rightarrow> json_dict \<Rightarrow> string \<Rightarrow> json_dict \<Rightarrow> string res" where
  "quadlet_network_reference sha256 firewalld_enabled effective sid service =
     and_then (network_policy effective service) (\<lambda>policy.
     let mode = dget policy ''mode'' (JStr ''host'') in
     and_then (vlan_binding sha256 policy) (\<lambda>vlan.
     if mode = JStr ''none'' then
       (if flag service ''listeners'' \<or> flag service ''routes'' then Inl (podman_error ''network=none cannot expose'')
        else if flag policy ''allowedHostPorts'' \<or> flag policy ''allowedEgress'' \<or> flag policy ''lanAccess'' \<or> vlan \<noteq> None
        then Inl (podman_error ''network=none cannot contain network exceptions'')
        else Inr ''none'')
     else if mode = JStr ''host'' then
       (if dget policy ''outboundDefault'' (JStr ''allow'') \<noteq> JStr ''allow'' \<or> flag policy ''lanAccess'' \<or>
           flag policy ''allowedHostPorts'' \<or> flag policy ''allowedEgress'' \<or> vlan \<noteq> None
        then Inl (podman_error ''host-network restrictions are not attributable'')
        else Inr ''host'')
     else if mode \<noteq> JStr ''isolated'' then Inl (podman_error ''unsupported network mode'')
     else
       and_then (isolated_supported sha256 firewalld_enabled service policy) (\<lambda>_.
       and_then (is_session service) (\<lambda>session.
       Inr ((if session then ''nas-v2-snet'' else ''nas-v2-net'') @ ''-'' @ sid @ ''.network'')))))"

section \<open>Native firewalld objects\<close>

record rich_rule =
  rule_family :: string
  rule_destination :: string
  rule_port :: "(string \<times> string) option"

record fw_policy =
  fw_name :: string
  fw_target :: string
  fw_priority :: int
  fw_ingress :: string
  fw_egress :: string
  fw_ports :: "(string \<times> string) list"
  fw_forwards :: "(string \<times> string \<times> string) list"
  fw_rules :: "rich_rule list"

datatype fw_object = FwZone string string | FwPolicy fw_policy

definition zone :: "digest \<Rightarrow> string \<Rightarrow> fw_object" where
  "zone sha256 sid = FwZone (zone_name sha256 sid) (bridge_interface_name sha256 sid)"

definition policy_object :: "fw_policy \<Rightarrow> fw_object res" where
  "policy_object p =
     (if fw_target p \<notin> {''ACCEPT'', ''DROP'', ''CONTINUE''} \<or> fw_priority p = 0 \<or> \<not> (- 32767 \<le> fw_priority p \<and> fw_priority p \<le> 32767)
      then Inl (firewalld_error ''invalid native firewalld policy'') else Inr (FwPolicy p))"

definition bare_policy :: "string \<Rightarrow> string \<Rightarrow> int \<Rightarrow> string \<Rightarrow> string \<Rightarrow> fw_policy" where
  "bare_policy name target priority ingress egress =
     \<lparr>fw_name = name, fw_target = target, fw_priority = priority, fw_ingress = ingress, fw_egress = egress,
      fw_ports = [], fw_forwards = [], fw_rules = []\<rparr>"

definition allow_policy :: "string \<Rightarrow> string \<Rightarrow> string \<Rightarrow> (string \<times> string) list \<Rightarrow> (string \<times> string \<times> string) list \<Rightarrow> fw_object res" where
  "allow_policy name ingress egress ports forwards =
     policy_object ((bare_policy name ''DROP'' (- 50) ingress egress)\<lparr>fw_ports := ports, fw_forwards := forwards\<rparr>)"

fun port_value :: "json \<Rightarrow> int option" where
  "port_value (JInt n) = (if 1 \<le> n \<and> n \<le> 65535 then Some n else None)"
| "port_value _ = None"

definition egress_rules :: "(string \<Rightarrow> (bool \<times> string) option) \<Rightarrow> json_dict \<Rightarrow> rich_rule list res" where
  "egress_rules ip_network rule =
     and_then (expect_str (firewalld_error ''allowedEgress.cidr must be a string'') (dget rule ''cidr'' JNull)) (\<lambda>raw.
     case ip_network raw of
       None \<Rightarrow> Inl (firewalld_error ''invalid allowedEgress CIDR'')
     | Some (v4, network) \<Rightarrow>
         and_then (expect_list (firewalld_error ''allowedEgress ports'') (dget rule ''ports'' (JList []))) (\<lambda>ports.
         if list_ex (\<lambda>p. port_value p = None) ports then Inl (firewalld_error ''allowedEgress ports'')
         else let base = \<lparr>rule_family = if v4 then ''ipv4'' else ''ipv6'', rule_destination = network, rule_port = None\<rparr> in
           Inr (if ports = [] then [base]
                else concat (map (\<lambda>p. map (\<lambda>protocol. base\<lparr>rule_port := Some (int_str p, protocol)\<rparr>) [''tcp'', ''udp''])
                  (sort (remdups (map (the \<circ> port_value) ports)))))))"

text \<open>\<open>isinstance(v, int)\<close>, which a Boolean passes.\<close>

fun is_int :: "json \<Rightarrow> bool" where
  "is_int (JInt _) = True"
| "is_int (JBool _) = True"
| "is_int _ = False"

definition exposure_port :: "json_dict \<Rightarrow> string res" where
  "exposure_port exposure =
     (let port = dget exposure ''port'' JNull; first = dget exposure ''start'' JNull; final = dget exposure ''end'' JNull in
      if is_int port then Inr (py_str port)
      else if is_int first \<and> is_int final then Inr (py_str first @ ''-'' @ py_str final)
      else Inl (firewalld_error ''compiled listener exposure is invalid''))"

text \<open>A listener that opens the firewall: its dictionary, its protocol and its exposure.\<close>

definition firewall_listener :: "json \<Rightarrow> (json_dict \<times> string \<times> json_dict) option res" where
  "firewall_listener value =
     (case value of
        JObj l \<Rightarrow>
          if dget l ''firewall'' (JBool True) \<noteq> JBool True then Inr None
          else
            let protocol = dget l ''protocol'' JNull in
            and_then (in_strs protocol [''tcp'', ''udp'']) (\<lambda>known.
            if \<not> known then Inl (firewalld_error ''compiled listener is invalid'')
            else and_then (expect_obj (firewalld_error ''compiled listener is invalid'') (dget l ''exposure'' JNull)) (\<lambda>exposure.
              Inr (Some (l, py_str protocol, exposure))))
      | _ \<Rightarrow> Inr None)"

definition iter_listeners :: "json_dict \<Rightarrow> (json_dict \<times> string \<times> json_dict) list res" where
  "iter_listeners service =
     (case dget service ''listeners'' JEmpty of
        JObj ls \<Rightarrow> and_then (map_res (\<lambda>(_, l). firewall_listener l) ls) (\<lambda>os. Inr (map the (filter (\<lambda>o'. o' \<noteq> None) os)))
      | _ \<Rightarrow> Inr [])"

definition listener_port :: "json_dict \<times> string \<times> json_dict \<Rightarrow> (string \<times> string) res" where
  "listener_port = (\<lambda>(l, protocol, exposure).
     if dict_get l ''targetPort'' \<noteq> None then Inl (firewalld_error ''targetPort'')
     else and_then (exposure_port exposure) (\<lambda>port. Inr (port, protocol)))"

definition declared_listener_ports :: "json_dict \<Rightarrow> (string \<times> string) list res" where
  "declared_listener_ports service =
     and_then (iter_listeners service) (\<lambda>ls.
     and_then (map_res listener_port ls) (\<lambda>ports. Inr (sort (remdups ports))))"

type_synonym rules = "(string \<times> string) list \<times> (string \<times> string \<times> string) list"

definition host_rule :: "json_dict \<times> string \<times> json_dict \<Rightarrow> rules \<Rightarrow> rules res" where
  "host_rule = (\<lambda>(l, protocol, exposure) (ports, forwards).
     let target = dget l ''targetPort'' JNull; exposed = dget exposure ''port'' JNull;
         plain = and_then (exposure_port exposure) (\<lambda>port. Inr (ports @ [(port, protocol)], forwards)) in
     if target = JNull then plain
     else if \<not> is_int exposed then Inl (firewalld_error ''targetPort'')
     else case port_value target of
       None \<Rightarrow> Inl (firewalld_error ''targetPort is invalid'')
     | Some t \<Rightarrow> if \<not> eq_int exposed t then Inr (ports, forwards @ [(py_str exposed, protocol, int_str t)]) else plain)"

definition host_listener_rules :: "json_dict \<Rightarrow> rules res" where
  "host_listener_rules service =
     and_then (iter_listeners service) (\<lambda>ls.
     and_then (for_each ls host_rule ([], [])) (\<lambda>(ports, forwards).
     Inr (sort (remdups ports), sort (remdups forwards))))"

text \<open>The container port behind the host port \<open>port\<close>: the first TCP listener exposed there decides.\<close>

fun published_port :: "json \<Rightarrow> json list \<Rightarrow> json res" where
  "published_port port [] = Inr port"
| "published_port port (l # ls) =
     and_then (get l ''protocol'') (\<lambda>protocol.
     if protocol \<noteq> JStr ''tcp'' then published_port port ls
     else and_then (get_or l ''exposure'' JEmpty) (\<lambda>exposure.
       and_then (get exposure ''port'') (\<lambda>exposed.
       and_then (as_int port) (\<lambda>n.
       if eq_int exposed n then get_or l ''targetPort'' port else published_port port ls))))"

definition route_port :: "json_dict \<Rightarrow> string \<times> json \<Rightarrow> (string \<times> string) res" where
  "route_port service = (\<lambda>(_, route).
     and_then (expect_obj (firewalld_error ''compiled route is invalid'') (soft_get route ''target'')) (\<lambda>target.
     if dget target ''type'' JNull = JStr ''unix-http'' then Inl (firewalld_error ''host Unix-socket target'')
     else let port = dget target ''port'' JNull in
       if \<not> is_int port then Inl (firewalld_error ''missing a TCP port'')
       else and_then (dict_items (dget service ''listeners'' JEmpty)) (\<lambda>ls.
         and_then (published_port port (map snd ls)) (\<lambda>p. Inr (py_str p, ''tcp'')))))"

definition route_ports :: "json_dict \<Rightarrow> (string \<times> string) list res" where
  "route_ports service =
     (case dget service ''routes'' JEmpty of
        JObj rs \<Rightarrow> and_then (map_res (route_port service) rs) (\<lambda>ports. Inr (sort (remdups ports)))
      | _ \<Rightarrow> Inr [])"

section \<open>The projection\<close>

definition both_protocols :: "int list \<Rightarrow> (string \<times> string) list" where
  "both_protocols ports = concat (map (\<lambda>p. [(int_str p, ''tcp''), (int_str p, ''udp'')]) (sort (remdups ports)))"

fun plain_int :: "json \<Rightarrow> int res" where
  "plain_int (JInt n) = Inr n"
| "plain_int _ = Inl TypeError"

definition allowed_host_ports :: "json_dict \<Rightarrow> (string \<times> string) list res" where
  "allowed_host_ports policy =
     and_then (iter (dget policy ''allowedHostPorts'' (JList []))) (\<lambda>raw.
     and_then (map_res plain_int raw) (\<lambda>ports. Inr (both_protocols ports)))"

definition allowed_egress :: "(string \<Rightarrow> (bool \<times> string) option) \<Rightarrow> json_dict \<Rightarrow> rich_rule list res" where
  "allowed_egress ip_network policy =
     and_then (iter (dget policy ''allowedEgress'' (JList []))) (\<lambda>entries.
     and_then (map_res (\<lambda>e. and_then (expect_obj (firewalld_error ''allowedEgress entries must be objects'') e)
       (egress_rules ip_network)) entries) (\<lambda>rules. Inr (concat rules)))"

type_synonym fw_table = "(string, fw_object) dict"

definition policy_entry :: "string \<Rightarrow> fw_object res \<Rightarrow> fw_table res" where
  "policy_entry name obj = and_then obj (\<lambda>x. Inr [(''policies/'' @ name, x)])"

definition port_entry :: "string \<Rightarrow> string \<Rightarrow> string \<Rightarrow> (string \<times> string) list \<Rightarrow> fw_table res" where
  "port_entry name ingress egress ports =
     (if ports = [] then Inr [] else policy_entry name (allow_policy name ingress egress ports []))"

definition isolated_objects :: "digest \<Rightarrow> (string \<Rightarrow> (bool \<times> string) option) \<Rightarrow> string \<Rightarrow> string \<Rightarrow> json_dict \<Rightarrow> json_dict \<Rightarrow> fw_table res" where
  "isolated_objects sha256 ip_network lan_zone sid service policy =
     and_then (declared_listener_ports service) (\<lambda>listeners.
     if \<not> flag_on service ''managed'' then Inl (firewalld_error ''unmanaged isolated service'')
     else and_then (in_strs (runtime_type service) [''oci'', ''quadlet'', ''compose'']) (\<lambda>bridged.
     if \<not> bridged then Inl (firewalld_error ''requires a runtime with a stable bridge'')
     else
       let z = zone_name sha256 sid; host = host_policy_name sha256 sid; lan = lan_policy_name sha256 sid;
           world = world_policy_name sha256 sid in
       and_then (allowed_host_ports policy) (\<lambda>host_ports.
       and_then (policy_entry host (policy_object ((bare_policy host ''DROP'' (- 50) z ''HOST'')\<lparr>fw_ports := host_ports\<rparr>))) (\<lambda>host_entry.
       and_then (policy_entry lan (policy_object
         (bare_policy lan (if truthy (dget policy ''lanAccess'' (JBool False)) then ''ACCEPT'' else ''DROP'') (- 100) z lan_zone))) (\<lambda>lan_entry.
       and_then (allowed_egress ip_network policy) (\<lambda>rules.
       and_then (policy_entry world (policy_object
         ((bare_policy world (if dget policy ''outboundDefault'' (JStr ''allow'') = JStr ''allow'' then ''ACCEPT'' else ''DROP'') 50 z ''ANY'')
           \<lparr>fw_rules := rules\<rparr>))) (\<lambda>world_entry.
       and_then (route_ports service) (\<lambda>routes.
       and_then (port_entry (route_policy_name sha256 sid) ''HOST'' z routes) (\<lambda>route_entry.
       and_then (port_entry (listener_policy_name sha256 sid) lan_zone z listeners) (\<lambda>listener_entry.
       Inr ([(''zones/'' @ z, zone sha256 sid)] @ host_entry @ lan_entry @ world_entry @ route_entry @ listener_entry)))))))))))"

record fw_state =
  fw_objects :: fw_table
  fw_owners :: "(string \<times> string) list"
  fw_host_ports :: "(string \<times> string) list"
  fw_host_forwards :: "(string \<times> string \<times> string) list"
  fw_host_owners :: "string list"

definition add_object :: "string \<Rightarrow> string \<times> fw_object \<Rightarrow> fw_state \<Rightarrow> fw_state res" where
  "add_object sid = (\<lambda>(target, value) st.
     if dict_get (fw_objects st) target \<noteq> None then Inl (firewalld_error ''duplicate generated firewalld target'')
     else Inr (st\<lparr>fw_objects := dict_set target value (fw_objects st), fw_owners := fw_owners st @ [(sid, target)]\<rparr>))"

definition project_service :: "digest \<Rightarrow> (string \<Rightarrow> (bool \<times> string) option) \<Rightarrow> string \<Rightarrow> json_dict \<Rightarrow> string \<times> json \<Rightarrow> fw_state \<Rightarrow> fw_state res" where
  "project_service sha256 ip_network lan_zone effective = (\<lambda>(sid, value) st.
     case value of
       JObj service \<Rightarrow>
         if \<not> flag_on service ''enabled'' then Inr st
         else and_then (network_policy effective service) (\<lambda>policy.
           let mode = dget policy ''mode'' (JStr ''host'') in
           if mode = JStr ''isolated'' then
             and_then (isolated_objects sha256 ip_network lan_zone sid service policy) (\<lambda>generated.
             for_each generated (add_object sid) st)
           else if mode = JStr ''host'' then
             and_then (host_listener_rules service) (\<lambda>(ports, forwards).
             if ports \<noteq> [] \<or> forwards \<noteq> []
             then Inr (st\<lparr>fw_host_ports := fw_host_ports st @ ports, fw_host_forwards := fw_host_forwards st @ forwards,
               fw_host_owners := fw_host_owners st @ [sid]\<rparr>)
             else Inr st)
           else if mode = JStr ''none'' then
             and_then (declared_listener_ports service) (\<lambda>ports.
             if ports \<noteq> [] then Inl (firewalld_error ''network=none service cannot expose listeners'') else Inr st)
           else Inl (firewalld_error ''unsupported network mode''))
     | _ \<Rightarrow> Inr st)"

definition no_projection :: fw_state where
  "no_projection = \<lparr>fw_objects = [], fw_owners = [], fw_host_ports = [], fw_host_forwards = [], fw_host_owners = []\<rparr>"

definition host_listener_object :: "digest \<Rightarrow> string \<Rightarrow> fw_state \<Rightarrow> fw_state res" where
  "host_listener_object sha256 lan_zone st =
     (if fw_host_ports st = [] \<and> fw_host_forwards st = [] then Inr st
      else let name = host_listener_policy_name sha256; target = ''policies/'' @ name in
        if dict_get (fw_objects st) target \<noteq> None then Inl (firewalld_error ''duplicate generated firewalld target'')
        else and_then (allow_policy name lan_zone ''HOST'' (sort (remdups (fw_host_ports st))) (sort (remdups (fw_host_forwards st)))) (\<lambda>obj.
          Inr (st\<lparr>fw_objects := dict_set target obj (fw_objects st),
            fw_owners := fw_owners st @ map (\<lambda>sid. (sid, target)) (fw_host_owners st)\<rparr>)))"

definition lan_zone_ok :: "string \<Rightarrow> bool" where
  "lan_zone_ok s = (case s of [] \<Rightarrow> False | c # cs \<Rightarrow> (is_lower c \<or> is_upper c \<or> is_digit c \<or> c = CHR ''_'') \<and> length cs \<le> 16 \<and>
     list_all (\<lambda>d. is_lower d \<or> is_upper d \<or> is_digit d \<or> d = CHR ''_'' \<or> d = CHR ''-'') cs)"

definition validate_lan_zone :: "json \<Rightarrow> string res" where
  "validate_lan_zone v = (case v of
     JStr s \<Rightarrow> if lan_zone_ok s then Inr s else Inl (firewalld_error ''unsafe firewalld LAN zone name'')
   | _ \<Rightarrow> Inl (firewalld_error ''unsafe firewalld LAN zone name''))"

record fw_manifest =
  manifest_objects :: "fw_object list"
  manifest_owners :: "(string \<times> string) list"

definition manifest_of :: "fw_table \<Rightarrow> (string \<times> string) list \<Rightarrow> fw_manifest" where
  "manifest_of objects owners = \<lparr>manifest_objects = map snd (sort_key fst objects), manifest_owners = sort owners\<rparr>"

definition compile_application_projection :: "digest \<Rightarrow> (string \<Rightarrow> (bool \<times> string) option) \<Rightarrow> json_dict \<Rightarrow> json \<Rightarrow> (fw_table \<times> fw_manifest) res" where
  "compile_application_projection sha256 ip_network effective lan =
     and_then (validate_lan_zone lan) (\<lambda>lan_zone.
     and_then (expect_obj (firewalld_error ''missing services'') (dget effective ''services'' JNull)) (\<lambda>services.
     and_then (for_each (sort_key fst services) (project_service sha256 ip_network lan_zone effective) no_projection) (\<lambda>st.
     and_then (host_listener_object sha256 lan_zone st) (\<lambda>st'.
     Inr (fw_objects st', manifest_of (fw_objects st') (fw_owners st'))))))"

definition remote_admin_ports :: "(string \<times> string) list" where
  "remote_admin_ports = [(''22'', ''tcp''), (''443'', ''tcp'')]"

definition compile_remote_admin_projection :: "digest \<Rightarrow> json \<Rightarrow> (fw_table \<times> (string \<times> string) list) res" where
  "compile_remote_admin_projection sha256 lan =
     and_then (validate_lan_zone lan) (\<lambda>lan_zone.
     let name = remote_admin_policy_name sha256 in
     and_then (policy_entry name (policy_object
       ((bare_policy name ''CONTINUE'' (- 300) lan_zone ''HOST'')\<lparr>fw_ports := remote_admin_ports\<rparr>))) (\<lambda>objects.
     Inr (objects, [(''_remote-admin'', ''policies/'' @ name)])))"

definition compile_projection :: "digest \<Rightarrow> (string \<Rightarrow> (bool \<times> string) option) \<Rightarrow> json_dict \<Rightarrow> json \<Rightarrow> (fw_table \<times> fw_manifest) res" where
  "compile_projection sha256 ip_network effective lan =
     and_then (compile_remote_admin_projection sha256 lan) (\<lambda>(remote_objects, remote_owners).
     and_then (compile_application_projection sha256 ip_network effective lan) (\<lambda>(app_objects, app).
     let objects = fold (\<lambda>(k, v). dict_set k v) app_objects remote_objects in
     if length objects \<noteq> length remote_objects + length app_objects then Inl (firewalld_error ''duplicate native firewalld object'')
     else Inr (objects, manifest_of objects (remote_owners @ manifest_owners app))))"

text \<open>The dictionaries behind the records, as the manifest holds them.\<close>

definition rule_json :: "rich_rule \<Rightarrow> json" where
  "rule_json r = JObj ([(''family'', JStr (rule_family r)), (''destination'', JStr (rule_destination r))] @
     (case rule_port r of None \<Rightarrow> [] | Some (port, protocol) \<Rightarrow> [(''port'', JStr port), (''protocol'', JStr protocol)]))"

fun object_json :: "fw_object \<Rightarrow> json" where
  "object_json (FwZone name i) = JObj [(''kind'', JStr ''zone''), (''name'', JStr name), (''interface'', JStr i)]"
| "object_json (FwPolicy p) = JObj [(''kind'', JStr ''policy''), (''name'', JStr (fw_name p)), (''target'', JStr (fw_target p)),
     (''priority'', JInt (fw_priority p)), (''ingress'', JStr (fw_ingress p)), (''egress'', JStr (fw_egress p)),
     (''ports'', JList (map (\<lambda>(port, protocol). JList [JStr port, JStr protocol]) (fw_ports p))),
     (''forwardPorts'', JList (map (\<lambda>(port, protocol, target). JList [JStr port, JStr protocol, JStr target]) (fw_forwards p))),
     (''richRules'', JList (map rule_json (fw_rules p)))]"

definition manifest_json :: "fw_manifest \<Rightarrow> json" where
  "manifest_json m = JObj [(''schemaVersion'', JInt 2), (''objects'', JList (map object_json (manifest_objects m))),
     (''owners'', JList (map (\<lambda>(sid, t). JObj [(''service'', JStr sid), (''target'', JStr t)]) (manifest_owners m)))]"

section \<open>Where the objects of a projection come from\<close>

definition in_mode :: "json_dict \<Rightarrow> json_dict \<Rightarrow> string \<Rightarrow> string \<Rightarrow> json_dict \<Rightarrow> json_dict \<Rightarrow> bool" where
  "in_mode effective services mode sid service policy \<longleftrightarrow>
     (sid, JObj service) \<in> set services \<and> flag_on service ''enabled'' \<and>
     network_policy effective service = Inr policy \<and> dget policy ''mode'' (JStr ''host'') = JStr mode"

lemma policy_object_ok:
  "fw_target p \<in> {''ACCEPT'', ''DROP'', ''CONTINUE''} \<Longrightarrow> fw_priority p \<in> {- 50, - 100, 50, - 300} \<Longrightarrow>
   policy_object p = Inr (FwPolicy p)"
  by (auto simp: policy_object_def)

definition drop_ports :: "string \<Rightarrow> string \<Rightarrow> string \<Rightarrow> (string \<times> string) list \<Rightarrow> (string \<times> string \<times> string) list \<Rightarrow> fw_object" where
  "drop_ports name ingress egress ports forwards =
     FwPolicy ((bare_policy name ''DROP'' (- 50) ingress egress)\<lparr>fw_ports := ports, fw_forwards := forwards\<rparr>)"

definition lan_object :: "digest \<Rightarrow> string \<Rightarrow> string \<Rightarrow> json_dict \<Rightarrow> fw_object" where
  "lan_object sha256 lan_zone sid policy = FwPolicy (bare_policy (lan_policy_name sha256 sid)
     (if flag policy ''lanAccess'' then ''ACCEPT'' else ''DROP'') (- 100) (zone_name sha256 sid) lan_zone)"

definition world_object :: "digest \<Rightarrow> string \<Rightarrow> json_dict \<Rightarrow> rich_rule list \<Rightarrow> fw_object" where
  "world_object sha256 sid policy rules = FwPolicy ((bare_policy (world_policy_name sha256 sid)
     (if dget policy ''outboundDefault'' (JStr ''allow'') = JStr ''allow'' then ''ACCEPT'' else ''DROP'') 50
     (zone_name sha256 sid) ''ANY'')\<lparr>fw_rules := rules\<rparr>)"

definition host_object :: "digest \<Rightarrow> string \<Rightarrow> (string \<times> string) list \<Rightarrow> fw_object" where
  "host_object sha256 sid ports = drop_ports (host_policy_name sha256 sid) (zone_name sha256 sid) ''HOST'' ports []"

lemma bare_policy_simps [simp]:
  "fw_target (bare_policy n t p i e) = t" "fw_priority (bare_policy n t p i e) = p"
  "fw_ingress (bare_policy n t p i e) = i" "fw_egress (bare_policy n t p i e) = e" "fw_ports (bare_policy n t p i e) = []"
  "fw_forwards (bare_policy n t p i e) = []" "fw_rules (bare_policy n t p i e) = []" "fw_name (bare_policy n t p i e) = n"
  by (simp_all add: bare_policy_def)

lemma allow_policy_eq [simp]: "allow_policy n i e ps fs = Inr (drop_ports n i e ps fs)"
  by (simp add: allow_policy_def drop_ports_def policy_object_ok)

lemma policy_entry_Inr [simp]: "policy_entry n (Inr x) = Inr [(''policies/'' @ n, x)]"
  by (simp add: policy_entry_def)

lemma port_entry_eq:
  "port_entry n i e ps = Inr (if ps = [] then [] else [(''policies/'' @ n, drop_ports n i e ps [])])"
  by (simp add: port_entry_def)

lemma policy_objects:
  "policy_object ((bare_policy n ''DROP'' (- 50) i e)\<lparr>fw_ports := ps\<rparr>) = Inr (drop_ports n i e ps [])"
  "policy_object (bare_policy n (if b then ''ACCEPT'' else ''DROP'') (- 100) i e) =
     Inr (FwPolicy (bare_policy n (if b then ''ACCEPT'' else ''DROP'') (- 100) i e))"
  "policy_object ((bare_policy n (if b then ''ACCEPT'' else ''DROP'') 50 i e)\<lparr>fw_rules := rs\<rparr>) =
     Inr (FwPolicy ((bare_policy n (if b then ''ACCEPT'' else ''DROP'') 50 i e)\<lparr>fw_rules := rs\<rparr>))"
  by (simp_all add: policy_object_def drop_ports_def bare_policy_def)

lemma lan_flag: "truthy (dget p k (JBool False)) = flag p k"
  by (simp add: dget_def split: option.splits)

lemma isolated_objects_shape:
  assumes "isolated_objects sha256 ip_network lan_zone sid service policy = Inr gen"
  shows "\<exists>listeners ports rules routes. declared_listener_ports service = Inr listeners \<and> allowed_host_ports policy = Inr ports \<and>
    allowed_egress ip_network policy = Inr rules \<and> route_ports service = Inr routes \<and> flag_on service ''managed'' \<and>
    gen = [(''zones/'' @ zone_name sha256 sid, zone sha256 sid),
      (''policies/'' @ host_policy_name sha256 sid, host_object sha256 sid ports),
      (''policies/'' @ lan_policy_name sha256 sid, lan_object sha256 lan_zone sid policy),
      (''policies/'' @ world_policy_name sha256 sid, world_object sha256 sid policy rules)] @
      (if routes = [] then [] else [(''policies/'' @ route_policy_name sha256 sid,
         drop_ports (route_policy_name sha256 sid) ''HOST'' (zone_name sha256 sid) routes [])]) @
      (if listeners = [] then [] else [(''policies/'' @ listener_policy_name sha256 sid,
         drop_ports (listener_policy_name sha256 sid) lan_zone (zone_name sha256 sid) listeners [])])"
proof -
  obtain listeners ports rules routes where l: "declared_listener_ports service = Inr listeners" and m: "flag_on service ''managed''"
    and b: "in_strs (runtime_type service) [''oci'', ''quadlet'', ''compose''] = Inr True"
    and p: "allowed_host_ports policy = Inr ports" and e: "allowed_egress ip_network policy = Inr rules"
    and r: "route_ports service = Inr routes"
    using assms unfolding isolated_objects_def Let_def policy_objects policy_entry_Inr port_entry_eq and_then.simps
      and_then_Inr_iff if_Inl_Inr_iff by (elim exE conjE, intro that) simp_all
  show ?thesis
    using assms
    unfolding isolated_objects_def Let_def policy_objects policy_entry_Inr port_entry_eq and_then.simps l b p e r lan_flag
    by (simp add: m p e r l lan_object_def world_object_def host_object_def)
qed

lemma add_objects:
  assumes "for_each gen (add_object sid) st = Inr st'"
  shows "\<And>t v. dict_get (fw_objects st) t = Some v \<Longrightarrow> dict_get (fw_objects st') t = Some v"
    and "\<And>t v. (t, v) \<in> set gen \<Longrightarrow> dict_get (fw_objects st') t = Some v"
    and "\<And>t v. dict_get (fw_objects st') t = Some v \<Longrightarrow> dict_get (fw_objects st) t = Some v \<or> (t, v) \<in> set gen"
    and "fw_owners st' = fw_owners st @ map (\<lambda>(t, _). (sid, t)) gen"
    and "fw_host_ports st' = fw_host_ports st" "fw_host_forwards st' = fw_host_forwards st" "fw_host_owners st' = fw_host_owners st"
proof -
  have "(\<forall>t v. dict_get (fw_objects st) t = Some v \<longrightarrow> dict_get (fw_objects st') t = Some v) \<and>
    (\<forall>t v. (t, v) \<in> set gen \<longrightarrow> dict_get (fw_objects st') t = Some v) \<and>
    (\<forall>t v. dict_get (fw_objects st') t = Some v \<longrightarrow> dict_get (fw_objects st) t = Some v \<or> (t, v) \<in> set gen) \<and>
    fw_owners st' = fw_owners st @ map (\<lambda>(t, _). (sid, t)) gen \<and>
    fw_host_ports st' = fw_host_ports st \<and> fw_host_forwards st' = fw_host_forwards st \<and> fw_host_owners st' = fw_host_owners st"
    using assms
  proof (induction gen arbitrary: st)
    case (Cons x gen)
    obtain t v where x: "x = (t, v)" by (cases x)
    obtain m where m: "add_object sid (t, v) st = Inr m" and rest: "for_each gen (add_object sid) m = Inr st'"
      using Cons.prems by (auto simp: x res_simps)
    have free: "dict_get (fw_objects st) t = None"
      and m': "m = st\<lparr>fw_objects := dict_set t v (fw_objects st), fw_owners := fw_owners st @ [(sid, t)]\<rparr>"
      using m by (auto simp: add_object_def split: if_splits)
    have get: "dict_get (fw_objects m) u = (if u = t then Some v else dict_get (fw_objects st) u)" for u
      by (simp add: m' dict_simps)
    have own: "fw_owners m = fw_owners st @ [(sid, t)]" "fw_host_ports m = fw_host_ports st"
      "fw_host_forwards m = fw_host_forwards st" "fw_host_owners m = fw_host_owners st"
      by (simp_all add: m')
    note IH = Cons.IH [OF rest, unfolded get own]
    have "dict_get (fw_objects st') u = Some w" if "dict_get (fw_objects st) u = Some w" for u w
      using IH free that by (metis option.distinct(1))
    moreover have "dict_get (fw_objects st') t = Some v" using IH by presburger
    moreover have "dict_get (fw_objects st) u = Some w \<or> (u, w) \<in> set (x # gen)" if "dict_get (fw_objects st') u = Some w" for u w
      using IH that x by (cases "u = t") (auto 0 3)
    ultimately show ?case using IH by (simp add: x)
  qed simp
  then show "\<And>t v. dict_get (fw_objects st) t = Some v \<Longrightarrow> dict_get (fw_objects st') t = Some v"
    "\<And>t v. (t, v) \<in> set gen \<Longrightarrow> dict_get (fw_objects st') t = Some v"
    "\<And>t v. dict_get (fw_objects st') t = Some v \<Longrightarrow> dict_get (fw_objects st) t = Some v \<or> (t, v) \<in> set gen"
    "fw_owners st' = fw_owners st @ map (\<lambda>(t, _). (sid, t)) gen"
    "fw_host_ports st' = fw_host_ports st" "fw_host_forwards st' = fw_host_forwards st" "fw_host_owners st' = fw_host_owners st"
    by blast+
qed

definition host_entry :: "string \<Rightarrow> rules \<Rightarrow> fw_state \<Rightarrow> fw_state" where
  "host_entry sid = (\<lambda>(ports, forwards) st. st\<lparr>fw_host_ports := fw_host_ports st @ ports,
     fw_host_forwards := fw_host_forwards st @ forwards, fw_host_owners := fw_host_owners st @ [sid]\<rparr>)"

lemma project_service_cases:
  assumes "project_service sha256 ip_network lan_zone effective (sid, val) st = Inr st'" and "(sid, val) \<in> set services"
  shows "st' = st \<or>
    (\<exists>service policy gen. in_mode effective services ''isolated'' sid service policy \<and> val = JObj service \<and>
       isolated_objects sha256 ip_network lan_zone sid service policy = Inr gen \<and> for_each gen (add_object sid) st = Inr st') \<or>
    (\<exists>service policy rules. in_mode effective services ''host'' sid service policy \<and>
       host_listener_rules service = Inr rules \<and> st' = host_entry sid rules st)"
proof (cases "\<exists>service. val = JObj service \<and> flag_on service ''enabled''")
  case True
  then obtain service where v: "val = JObj service" "flag_on service ''enabled''" by blast
  obtain policy where p: "network_policy effective service = Inr policy"
    using assms(1) v by (cases "network_policy effective service") (simp_all add: project_service_def)
  let ?mode = "dget policy ''mode'' (JStr ''host'')"
  have mode: "in_mode effective services m sid service policy" if "?mode = JStr m" for m
    using that v p assms(2) by (simp add: in_mode_def)
  consider "?mode = JStr ''isolated''" | "?mode = JStr ''host''" | "?mode \<notin> {JStr ''isolated'', JStr ''host''}" by blast
  then show ?thesis
  proof cases
    case 1
    then show ?thesis using assms(1) v p mode by (auto simp: project_service_def res_simps)
  next
    case 2
    then show ?thesis using assms(1) v p mode [OF 2]
      by (auto simp: project_service_def res_simps host_entry_def split: if_splits)
  next
    case 3
    then show ?thesis using assms(1) v p by (auto simp: project_service_def res_simps split: if_splits)
  qed
next
  case False
  then show ?thesis using assms(1) by (auto simp: project_service_def split: json.splits if_splits)
qed

lemma project_services_mono:
  assumes "for_each xs (project_service sha256 ip_network lan_zone effective) st = Inr st'"
    and "dict_get (fw_objects st) t = Some v"
  shows "dict_get (fw_objects st') t = Some v"
  using assms
proof (induction xs arbitrary: st)
  case (Cons x xs)
  obtain sid val where x: "x = (sid, val)" by (cases x)
  obtain m where m: "project_service sha256 ip_network lan_zone effective (sid, val) st = Inr m"
    and rest: "for_each xs (project_service sha256 ip_network lan_zone effective) m = Inr st'"
    using Cons.prems(1) by (auto simp: x res_simps)
  have "dict_get (fw_objects m) t = Some v"
    using project_service_cases [OF m, of "[(sid, val)]"] Cons.prems(2) add_objects(1)
    by (auto simp: host_entry_def split: prod.splits)
  then show ?case by (rule Cons.IH [OF rest])
qed simp

definition from_isolated :: "digest \<Rightarrow> (string \<Rightarrow> (bool \<times> string) option) \<Rightarrow> string \<Rightarrow> json_dict \<Rightarrow> json_dict \<Rightarrow> string \<times> fw_object \<Rightarrow> bool" where
  "from_isolated sha256 ip_network lan_zone effective services x \<longleftrightarrow>
     (\<exists>sid service policy gen. in_mode effective services ''isolated'' sid service policy \<and>
        isolated_objects sha256 ip_network lan_zone sid service policy = Inr gen \<and> x \<in> set gen)"

definition host_declared :: "json_dict \<Rightarrow> json_dict \<Rightarrow> (rules \<Rightarrow> bool) \<Rightarrow> bool" where
  "host_declared effective services P \<longleftrightarrow>
     (\<exists>sid service policy rules. in_mode effective services ''host'' sid service policy \<and>
        host_listener_rules service = Inr rules \<and> P rules)"

definition projected :: "digest \<Rightarrow> (string \<Rightarrow> (bool \<times> string) option) \<Rightarrow> string \<Rightarrow> json_dict \<Rightarrow> json_dict \<Rightarrow> fw_state \<Rightarrow> bool" where
  "projected sha256 ip_network lan_zone effective services st \<longleftrightarrow>
     (\<forall>t v. dict_get (fw_objects st) t = Some v \<longrightarrow> from_isolated sha256 ip_network lan_zone effective services (t, v)) \<and>
     (\<forall>p \<in> set (fw_host_ports st). host_declared effective services (\<lambda>(ps, fs). p \<in> set ps)) \<and>
     (\<forall>f \<in> set (fw_host_forwards st). host_declared effective services (\<lambda>(ps, fs). f \<in> set fs)) \<and>
     snd ` set (fw_owners st) = fst ` set (fw_objects st) \<and>
     (fw_host_ports st \<noteq> [] \<or> fw_host_forwards st \<noteq> [] \<longrightarrow> fw_host_owners st \<noteq> [])"

lemma dict_keys: "fst ` set d = {k. dict_get d k \<noteq> None}"
  by (auto simp: map_of_eq_None_iff)

lemma project_service_projected:
  assumes "project_service sha256 ip_network lan_zone effective (sid, val) st = Inr st'" and "(sid, val) \<in> set services"
    and "projected sha256 ip_network lan_zone effective services st"
  shows "projected sha256 ip_network lan_zone effective services st'"
  using project_service_cases [OF assms(1,2)]
proof (elim disjE exE conjE)
  fix service policy gen
  assume m: "in_mode effective services ''isolated'' sid service policy"
    "isolated_objects sha256 ip_network lan_zone sid service policy = Inr gen" and run: "for_each gen (add_object sid) st = Inr st'"
  note added = add_objects [OF run]
  have new: "from_isolated sha256 ip_network lan_zone effective services x" if "x \<in> set gen" for x
    using m that unfolding from_isolated_def by blast
  have "fst ` set (fw_objects st') = fst ` set (fw_objects st) \<union> fst ` set gen"
    unfolding dict_keys [of "fw_objects _"] using added(1,2,3) by (force simp: image_iff)
  moreover have "snd ` set (fw_owners st') = snd ` set (fw_owners st) \<union> fst ` set gen"
    by (force simp: added(4) image_iff)
  ultimately show ?thesis
    using assms(3) new added(3,5,6,7) unfolding projected_def by metis
next
  fix service policy rules
  assume m: "in_mode effective services ''host'' sid service policy" "host_listener_rules service = Inr rules"
    and st': "st' = host_entry sid rules st"
  obtain ps fs where r: "rules = (ps, fs)" by (cases rules)
  have "host_declared effective services P" if "P (ps, fs)" for P
    using m that r unfolding host_declared_def by blast
  then show ?thesis
    using assms(3) unfolding projected_def st' r host_entry_def by auto
qed (use assms(3) in simp)

lemma application_origin:
  assumes "compile_application_projection sha256 ip_network effective lan = Inr (objects, m)"
  obtains lan_zone services st st' where "lan = JStr lan_zone" "dget effective ''services'' JNull = JObj services"
    "for_each (sort_key fst services) (project_service sha256 ip_network lan_zone effective) no_projection = Inr st"
    "projected sha256 ip_network lan_zone effective services st"
    "host_listener_object sha256 lan_zone st = Inr st'" "objects = fw_objects st'" "m = manifest_of objects (fw_owners st')"
proof -
  obtain lan_zone services st st' where lan: "lan = JStr lan_zone" and services: "dget effective ''services'' JNull = JObj services"
    and run: "for_each (sort_key fst services) (project_service sha256 ip_network lan_zone effective) no_projection = Inr st"
    and host: "host_listener_object sha256 lan_zone st = Inr st'"
    and out: "objects = fw_objects st'" "m = manifest_of objects (fw_owners st')"
    using assms
    by (auto simp: compile_application_projection_def validate_lan_zone_def res_simps split: json.splits if_splits)
  have "projected sha256 ip_network lan_zone effective services st"
    using run
  proof (rule for_each_invariant)
    show "projected sha256 ip_network lan_zone effective services no_projection"
      by (simp add: projected_def no_projection_def)
  next
    fix x t t'
    assume "x \<in> set (sort_key fst services)" "projected sha256 ip_network lan_zone effective services t"
      "project_service sha256 ip_network lan_zone effective x t = Inr t'"
    then show "projected sha256 ip_network lan_zone effective services t'"
      using project_service_projected [of sha256 ip_network lan_zone effective "fst x" "snd x" t t' services] by simp
  qed
  then show thesis using that lan services run host out by blast
qed

definition host_listeners :: "digest \<Rightarrow> string \<Rightarrow> json_dict \<Rightarrow> json_dict \<Rightarrow> string \<times> fw_object \<Rightarrow> bool" where
  "host_listeners sha256 lan_zone effective services x \<longleftrightarrow>
     (\<exists>ports forwards. x = (''policies/'' @ host_listener_policy_name sha256,
        drop_ports (host_listener_policy_name sha256) lan_zone ''HOST'' ports forwards) \<and>
        (\<forall>p \<in> set ports. host_declared effective services (\<lambda>(ps, fs). p \<in> set ps)) \<and>
        (\<forall>f \<in> set forwards. host_declared effective services (\<lambda>(ps, fs). f \<in> set fs)) \<and> (ports \<noteq> [] \<or> forwards \<noteq> []))"

lemma sort_remdups_Nil [simp]: "sort (remdups xs) = [] \<longleftrightarrow> xs = []"
  by (metis set_empty set_remdups set_sort)

lemma host_listener_object_cases:
  assumes "host_listener_object sha256 lan_zone st = Inr st'"
  shows "st' = st \<or> (dict_get (fw_objects st) (''policies/'' @ host_listener_policy_name sha256) = None \<and>
    (fw_host_ports st \<noteq> [] \<or> fw_host_forwards st \<noteq> []) \<and>
    fw_objects st' = dict_set (''policies/'' @ host_listener_policy_name sha256) (drop_ports (host_listener_policy_name sha256)
      lan_zone ''HOST'' (sort (remdups (fw_host_ports st))) (sort (remdups (fw_host_forwards st)))) (fw_objects st) \<and>
    fw_owners st' = fw_owners st @ map (\<lambda>sid. (sid, ''policies/'' @ host_listener_policy_name sha256)) (fw_host_owners st))"
  using assms by (auto simp: host_listener_object_def Let_def split: if_splits)

lemma application_objects:
  assumes "compile_application_projection sha256 ip_network effective (JStr lan_zone) = Inr (objects, m)"
    and "dget effective ''services'' JNull = JObj services" and "dict_get objects t = Some v"
  shows "from_isolated sha256 ip_network lan_zone effective services (t, v) \<or> host_listeners sha256 lan_zone effective services (t, v)"
proof -
  obtain st st' where proj: "projected sha256 ip_network lan_zone effective services st"
    and host: "host_listener_object sha256 lan_zone st = Inr st'" and objects: "objects = fw_objects st'"
    by (rule application_origin [OF assms(1)]) (use assms(2) in simp)
  show ?thesis
  proof (cases "st' = st")
    case True
    then show ?thesis using proj assms(3) objects by (simp add: projected_def)
  next
    case False
    let ?name = "host_listener_policy_name sha256"
    let ?obj = "drop_ports ?name lan_zone ''HOST'' (sort (remdups (fw_host_ports st))) (sort (remdups (fw_host_forwards st)))"
    have "fw_objects st' = dict_set (''policies/'' @ ?name) ?obj (fw_objects st)"
      and ne: "fw_host_ports st \<noteq> [] \<or> fw_host_forwards st \<noteq> []"
      using host_listener_object_cases [OF host] False by simp_all
    then have get: "dict_get objects t = (if t = ''policies/'' @ ?name then Some ?obj else dict_get (fw_objects st) t)"
      by (simp add: objects dict_simps)
    show ?thesis
    proof (cases "t = ''policies/'' @ ?name")
      case True
      then have v: "v = ?obj" using get assms(3) by simp
      have "host_listeners sha256 lan_zone effective services (t, v)"
        unfolding host_listeners_def
        by (rule exI [of _ "sort (remdups (fw_host_ports st))"], rule exI [of _ "sort (remdups (fw_host_forwards st))"])
          (use proj ne in \<open>simp add: True v projected_def\<close>)
      then show ?thesis ..
    next
      case False
      then show ?thesis using get assms(3) proj by (simp add: projected_def)
    qed
  qed
qed

lemma fold_dict_set_length:
  "length (fold (\<lambda>(k, v). dict_set k v) app d) \<le> length d + length app"
proof (induction app arbitrary: d)
  case (Cons x app)
  have "length (dict_set (fst x) (snd x) d) \<le> Suc (length d)" by (induction d) auto
  then show ?case using Cons.IH [of "dict_set (fst x) (snd x) d"] by (simp add: case_prod_beta)
qed simp

lemma fold_dict_set_append:
  assumes "length (fold (\<lambda>(k, v). dict_set k v) app d) = length d + length app" and "distinct (map fst d)"
  shows "fold (\<lambda>(k, v). dict_set k v) app d = d @ app \<and> distinct (map fst (d @ app))"
  using assms
proof (induction app arbitrary: d)
  case (Cons x app)
  obtain k v where x: "x = (k, v)" by (cases x)
  have step: "length (fold (\<lambda>(k, v). dict_set k v) app (dict_set k v d)) = length d + Suc (length app)"
    using Cons.prems(1) by (simp add: x)
  have free: "k \<notin> fst ` set d"
  proof
    assume "k \<in> fst ` set d"
    then have "length (dict_set k v d) = length d" by (induction d) auto
    then show False using step fold_dict_set_length [of app "dict_set k v d"] by simp
  qed
  then have "dict_set k v d = d @ [(k, v)]" by (induction d) auto
  then show ?case using Cons.IH [of "d @ [(k, v)]"] step free Cons.prems(2) by (auto simp: x)
qed simp

lemma projection_parts:
  assumes "compile_projection sha256 ip_network effective lan = Inr (objects, m)"
  obtains lan_zone app am services where "lan = JStr lan_zone" "dget effective ''services'' JNull = JObj services"
    "compile_application_projection sha256 ip_network effective (JStr lan_zone) = Inr (app, am)"
    "objects = (''policies/'' @ remote_admin_policy_name sha256, FwPolicy ((bare_policy (remote_admin_policy_name sha256)
       ''CONTINUE'' (- 300) lan_zone ''HOST'')\<lparr>fw_ports := remote_admin_ports\<rparr>)) # app"
    "distinct (map fst objects)"
    "m = manifest_of objects ((''_remote-admin'', ''policies/'' @ remote_admin_policy_name sha256) # manifest_owners am)"
proof -
  let ?admin = "(''policies/'' @ remote_admin_policy_name sha256, FwPolicy ((bare_policy (remote_admin_policy_name sha256)
       ''CONTINUE'' (- 300) (case lan of JStr z \<Rightarrow> z | _ \<Rightarrow> []) ''HOST'')\<lparr>fw_ports := remote_admin_ports\<rparr>))"
  obtain app am where app: "compile_application_projection sha256 ip_network effective lan = Inr (app, am)"
    and len: "length (fold (\<lambda>(k, v). dict_set k v) app [?admin]) = length [?admin] + length app"
    and objects: "objects = fold (\<lambda>(k, v). dict_set k v) app [?admin]"
    and m: "m = manifest_of objects ((''_remote-admin'', ''policies/'' @ remote_admin_policy_name sha256) # manifest_owners am)"
    using assms
    by (auto simp: compile_projection_def compile_remote_admin_projection_def validate_lan_zone_def res_simps Let_def policy_object_ok
        split: json.splits if_splits)
  obtain lan_zone services where l: "lan = JStr lan_zone" "dget effective ''services'' JNull = JObj services"
    using application_origin [OF app] by blast
  have o: "objects = ?admin # app" "distinct (map fst objects)"
    using fold_dict_set_append [OF len] by (simp_all add: objects)
  show thesis using that [of lan_zone services app am] app l o m by simp
qed

section \<open>Guarantees of the projection\<close>

lemma drop_ports_simps:
  "FwPolicy p = drop_ports n i e ps fs \<Longrightarrow> fw_target p = ''DROP'' \<and> fw_priority p = - 50 \<and> fw_ingress p = i \<and> fw_egress p = e \<and>
     fw_ports p = ps \<and> fw_forwards p = fs \<and> fw_rules p = []"
  by (auto simp: drop_ports_def)

lemma lan_object_simps:
  "FwPolicy p = lan_object sha256 z sid policy \<Longrightarrow> fw_target p = (if flag policy ''lanAccess'' then ''ACCEPT'' else ''DROP'') \<and>
     fw_priority p = - 100 \<and> fw_egress p = z \<and> fw_ports p = [] \<and> fw_forwards p = [] \<and> fw_rules p = []"
  by (auto simp: lan_object_def)

lemma world_object_simps:
  "FwPolicy p = world_object sha256 sid policy rules \<Longrightarrow>
     fw_target p = (if dget policy ''outboundDefault'' (JStr ''allow'') = JStr ''allow'' then ''ACCEPT'' else ''DROP'') \<and>
     fw_priority p = 50 \<and> fw_egress p = ''ANY'' \<and> fw_ports p = [] \<and> fw_forwards p = [] \<and> fw_rules p = rules"
  by (auto simp: world_object_def)

lemmas object_simps = drop_ports_simps lan_object_simps world_object_simps

text \<open>The policies of one isolated service.\<close>

definition isolated_policy :: "digest \<Rightarrow> (string \<Rightarrow> (bool \<times> string) option) \<Rightarrow> string \<Rightarrow> string \<Rightarrow> json_dict \<Rightarrow> json_dict \<Rightarrow> fw_policy \<Rightarrow> bool" where
  "isolated_policy sha256 ip_network lan_zone sid service policy p \<longleftrightarrow>
     (\<exists>ports. allowed_host_ports policy = Inr ports \<and> FwPolicy p = host_object sha256 sid ports) \<or>
     FwPolicy p = lan_object sha256 lan_zone sid policy \<or>
     (\<exists>rules. allowed_egress ip_network policy = Inr rules \<and> FwPolicy p = world_object sha256 sid policy rules) \<or>
     (\<exists>routes. route_ports service = Inr routes \<and> routes \<noteq> [] \<and>
        FwPolicy p = drop_ports (route_policy_name sha256 sid) ''HOST'' (zone_name sha256 sid) routes []) \<or>
     (\<exists>listeners. declared_listener_ports service = Inr listeners \<and> listeners \<noteq> [] \<and>
        FwPolicy p = drop_ports (listener_policy_name sha256 sid) lan_zone (zone_name sha256 sid) listeners [])"

lemma from_isolated_policy:
  assumes "from_isolated sha256 ip_network lan_zone effective services (t, FwPolicy p)"
  shows "\<exists>sid service policy. in_mode effective services ''isolated'' sid service policy \<and> flag_on service ''managed'' \<and>
    isolated_policy sha256 ip_network lan_zone sid service policy p"
proof -
  obtain sid service policy gen where m: "in_mode effective services ''isolated'' sid service policy"
    and g: "isolated_objects sha256 ip_network lan_zone sid service policy = Inr gen" and x: "(t, FwPolicy p) \<in> set gen"
    using assms unfolding from_isolated_def by blast
  have "flag_on service ''managed'' \<and> isolated_policy sha256 ip_network lan_zone sid service policy p"
    using isolated_objects_shape [OF g] x unfolding isolated_policy_def
    by (elim exE conjE) (auto simp: zone_def split: if_splits)
  with m show ?thesis by blast
qed

lemma isolated_policy_priority:
  "isolated_policy sha256 ip_network lan_zone sid service policy p \<Longrightarrow> fw_priority p \<in> {- 100, - 50, 50}"
  unfolding isolated_policy_def host_object_def by (elim disjE exE conjE) (auto dest: object_simps)

text \<open>
  C14: the projection always holds the policy that keeps SSH and HTTPS of the appliance
  reachable from the LAN, and firewalld evaluates it before every other projected policy:
  no service can lock the administrator out.
\<close>

theorem remote_admin_first:
  assumes "compile_projection sha256 ip_network effective (JStr lan_zone) = Inr (objects, m)"
  shows "dict_get objects (''policies/'' @ remote_admin_policy_name sha256) =
      Some (FwPolicy ((bare_policy (remote_admin_policy_name sha256) ''CONTINUE'' (- 300) lan_zone ''HOST'')
        \<lparr>fw_ports := [(''22'', ''tcp''), (''443'', ''tcp'')]\<rparr>)) \<and>
    (\<forall>t p. dict_get objects t = Some (FwPolicy p) \<and> t \<noteq> ''policies/'' @ remote_admin_policy_name sha256 \<longrightarrow> - 300 < fw_priority p)"
proof -
  let ?admin = "''policies/'' @ remote_admin_policy_name sha256"
  obtain app am services where app: "compile_application_projection sha256 ip_network effective (JStr lan_zone) = Inr (app, am)"
    and services: "dget effective ''services'' JNull = JObj services"
    and objects: "objects = (?admin, FwPolicy ((bare_policy (remote_admin_policy_name sha256)
       ''CONTINUE'' (- 300) lan_zone ''HOST'')\<lparr>fw_ports := remote_admin_ports\<rparr>)) # app"
    by (rule projection_parts [OF assms]) auto
  have "- 300 < fw_priority p" if "dict_get objects t = Some (FwPolicy p)" "t \<noteq> ?admin" for t p
  proof -
    have "dict_get app t = Some (FwPolicy p)" using that by (simp add: objects)
    then consider "from_isolated sha256 ip_network lan_zone effective services (t, FwPolicy p)"
      | "host_listeners sha256 lan_zone effective services (t, FwPolicy p)"
      using application_objects [OF app services] by blast
    then show ?thesis
    proof cases
      case 1
      then show ?thesis using from_isolated_policy isolated_policy_priority by fastforce
    next
      case 2
      then show ?thesis unfolding host_listeners_def by (auto dest: drop_ports_simps)
    qed
  qed
  then show ?thesis by (simp add: objects remote_admin_ports_def)
qed

lemma any_requires_False:
  "any_requires effective vs = Inr False \<Longrightarrow> v \<in> set vs \<Longrightarrow> service_requires_firewalld effective v = Inr False"
  by (induction vs) (auto simp: res_simps split: if_splits)

lemma requires_firewalld_False:
  assumes "requires_firewalld effective = Inr False" and "dget effective ''services'' JNull = JObj services"
    and "in_mode effective services mode sid service policy"
  shows "mode = ''isolated'' \<Longrightarrow> flag_on service ''managed'' \<Longrightarrow> \<not> needs_isolated_firewalld service policy"
    and "mode = ''host'' \<Longrightarrow> \<not> listener_firewall_requested service"
proof -
  have "service_requires_firewalld effective (JObj service) = Inr False"
    using assms unfolding requires_firewalld_def in_mode_def by (force intro: any_requires_False)
  then show "mode = ''isolated'' \<Longrightarrow> flag_on service ''managed'' \<Longrightarrow> \<not> needs_isolated_firewalld service policy"
    and "mode = ''host'' \<Longrightarrow> \<not> listener_firewall_requested service"
    using assms(3) unfolding in_mode_def by (auto simp: service_requires_firewalld_def Let_def)
qed

lemma iter_falsy: "\<not> flag d k \<Longrightarrow> iter (dget d k (JList [])) = Inr xs \<Longrightarrow> xs = []"
  by (cases "dict_get d k"; cases "the (dict_get d k)") (auto simp: dget_def)

lemma nothing_allowed:
  assumes "\<not> needs_isolated_firewalld service policy"
  shows "allowed_host_ports policy = Inr ports \<Longrightarrow> ports = []" "allowed_egress ip_network policy = Inr rules \<Longrightarrow> rules = []"
    "route_ports service = Inr routes \<Longrightarrow> routes = []" "declared_listener_ports service = Inr listeners \<Longrightarrow> listeners = []"
    "\<not> flag policy ''lanAccess''" "dget policy ''outboundDefault'' (JStr ''allow'') \<noteq> JStr ''allow''"
proof -
  note closed = assms [unfolded needs_isolated_firewalld_def]
  show "allowed_host_ports policy = Inr ports \<Longrightarrow> ports = []" "allowed_egress ip_network policy = Inr rules \<Longrightarrow> rules = []"
    using closed iter_falsy by (fastforce simp: allowed_host_ports_def allowed_egress_def res_simps both_protocols_def)+
  show "route_ports service = Inr routes \<Longrightarrow> routes = []"
    using closed by (auto simp: route_ports_def dget_def split: json.splits option.splits)
  show "declared_listener_ports service = Inr listeners \<Longrightarrow> listeners = []"
    using closed by (auto simp: declared_listener_ports_def iter_listeners_def has_listeners_def res_simps split: json.splits)
  show "\<not> flag policy ''lanAccess''" "dget policy ''outboundDefault'' (JStr ''allow'') \<noteq> JStr ''allow''"
    using closed by auto
qed

lemma firewall_listener_firewalled: "firewall_listener l = Inr (Some x) \<Longrightarrow> firewalled l"
  by (auto simp: firewall_listener_def firewalled_def split: json.splits if_splits)

lemma no_host_rules:
  assumes "\<not> listener_firewall_requested service" and "host_listener_rules service = Inr (ps, fs)"
  shows "ps = []" "fs = []"
proof -
  have "y = None" if os: "map_res (\<lambda>(_, l). firewall_listener l) ls = Inr os" and y: "y \<in> set os"
    and ls: "dget service ''listeners'' JEmpty = JObj ls" for ls os y
    using map_res_member [OF os y] firewall_listener_firewalled assms(1) ls
    by (cases y) (auto simp: listener_firewall_requested_def list_ex_iff)
  then have "iter_listeners service = Inr ls \<Longrightarrow> ls = []" for ls
    by (fastforce simp: iter_listeners_def and_then_Inr_iff filter_empty_conv simp del: not_None_eq split: json.splits)
  then show "ps = []" "fs = []" using assms(2) by (auto simp: host_listener_rules_def res_simps)
qed

text \<open>
  C27: when \<open>requires_firewalld\<close> answers no, skipping the firewall loses nothing: every policy that
  the application projection would install drops, and opens no port, forwards none and has
  no exception.
\<close>

theorem closed_without_firewalld:
  assumes "requires_firewalld effective = Inr False"
    and "compile_application_projection sha256 ip_network effective lan = Inr (objects, m)"
    and "dict_get objects t = Some (FwPolicy p)"
  shows "fw_target p = ''DROP'' \<and> fw_ports p = [] \<and> fw_forwards p = [] \<and> fw_rules p = []"
proof -
  obtain lan_zone services where lan: "lan = JStr lan_zone" and services: "dget effective ''services'' JNull = JObj services"
    by (rule application_origin [OF assms(2)]) auto
  note closed = requires_firewalld_False [OF assms(1) services]
  consider "from_isolated sha256 ip_network lan_zone effective services (t, FwPolicy p)"
    | "host_listeners sha256 lan_zone effective services (t, FwPolicy p)"
    using application_objects [OF assms(2) [unfolded lan] services assms(3)] by blast
  then show ?thesis
  proof cases
    case 1
    then obtain sid service policy where m: "in_mode effective services ''isolated'' sid service policy" "flag_on service ''managed''"
      and p: "isolated_policy sha256 ip_network lan_zone sid service policy p"
      using from_isolated_policy by blast
    note none = nothing_allowed [OF closed(1) [OF m(1) refl m(2)]]
    show ?thesis using p none unfolding isolated_policy_def host_object_def
      by (elim disjE exE conjE) (auto dest: object_simps)
  next
    case 2
    have "\<not> host_declared effective services (\<lambda>(ps, fs). x \<in> set ps)" "\<not> host_declared effective services (\<lambda>(ps, fs). y \<in> set fs)" for x y
      using closed(2) no_host_rules unfolding host_declared_def by (fastforce split: prod.splits)+
    then have "\<forall>x \<in> set ports. host_declared effective services (\<lambda>(ps, fs). x \<in> set ps) \<Longrightarrow> ports = []"
      "\<forall>y \<in> set forwards. host_declared effective services (\<lambda>(ps, fs). y \<in> set fs) \<Longrightarrow> forwards = []" for ports forwards
      by (metis last_in_set)+
    then show ?thesis using 2 unfolding host_listeners_def by blast
  qed
qed





lemma project_services_isolated:
  assumes "for_each xs (project_service sha256 ip_network lan_zone effective) st0 = Inr st" and "(sid, JObj service) \<in> set xs"
    and "in_mode effective services ''isolated'' sid service policy"
  shows "\<exists>gen. isolated_objects sha256 ip_network lan_zone sid service policy = Inr gen \<and>
    (\<forall>t v. (t, v) \<in> set gen \<longrightarrow> dict_get (fw_objects st) t = Some v)"
proof -
  obtain ys t t' where step: "project_service sha256 ip_network lan_zone effective (sid, JObj service) t = Inr t'"
    and rest: "for_each ys (project_service sha256 ip_network lan_zone effective) t' = Inr st"
    by (rule for_each_set_at [OF assms(1,2)]) auto
  obtain gen where g: "isolated_objects sha256 ip_network lan_zone sid service policy = Inr gen"
    and add: "for_each gen (add_object sid) t = Inr t'"
    using step assms(3) by (auto simp: project_service_def in_mode_def res_simps)
  show ?thesis
    using g project_services_mono [OF rest add_objects(2) [OF add]] by blast
qed

lemma isolated_service_objects:
  assumes "compile_projection sha256 ip_network effective (JStr lan_zone) = Inr (objects, m)"
    and "dget effective ''services'' JNull = JObj services" and "in_mode effective services ''isolated'' sid service policy"
  shows "\<exists>ports rules. allowed_host_ports policy = Inr ports \<and> allowed_egress ip_network policy = Inr rules \<and>
    dict_get objects (''zones/'' @ zone_name sha256 sid) = Some (FwZone (zone_name sha256 sid) (bridge_interface_name sha256 sid)) \<and>
    dict_get objects (''policies/'' @ host_policy_name sha256 sid) = Some (host_object sha256 sid ports) \<and>
    dict_get objects (''policies/'' @ lan_policy_name sha256 sid) = Some (lan_object sha256 lan_zone sid policy) \<and>
    dict_get objects (''policies/'' @ world_policy_name sha256 sid) = Some (world_object sha256 sid policy rules)"
proof -
  let ?admin = "''policies/'' @ remote_admin_policy_name sha256"
  obtain app am services' where app: "compile_application_projection sha256 ip_network effective (JStr lan_zone) = Inr (app, am)"
    and objects: "objects = (?admin, FwPolicy ((bare_policy (remote_admin_policy_name sha256)
       ''CONTINUE'' (- 300) lan_zone ''HOST'')\<lparr>fw_ports := remote_admin_ports\<rparr>)) # app"
    by (rule projection_parts [OF assms(1)]) auto
  obtain st st' where run: "for_each (sort_key fst services) (project_service sha256 ip_network lan_zone effective) no_projection = Inr st"
    and host: "host_listener_object sha256 lan_zone st = Inr st'" and app': "app = fw_objects st'"
    by (rule application_origin [OF app]) (use assms(2) in auto)
  have "(sid, JObj service) \<in> set (sort_key fst services)" using assms(3) by (simp add: in_mode_def)
  then obtain gen where g: "isolated_objects sha256 ip_network lan_zone sid service policy = Inr gen"
    and gen: "\<And>t v. (t, v) \<in> set gen \<Longrightarrow> dict_get (fw_objects st) t = Some v"
    using project_services_isolated [OF run _ assms(3)] by blast
  have keep: "dict_get app t = Some v" if "dict_get (fw_objects st) t = Some v" for t v
    using host_listener_object_cases [OF host] that by (auto simp: app' dict_simps)
  obtain ports rules tail where "allowed_host_ports policy = Inr ports" "allowed_egress ip_network policy = Inr rules"
    "gen = [(''zones/'' @ zone_name sha256 sid, zone sha256 sid),
      (''policies/'' @ host_policy_name sha256 sid, host_object sha256 sid ports),
      (''policies/'' @ lan_policy_name sha256 sid, lan_object sha256 lan_zone sid policy),
      (''policies/'' @ world_policy_name sha256 sid, world_object sha256 sid policy rules)] @ tail"
    using isolated_objects_shape [OF g] by blast
  then show ?thesis
    using keep [OF gen] by (simp add: objects zone_def remote_admin_policy_name_def host_policy_name_def lan_policy_name_def
        world_policy_name_def zone_name_def)
qed

text \<open>
  C9: an isolated service is confined by default. The projection gives it a zone on its own
  bridge, a policy towards the appliance that drops all but the ports it lists, a policy
  towards the LAN that drops unless LAN access is granted, and a policy towards everything
  else that drops, up to the listed networks, unless the outbound default is to allow.
\<close>

theorem isolated_service_confined:
  assumes "compile_projection sha256 ip_network effective (JStr lan_zone) = Inr (objects, m)"
    and "dget effective ''services'' JNull = JObj services" and "in_mode effective services ''isolated'' sid service policy"
  shows "\<exists>ports rules. allowed_host_ports policy = Inr ports \<and> allowed_egress ip_network policy = Inr rules \<and>
    dict_get objects (''zones/'' @ zone_name sha256 sid) = Some (FwZone (zone_name sha256 sid) (bridge_interface_name sha256 sid)) \<and>
    dict_get objects (''policies/'' @ host_policy_name sha256 sid) = Some (host_object sha256 sid ports) \<and>
    dict_get objects (''policies/'' @ lan_policy_name sha256 sid) = Some (lan_object sha256 lan_zone sid policy) \<and>
    dict_get objects (''policies/'' @ world_policy_name sha256 sid) = Some (world_object sha256 sid policy rules)"
  by (rule isolated_service_objects [OF assms])

text \<open>
  ownership is complete. The targets named by the owners of the manifest are exactly the
  projected objects, and the manifest lists exactly those objects, so that the reconciler
  never meets an object without a service to account for it.
\<close>

theorem projection_owned:
  assumes "compile_projection sha256 ip_network effective lan = Inr (objects, m)"
  shows "snd ` set (manifest_owners m) = fst ` set objects \<and> set (manifest_objects m) = snd ` set objects \<and>
    distinct (map fst objects) \<and> sorted (manifest_owners m)"
proof -
  let ?admin = "''policies/'' @ remote_admin_policy_name sha256"
  obtain lan_zone app am v where app: "compile_application_projection sha256 ip_network effective (JStr lan_zone) = Inr (app, am)"
    and objects: "objects = (?admin, v) # app" and d: "distinct (map fst objects)"
    and m: "m = manifest_of objects ((''_remote-admin'', ?admin) # manifest_owners am)"
    by (rule projection_parts [OF assms]) auto
  obtain st st' where own: "snd ` set (fw_owners st) = fst ` set (fw_objects st)"
    and some: "fw_host_ports st \<noteq> [] \<or> fw_host_forwards st \<noteq> [] \<longrightarrow> fw_host_owners st \<noteq> []"
    and host: "host_listener_object sha256 lan_zone st = Inr st'" and out: "app = fw_objects st'" "am = manifest_of app (fw_owners st')"
    by (rule application_origin [OF app]) (auto simp: projected_def)
  have "snd ` set (fw_owners st') = fst ` set app"
  proof (cases "st' = st")
    case False
    let ?t = "''policies/'' @ host_listener_policy_name sha256"
    have c: "fw_host_ports st \<noteq> [] \<or> fw_host_forwards st \<noteq> []" "fst ` set app = insert ?t (fst ` set (fw_objects st))"
      "fw_owners st' = fw_owners st @ map (\<lambda>sid. (sid, ?t)) (fw_host_owners st)"
      using host_listener_object_cases [OF host] False by (auto simp: out update_keys dict_keys dict_simps)
    have "snd ` set (map (\<lambda>sid. (sid, ?t)) (fw_host_owners st)) = {?t}"
      using some c(1) by (cases "fw_host_owners st") (auto simp: image_image)
    then show ?thesis by (simp add: c own image_Un)
  qed (simp add: out own)
  then have "snd ` set (manifest_owners m) = fst ` set objects"
    by (simp add: m manifest_of_def objects out set_insort_key)
  moreover have "set (manifest_objects m) = snd ` set objects" "sorted (manifest_owners m)"
    by (simp_all add: m manifest_of_def sorted_insort del: sort_key_simps)
  ultimately show ?thesis using d by blast
qed

text \<open>
  C32: the names and the routing table of a VLAN binding are usable: interface names fit the
  15 characters that Linux allows, the table number lies in the range reserved for the
  appliance and fits 32 bits, and the identifier is a valid VLAN identifier.
\<close>

theorem vlan_binding_bounds:
  assumes "vlan_binding sha256 policy = Inr (Some v)"
  shows "1 \<le> vlan_id v \<and> vlan_id v \<le> 4094 \<and> 1000000000 \<le> vlan_table v \<and> vlan_table v < 2 ^ 32 \<and>
    length (vrf_interface v) \<le> 15 \<and> length (vlan_interface v) \<le> 15 \<and> interface_name_ok (vlan_parent v) \<and>
    length (bridge_interface_name sha256 sid) \<le> 15"
proof -
  obtain n p where v: "v = vlan_of sha256 n p" and n: "1 \<le> n" "n \<le> 4094" and p: "interface_name_ok p"
    using assms by (auto simp: vlan_binding_def Let_def res_simps split: if_splits json.splits)
  have "0 \<le> hex_number d mod 3000000000" "hex_number d mod 3000000000 < 3294967296" for d
    using pos_mod_bound [of 3000000000 "hex_number d"] by simp_all
  then have t: "1000000000 \<le> vlan_table v" "vlan_table v < 2 ^ 32"
    by (simp_all add: v vlan_of_def Let_def)
  have "length (vrf_interface v) \<le> 15" "length (vlan_interface v) \<le> 15" "length (bridge_interface_name sha256 sid) \<le> 15"
    by (auto simp: v vlan_of_def Let_def bridge_interface_name_def min_def)
  moreover have "vlan_id v = n" "vlan_parent v = p" by (simp_all add: v vlan_of_def Let_def)
  ultimately show ?thesis using n p t by simp
qed

theorem vlan_binding_bounds_witness:
  "\<exists>v. vlan_binding (\<lambda>s. ''ab'') [(''vlanId'', JInt 2), (''vlanParent'', JStr ''eth0'')] = Inr (Some v) \<and>
    length (vrf_interface v) \<le> 15 \<and> vlan_table v < 2 ^ 32"
proof -
  have "vlan_binding (\<lambda>s. ''ab'') [(''vlanId'', JInt 2), (''vlanParent'', JStr ''eth0'')] = Inr (Some (vlan_of (\<lambda>s. ''ab'') 2 ''eth0''))"
    by (simp add: vlan_binding_def dget_def interface_name_ok_def interface_char_def is_lower_def is_digit_def)
  then show ?thesis using vlan_binding_bounds by blast
qed

section \<open>A concrete projection\<close>

definition isolated_sample :: json_dict where
  "isolated_sample = [(''runtime'', JObj [(''type'', JStr ''oci'')]), (''network'', JObj [(''mode'', JStr ''isolated''),
     (''outboundDefault'', JStr ''deny''), (''allowedHostPorts'', JList [JInt 5])])]"

definition sample_host :: json_dict where
  "sample_host = [(''listeners'', JObj [(''l'', JObj [(''protocol'', JStr ''tcp''), (''exposure'', JObj [(''port'', JInt 7)])])])]"

definition sample_network :: json_dict where
  "sample_network = [(''services'', JObj [(''a'', JObj isolated_sample), (''b'', JObj sample_host)])]"

definition sample_projection :: "(fw_table \<times> fw_manifest) res" where
  "sample_projection = compile_projection (\<lambda>s. s) (\<lambda>_. None) sample_network (JStr ''lan'')"

lemma sample_compiled:
  "compile_projection (\<lambda>s. s) (\<lambda>_. None) sample_network (JStr ''lan'') =
     Inr (fst (projr sample_projection), snd (projr sample_projection))"
proof -
  have "\<not> isl sample_projection" by code_simp
  then show ?thesis using right_result [of sample_projection] unfolding sample_projection_def by simp
qed

lemma network_sample_services:
  "dget sample_network ''services'' JNull = JObj [(''a'', JObj isolated_sample), (''b'', JObj sample_host)]"
  by (simp add: sample_network_def dget_def)

theorem remote_admin_first_witness:
  "\<exists>objects m. compile_projection (\<lambda>s. s) (\<lambda>_. None) sample_network (JStr ''lan'') = Inr (objects, m) \<and>
    dict_get objects (''policies/'' @ remote_admin_policy_name (\<lambda>s. s)) \<noteq> None"
proof (intro exI conjI)
  show "compile_projection (\<lambda>s. s) (\<lambda>_. None) sample_network (JStr ''lan'') =
      Inr (fst (projr sample_projection), snd (projr sample_projection))" by (rule sample_compiled)
  show "dict_get (fst (projr sample_projection)) (''policies/'' @ remote_admin_policy_name (\<lambda>s. s)) \<noteq> None"
    using remote_admin_first [OF sample_compiled] by (metis option.distinct(1))
qed

theorem projection_owned_witness:
  "\<exists>objects m. compile_projection (\<lambda>s. s) (\<lambda>_. None) sample_network (JStr ''lan'') = Inr (objects, m) \<and>
    snd ` set (manifest_owners m) = fst ` set objects"
  using projection_owned [OF sample_compiled] sample_compiled by blast

theorem isolated_service_confined_witness:
  "\<exists>objects m policy. compile_projection (\<lambda>s. s) (\<lambda>_. None) sample_network (JStr ''lan'') = Inr (objects, m) \<and>
    network_policy sample_network isolated_sample = Inr policy \<and>
    dict_get objects (''policies/'' @ lan_policy_name (\<lambda>s. s) ''a'') = Some (lan_object (\<lambda>s. s) ''lan'' ''a'' policy)"
proof -
  have m: "in_mode sample_network [(''a'', JObj isolated_sample), (''b'', JObj sample_host)] ''isolated'' ''a'' isolated_sample
      (projr (network_policy sample_network isolated_sample))"
    unfolding in_mode_def by code_simp
  show ?thesis
    using isolated_service_confined [OF sample_compiled network_sample_services m] sample_compiled m unfolding in_mode_def by blast
qed


definition closed_service :: json_dict where
  "closed_service = [(''runtime'', JObj [(''type'', JStr ''oci'')]),
     (''network'', JObj [(''mode'', JStr ''isolated''), (''outboundDefault'', JStr ''deny'')])]"

theorem closed_without_firewalld_witness:
  "\<exists>objects m p. requires_firewalld [(''services'', JObj [(''a'', JObj closed_service)])] = Inr False \<and>
    compile_application_projection (\<lambda>s. s) (\<lambda>_. None) [(''services'', JObj [(''a'', JObj closed_service)])] (JStr ''lan'') = Inr (objects, m) \<and>
    dict_get objects (''policies/'' @ world_policy_name (\<lambda>s. s) ''a'') = Some (FwPolicy p) \<and> fw_target p = ''DROP''"
proof -
  let ?e = "[(''services'', JObj [(''a'', JObj closed_service)])]"
  let ?out = "compile_application_projection (\<lambda>s. s) (\<lambda>_. None) ?e (JStr ''lan'')"
  let ?name = "''policies/'' @ world_policy_name (\<lambda>s. s) ''a''"
  define p where "p = (case dict_get (fst (projr ?out)) ?name of Some (FwPolicy q) \<Rightarrow> q | _ \<Rightarrow> bare_policy [] [] 0 [] [])"
  have r: "requires_firewalld ?e = Inr False" by code_simp
  have "\<not> isl ?out" by code_simp
  then have o: "?out = Inr (fst (projr ?out), snd (projr ?out))" using right_result by simp
  have p: "dict_get (fst (projr ?out)) ?name = Some (FwPolicy p)" unfolding p_def by code_simp
  show ?thesis using closed_without_firewalld [OF r o p] r o p by blast
qed

end
