(* ===== verification/Effects.thy ===== *)
theory Effects
  imports Py_Prelude
begin

text \<open>
  Computations that change a state and may raise: the result is paired with the state that is
  left behind, also by an exception. The laws below invert a successful run and carry a
  property of the state through a program.
\<close>

type_synonym ('s, 'a) act = "'s \<Rightarrow> 'a res \<times> 's"

named_theorems act_simps "inversion of runs"
named_theorems keeps_intros "properties kept by a program"

definition ret :: "'a \<Rightarrow> ('s, 'a) act" where
  "ret x s = (Inr x, s)"

definition raise :: "exn \<Rightarrow> ('s, 'a) act" where
  "raise e s = (Inl e, s)"

definition lift_res :: "'a res \<Rightarrow> ('s, 'a) act" where
  "lift_res r s = (r, s)"

definition bind :: "('s, 'a) act \<Rightarrow> ('a \<Rightarrow> ('s, 'b) act) \<Rightarrow> ('s, 'b) act" where
  "bind m k s = (case m s of (Inl e, t) \<Rightarrow> (Inl e, t) | (Inr x, t) \<Rightarrow> k x t)"

definition gets :: "('s \<Rightarrow> 'a) \<Rightarrow> ('s, 'a) act" where
  "gets f s = (Inr (f s), s)"

definition modify :: "('s \<Rightarrow> 's) \<Rightarrow> ('s, unit) act" where
  "modify f s = (Inr (), f s)"

text \<open>\<open>try: m except e: h(e)\<close>, and \<open>try: m finally: h\<close> for a cleanup that does not raise.\<close>

definition handle :: "('s, 'a) act \<Rightarrow> (exn \<Rightarrow> ('s, 'a) act) \<Rightarrow> ('s, 'a) act" where
  "handle m h s = (case m s of (Inl e, t) \<Rightarrow> h e t | (Inr x, t) \<Rightarrow> (Inr x, t))"

definition finally_do :: "('s, 'a) act \<Rightarrow> ('s, unit) act \<Rightarrow> ('s, 'a) act" where
  "finally_do m h s = (case m s of (r, t) \<Rightarrow> (case h t of (Inl e, u) \<Rightarrow> (Inl e, u) | (Inr _, u) \<Rightarrow> (r, u)))"

fun each_act :: "('a \<Rightarrow> ('s, unit) act) \<Rightarrow> 'a list \<Rightarrow> ('s, unit) act" where
  "each_act f [] = ret ()"
| "each_act f (x # xs) = bind (f x) (\<lambda>_. each_act f xs)"

lemma run_simps [act_simps]:
  "ret x s = (r, t) \<longleftrightarrow> r = Inr x \<and> t = s" "raise e s = (r, t) \<longleftrightarrow> r = Inl e \<and> t = s"
  "lift_res q s = (r, t) \<longleftrightarrow> r = q \<and> t = s" "gets f s = (r, t) \<longleftrightarrow> r = Inr (f s) \<and> t = s"
  "modify g s = (w, t) \<longleftrightarrow> w = Inr () \<and> t = g s"
  by (auto simp: ret_def raise_def lift_res_def gets_def modify_def)

lemma bind_Inr_iff [act_simps]:
  "bind m k s = (Inr y, t) \<longleftrightarrow> (\<exists>x u. m s = (Inr x, u) \<and> k x u = (Inr y, t))"
  by (auto simp: bind_def split: prod.splits sum.splits)

lemma bind_Inl_iff:
  "bind m k s = (Inl e, t) \<longleftrightarrow> m s = (Inl e, t) \<or> (\<exists>x u. m s = (Inr x, u) \<and> k x u = (Inl e, t))"
  by (auto simp: bind_def split: prod.splits sum.splits)

lemma bind_run: "m s = (Inr x, u) \<Longrightarrow> bind m k s = k x u"
  by (simp add: bind_def)

text \<open>\<open>keeps I m\<close>: every run of \<open>m\<close>, successful or not, keeps the property \<open>I\<close> of the state.\<close>

definition keeps :: "('s \<Rightarrow> bool) \<Rightarrow> ('s, 'a) act \<Rightarrow> bool" where
  "keeps I m \<longleftrightarrow> (\<forall>s. I s \<longrightarrow> I (snd (m s)))"

lemma keepsD: "keeps I m \<Longrightarrow> I s \<Longrightarrow> m s = (r, t) \<Longrightarrow> I t"
  by (force simp: keeps_def)

lemma keeps_pure [keeps_intros]: "keeps I (ret x)" "keeps I (raise e)" "keeps I (lift_res q)" "keeps I (gets f)"
  by (simp_all add: keeps_def ret_def raise_def lift_res_def gets_def)

lemma keeps_modify: "(\<And>s. I s \<Longrightarrow> I (f s)) \<Longrightarrow> keeps I (modify f)"
  by (simp add: keeps_def modify_def)

lemma keeps_bind [keeps_intros]: "keeps I m \<Longrightarrow> (\<And>x. keeps I (k x)) \<Longrightarrow> keeps I (bind m k)"
  unfolding keeps_def bind_def by (auto split: prod.splits sum.splits)

lemma keeps_handle [keeps_intros]: "keeps I m \<Longrightarrow> (\<And>e. keeps I (h e)) \<Longrightarrow> keeps I (handle m h)"
  unfolding keeps_def handle_def by (auto split: prod.splits sum.splits)

lemma keeps_finally [keeps_intros]: "keeps I m \<Longrightarrow> keeps I h \<Longrightarrow> keeps I (finally_do m h)"
  unfolding keeps_def finally_do_def by (auto split: prod.splits sum.splits)

lemma keeps_if [keeps_intros]: "(b \<Longrightarrow> keeps I m) \<Longrightarrow> (\<not> b \<Longrightarrow> keeps I n) \<Longrightarrow> keeps I (if b then m else n)"
  by simp

lemma keeps_each [keeps_intros]: "(\<And>x. x \<in> set xs \<Longrightarrow> keeps I (f x)) \<Longrightarrow> keeps I (each_act f xs)"
  by (induction xs) (auto intro: keeps_intros)

section \<open>Specifications\<close>

text \<open>
  \<open>spec P m Q E\<close>: from a state with \<open>P\<close>, a run of \<open>m\<close> that returns \<open>x\<close> ends in \<open>Q x\<close> and one that
  raises ends in \<open>E\<close>.
\<close>

definition spec :: "('s \<Rightarrow> bool) \<Rightarrow> ('s, 'a) act \<Rightarrow> ('a \<Rightarrow> 's \<Rightarrow> bool) \<Rightarrow> ('s \<Rightarrow> bool) \<Rightarrow> bool" where
  "spec P m Q E \<longleftrightarrow> (\<forall>s. P s \<longrightarrow> (case m s of (Inr x, t) \<Rightarrow> Q x t | (Inl e, t) \<Rightarrow> E t))"

lemma specD: "spec P m Q E \<Longrightarrow> P s \<Longrightarrow> m s = (Inr x, t) \<Longrightarrow> Q x t"
  "spec P m Q E \<Longrightarrow> P s \<Longrightarrow> m s = (Inl e, t) \<Longrightarrow> E t"
  by (force simp: spec_def)+

lemma spec_pure:
  "(\<And>s. P s \<Longrightarrow> Q x s) \<Longrightarrow> spec P (ret x) Q E" "(\<And>s. P s \<Longrightarrow> E s) \<Longrightarrow> spec P (raise e) Q E"
  "(\<And>s. P s \<Longrightarrow> Q (f s) s) \<Longrightarrow> spec P (gets f) Q E"
  "(\<And>s x. P s \<Longrightarrow> r = Inr x \<Longrightarrow> Q x s) \<Longrightarrow> (\<And>s e. P s \<Longrightarrow> r = Inl e \<Longrightarrow> E s) \<Longrightarrow> spec P (lift_res r) Q E"
  by (auto simp: spec_def ret_def raise_def gets_def lift_res_def split: sum.splits)

lemma spec_bind: "spec P m R E \<Longrightarrow> (\<And>x. spec (R x) (k x) Q E) \<Longrightarrow> spec P (bind m k) Q E"
  unfolding spec_def bind_def by (fastforce split: prod.splits sum.splits)

lemma spec_handle: "spec P m Q F \<Longrightarrow> (\<And>e. spec F (h e) Q E) \<Longrightarrow> spec P (handle m h) Q E"
  unfolding spec_def handle_def by (fastforce split: prod.splits sum.splits)

lemma spec_finally:
  assumes "spec P m R F" and "\<And>x. spec (R x) h (\<lambda>_. Q x) E" and "spec F h (\<lambda>_. E) E"
  shows "spec P (finally_do m h) Q E"
  unfolding spec_def finally_do_def
proof (intro allI impI)
  fix s assume s: "P s"
  obtain r t where m: "m s = (r, t)" by (cases "m s")
  obtain q u where h: "h t = (q, u)" by (cases "h t")
  show "case case m s of (r, t) \<Rightarrow> (case h t of (Inl e, u) \<Rightarrow> (Inl e, u) | (Inr _, u) \<Rightarrow> (r, u)) of
      (Inl e, t) \<Rightarrow> E t | (Inr x, t) \<Rightarrow> Q x t"
  proof (cases r)
    case (Inl e)
    have "F t" using specD(2) [OF assms(1) s] m Inl by blast
    then show ?thesis using specD [OF assms(3)] m h Inl by (cases q) auto
  next
    case (Inr x)
    have "R x t" using specD(1) [OF assms(1) s] m Inr by blast
    then show ?thesis using specD [OF assms(2), of x t] m h Inr by (cases q) auto
  qed
qed

lemma spec_weaken:
  "spec P m Q E \<Longrightarrow> (\<And>s. P' s \<Longrightarrow> P s) \<Longrightarrow> (\<And>x s. Q x s \<Longrightarrow> Q' x s) \<Longrightarrow> (\<And>s. E s \<Longrightarrow> E' s) \<Longrightarrow> spec P' m Q' E'"
  unfolding spec_def by (fastforce split: prod.splits sum.splits)

lemma spec_if: "(b \<Longrightarrow> spec P m Q E) \<Longrightarrow> (\<not> b \<Longrightarrow> spec P n Q E) \<Longrightarrow> spec P (if b then m else n) Q E"
  by simp

lemma spec_keeps: "keeps I m \<Longrightarrow> spec I m (\<lambda>_. I) I"
  by (auto simp: keeps_def spec_def split: prod.splits sum.splits)

end
