(* ===== verification/V2_Firewalld.thy ===== *)
theory V2_Firewalld
  imports V2_Network Effects
begin

text \<open>
  The firewalld reconciler (\<open>services/nas_v2_firewalld_reconcile.py\<close>): the manifest that the
  network compiler wrote is read back and checked object by object, then the owned objects of
  the permanent configuration are replaced by the projected ones through \<open>firewall-cmd\<close>.

  \<open>firewall-cmd\<close> is a parameter: it maps the state of the host and the arguments to a new state
  and a reply, an exit code with the standard output, or nothing where it cannot be run. The
  reconciler's state keeps the commands issued so far. \<open>ip_version\<close> is
  \<open>ipaddress.ip_network(v, strict=False)\<close>: whether the network is an IPv4 one, or nothing where it
  raises.
\<close>

section \<open>Checking the manifest\<close>

definition reconcile_error :: "string \<Rightarrow> exn" where
  "reconcile_error m = RuntimeError m"

definition hex_name :: "nat \<Rightarrow> string \<Rightarrow> bool" where
  "hex_name n s \<longleftrightarrow> length s = n \<and> list_all lower_hex s"

definition owned_name :: "string \<Rightarrow> bool" where
  "owned_name s \<longleftrightarrow> starts_with s ''nv2'' \<and> length s = 16 \<and> s ! 3 \<in> set ''zhwlrima'' \<and> hex_name 12 (drop 4 s)"

definition owned_interface :: "string \<Rightarrow> bool" where
  "owned_interface s \<longleftrightarrow> starts_with s ''nv2'' \<and> hex_name 11 (drop 3 s)"

definition zone_ok :: "string \<Rightarrow> bool" where
  "zone_ok s \<longleftrightarrow> starts_with s ''nv2z'' \<and> hex_name 12 (drop 4 s) \<or> lan_zone_ok s \<or> s = ''HOST'' \<or> s = ''ANY''"

definition port_number_ok :: "string \<Rightarrow> bool" where
  "port_number_ok s \<longleftrightarrow> s \<noteq> [] \<and> length s \<le> 5 \<and> list_all is_digit s"

text \<open>The pattern admits one number or two with a dash between them.\<close>

definition port_text_ok :: "string \<Rightarrow> bool" where
  "port_text_ok s \<longleftrightarrow> length (py_split (CHR ''-'') s) \<le> 2 \<and> list_all port_number_ok (py_split (CHR ''-'') s)"

definition port_bounds_ok :: "int list \<Rightarrow> bool" where
  "port_bounds_ok bounds \<longleftrightarrow> list_all (\<lambda>n. 1 \<le> n \<and> n \<le> 65535) bounds \<and> \<not> (length bounds = 2 \<and> bounds ! 1 < bounds ! 0)"

definition valid_port :: "string \<Rightarrow> string \<Rightarrow> bool" where
  "valid_port port protocol \<longleftrightarrow> port_text_ok port \<and> protocol \<in> {''tcp'', ''udp''} \<and>
     port_bounds_ok (map (\<lambda>d. int (digits_nat d)) (py_split (CHR ''-'') port))"

definition check_port :: "json \<Rightarrow> json \<Rightarrow> (string \<times> string) res" where
  "check_port port protocol =
     (case (port, protocol) of
        (JStr v, JStr p) \<Rightarrow>
          if \<not> port_text_ok v \<or> p \<notin> {''tcp'', ''udp''} then Inl (reconcile_error ''invalid native firewalld port or protocol'')
          else if \<not> port_bounds_ok (map (\<lambda>d. int (digits_nat d)) (py_split (CHR ''-'') v)) then Inl (reconcile_error ''invalid native firewalld port range'')
          else Inr (v, p)
      | _ \<Rightarrow> Inl (reconcile_error ''invalid native firewalld port or protocol''))"

definition check_open_port :: "json \<Rightarrow> (string \<times> string) res" where
  "check_open_port v =
     (case v of JList [a, b] \<Rightarrow> check_port a b | _ \<Rightarrow> Inl (reconcile_error ''invalid native policy port''))"

definition check_forward_port :: "json \<Rightarrow> (string \<times> string \<times> string) res" where
  "check_forward_port v =
     (case v of
        JList [a, b, c] \<Rightarrow>
          and_then (check_port a b) (\<lambda>(port, protocol). and_then (check_port c b) (\<lambda>(target, _). Inr (port, protocol, target)))
      | _ \<Rightarrow> Inl (reconcile_error ''invalid native forward port''))"

definition check_family :: "(json \<Rightarrow> bool option) \<Rightarrow> json_dict \<Rightarrow> (string \<times> string) res" where
  "check_family ip_version rule =
     (let destination = dget rule ''destination'' JNull in
      case ip_version destination of
        None \<Rightarrow> Inl (reconcile_error ''invalid native rich-rule destination'')
      | Some v4 \<Rightarrow>
          let family = (if v4 then ''ipv4'' else ''ipv6'') in
          if dget rule ''family'' JNull \<noteq> JStr family then Inl (reconcile_error ''invalid native rich-rule family'')
          else Inr (family, py_str destination))"

definition rule_keys :: "string set" where
  "rule_keys = {''family'', ''destination''}"

definition port_rule_keys :: "string set" where
  "port_rule_keys = {''family'', ''destination'', ''port'', ''protocol''}"

definition check_rich_rule :: "(json \<Rightarrow> bool option) \<Rightarrow> json \<Rightarrow> rich_rule res" where
  "check_rich_rule ip_version v =
     and_then (expect_obj (reconcile_error ''invalid native rich rule'') v) (\<lambda>rule.
     if fst ` set rule \<noteq> rule_keys \<and> fst ` set rule \<noteq> port_rule_keys
     then Inl (reconcile_error ''invalid native rich rule'')
     else and_then (check_family ip_version rule) (\<lambda>(family, destination).
       if dict_get rule ''port'' = None
       then Inr \<lparr>rule_family = family, rule_destination = destination, rule_port = None\<rparr>
       else and_then (check_port (dget rule ''port'' JNull) (dget rule ''protocol'' JNull)) (\<lambda>p.
         Inr \<lparr>rule_family = family, rule_destination = destination, rule_port = Some p\<rparr>)))"

definition zone_keys :: "string set" where
  "zone_keys = {''kind'', ''name'', ''interface''}"

definition policy_keys :: "string set" where
  "policy_keys = {''kind'', ''name'', ''target'', ''priority'', ''ingress'', ''egress'', ''ports'', ''forwardPorts'', ''richRules''}"

definition check_zone :: "string \<Rightarrow> json_dict \<Rightarrow> fw_object res" where
  "check_zone name d =
     (if \<not> starts_with name ''nv2z'' \<or> fst ` set d \<noteq> zone_keys then Inl (reconcile_error ''invalid projected native zone'')
      else case dget d ''interface'' JNull of
        JStr i \<Rightarrow> if owned_interface i then Inr (FwZone name i) else Inl (reconcile_error ''unsafe projected interface'')
      | _ \<Rightarrow> Inl (reconcile_error ''unsafe projected interface''))"

definition check_zone_name :: "json \<Rightarrow> string res" where
  "check_zone_name v =
     (case v of JStr s \<Rightarrow> if zone_ok s then Inr s else Inl (reconcile_error ''unsafe projected policy zone'')
      | _ \<Rightarrow> Inl (reconcile_error ''unsafe projected policy zone''))"

definition check_effect :: "json_dict \<Rightarrow> (string \<times> int) res" where
  "check_effect d =
     (case (dget d ''target'' JNull, dget d ''priority'' JNull) of
        (JStr t, JInt n) \<Rightarrow>
          if t \<notin> {''ACCEPT'', ''DROP'', ''CONTINUE''} \<or> n = 0 \<or> \<not> (- 32767 \<le> n \<and> n \<le> 32767)
          then Inl (reconcile_error ''invalid policy target or priority'') else Inr (t, n)
      | _ \<Rightarrow> Inl (reconcile_error ''invalid policy target or priority''))"

definition check_policy :: "(json \<Rightarrow> bool option) \<Rightarrow> string \<Rightarrow> json_dict \<Rightarrow> fw_object res" where
  "check_policy ip_version name d =
     (if starts_with name ''nv2z'' \<or> fst ` set d \<noteq> policy_keys then Inl (reconcile_error ''invalid projected native policy'')
      else and_then (check_effect d) (\<lambda>(target, priority).
        and_then (check_zone_name (dget d ''ingress'' JNull)) (\<lambda>ingress.
        and_then (check_zone_name (dget d ''egress'' JNull)) (\<lambda>egress.
        case (dget d ''ports'' JNull, dget d ''forwardPorts'' JNull, dget d ''richRules'' JNull) of
          (JList ps, JList fs, JList rs) \<Rightarrow>
            and_then (map_res check_open_port ps) (\<lambda>ports.
            and_then (map_res check_forward_port fs) (\<lambda>forwards.
            and_then (map_res (check_rich_rule ip_version) rs) (\<lambda>rules.
            Inr (FwPolicy \<lparr>fw_name = name, fw_target = target, fw_priority = priority, fw_ingress = ingress, fw_egress = egress,
              fw_ports = ports, fw_forwards = forwards, fw_rules = rules\<rparr>))))
        | _ \<Rightarrow> Inl (reconcile_error ''invalid native policy collections'')))))"

definition check_object :: "(json \<Rightarrow> bool option) \<Rightarrow> json \<Rightarrow> fw_object res" where
  "check_object ip_version v =
     and_then (expect_obj (reconcile_error ''invalid native firewall object'') v) (\<lambda>d.
     case (dget d ''kind'' JNull, dget d ''name'' JNull) of
       (JStr kind, JStr name) \<Rightarrow>
         if kind \<notin> {''zone'', ''policy''} \<or> \<not> owned_name name then Inl (reconcile_error ''outside the V2 ownership namespace'')
         else if kind = ''zone'' then check_zone name d
         else check_policy ip_version name d
     | _ \<Rightarrow> Inl (reconcile_error ''outside the V2 ownership namespace''))"

fun object_name :: "fw_object \<Rightarrow> string" where
  "object_name (FwZone name _) = name"
| "object_name (FwPolicy p) = fw_name p"

fun is_zone :: "fw_object \<Rightarrow> bool" where
  "is_zone (FwZone _ _) = True"
| "is_zone (FwPolicy _) = False"

definition enter_object :: "(json \<Rightarrow> bool option) \<Rightarrow> json \<Rightarrow> fw_table \<Rightarrow> fw_table res" where
  "enter_object ip_version entry desired =
     and_then (check_object ip_version entry) (\<lambda>v.
     if dict_get desired (object_name v) \<noteq> None then Inl (reconcile_error ''duplicate native firewall object'')
     else Inr (dict_set (object_name v) v desired))"

definition zone_known :: "fw_table \<Rightarrow> string \<Rightarrow> bool" where
  "zone_known desired z \<longleftrightarrow> starts_with z ''nv2z'' \<longrightarrow> list_ex (\<lambda>(name, v). name = z \<and> is_zone v) desired"

definition check_references :: "fw_table \<Rightarrow> string \<times> fw_object \<Rightarrow> unit res" where
  "check_references desired = (\<lambda>(_, v).
     case v of
       FwPolicy p \<Rightarrow> if zone_known desired (fw_ingress p) \<and> zone_known desired (fw_egress p) then Inr ()
         else Inl (reconcile_error ''projected policy references missing zone'')
     | FwZone _ _ \<Rightarrow> Inr ())"

definition read_manifest :: "json res \<Rightarrow> json list res" where
  "read_manifest loaded =
     (case loaded of
        Inl e \<Rightarrow> Inl (if e = JSONDecodeError \<or> e \<in> {OSError, FileNotFoundError, FileExistsError, PermissionError}
          then reconcile_error ''unable to read native firewall manifest'' else e)
      | Inr (JObj d) \<Rightarrow>
          if \<not> eq_int (dget d ''schemaVersion'' JNull) 2 then Inl (reconcile_error ''native firewalld projection manifest is invalid'')
          else expect_list (reconcile_error ''native firewalld projection manifest is invalid'') (dget d ''objects'' JNull)
      | Inr _ \<Rightarrow> Inl (reconcile_error ''native firewalld projection manifest is invalid''))"

definition read_projection :: "(json \<Rightarrow> bool option) \<Rightarrow> json res \<Rightarrow> fw_table res" where
  "read_projection ip_version loaded =
     and_then (read_manifest loaded) (\<lambda>entries.
     and_then (for_each entries (enter_object ip_version) []) (\<lambda>desired.
     and_then (check_all desired (check_references desired)) (\<lambda>_. Inr desired)))"

section \<open>Commands\<close>

datatype fw_command =
    GetZones bool | GetPolicies bool | DeletePolicy string | DeleteZone string
  | NewZone string | AddInterface string string
  | NewPolicy string | SetTarget string string | SetPriority string int
  | AddIngress string string | AddEgress string string
  | AddPort string string string | AddForward string string string string | AddRich string rich_rule
  | CheckConfig | Reload | State

definition quoted :: "string \<Rightarrow> string" where
  "quoted s = [CHR 0x22] @ s @ [CHR 0x22]"

definition rich_rule_text :: "rich_rule \<Rightarrow> string" where
  "rich_rule_text r = py_join '' '' ([''rule'', ''family='' @ quoted (rule_family r), ''priority='' @ quoted ''-10'', ''destination'',
     ''address='' @ quoted (rule_destination r)] @
     (case rule_port r of None \<Rightarrow> [] | Some (port, protocol) \<Rightarrow> [''port'', ''port='' @ quoted port, ''protocol='' @ quoted protocol]) @
     [''accept''])"

definition permanent :: "string list \<Rightarrow> string list" where
  "permanent args = ''--permanent'' # args"

definition of_policy :: "string \<Rightarrow> string \<Rightarrow> string list" where
  "of_policy name option = permanent [''--policy='' @ name, option]"

fun fw_args :: "fw_command \<Rightarrow> string list" where
  "fw_args (GetZones p) = (if p then permanent [''--get-zones''] else [''--get-zones''])"
| "fw_args (GetPolicies p) = (if p then permanent [''--get-policies''] else [''--get-policies''])"
| "fw_args (DeletePolicy n) = permanent [''--delete-policy='' @ n]"
| "fw_args (DeleteZone n) = permanent [''--delete-zone='' @ n]"
| "fw_args (NewZone n) = permanent [''--new-zone='' @ n]"
| "fw_args (AddInterface n i) = permanent [''--zone='' @ n, ''--add-interface='' @ i]"
| "fw_args (NewPolicy n) = permanent [''--new-policy='' @ n]"
| "fw_args (SetTarget n t) = of_policy n (''--set-target='' @ t)"
| "fw_args (SetPriority n k) = of_policy n (''--set-priority='' @ int_str k)"
| "fw_args (AddIngress n z) = of_policy n (''--add-ingress-zone='' @ z)"
| "fw_args (AddEgress n z) = of_policy n (''--add-egress-zone='' @ z)"
| "fw_args (AddPort n port protocol) = of_policy n (''--add-port='' @ port @ ''/'' @ protocol)"
| "fw_args (AddForward n port protocol target) =
     of_policy n (''--add-forward-port=port='' @ port @ '':proto='' @ protocol @ '':toport='' @ target)"
| "fw_args (AddRich n r) = of_policy n (''--add-rich-rule='' @ rich_rule_text r)"
| "fw_args CheckConfig = [''--check-config'']"
| "fw_args Reload = [''--reload'']"
| "fw_args State = [''--state'']"

type_synonym 'w firewall_cmd = "'w \<Rightarrow> string list \<Rightarrow> 'w \<times> (int \<times> string) option"

record 'w fw_session =
  fw_world :: 'w
  fw_log :: "fw_command list"

definition run_fw :: "'w firewall_cmd \<Rightarrow> fw_command \<Rightarrow> ('w fw_session, string) act" where
  "run_fw cmd c s =
     (case cmd (fw_world s) (fw_args c) of (w, reply) \<Rightarrow>
        (case reply of
           None \<Rightarrow> Inl (reconcile_error ''unable to execute'')
         | Some (rc, out) \<Rightarrow> if rc \<noteq> 0 then Inl (reconcile_error ''command failed'') else Inr out,
         s\<lparr>fw_world := w, fw_log := fw_log s @ [c]\<rparr>))"

definition do_fw :: "'w firewall_cmd \<Rightarrow> fw_command \<Rightarrow> ('w fw_session, unit) act" where
  "do_fw cmd c = bind (run_fw cmd c) (\<lambda>_. ret ())"

definition zone_commands :: "string \<Rightarrow> string \<Rightarrow> fw_command list" where
  "zone_commands name i = [NewZone name, AddInterface name i]"

definition policy_commands :: "fw_policy \<Rightarrow> fw_command list" where
  "policy_commands p = (let n = fw_name p in
     [NewPolicy n, SetTarget n (fw_target p), SetPriority n (fw_priority p), AddIngress n (fw_ingress p), AddEgress n (fw_egress p)] @
     map (\<lambda>(port, protocol). AddPort n port protocol) (fw_ports p) @
     map (\<lambda>(port, protocol, target). AddForward n port protocol target) (fw_forwards p) @
     map (AddRich n) (fw_rules p))"

fun object_commands :: "fw_object \<Rightarrow> fw_command list" where
  "object_commands (FwZone name i) = zone_commands name i"
| "object_commands (FwPolicy p) = policy_commands p"

definition apply_object :: "'w firewall_cmd \<Rightarrow> fw_object \<Rightarrow> ('w fw_session, unit) act" where
  "apply_object cmd v = each_act (do_fw cmd) (object_commands v)"

definition owned_zones :: "string \<Rightarrow> string list" where
  "owned_zones out = sort (remdups (filter (\<lambda>n. owned_name n \<and> starts_with n ''nv2z'') (py_words out)))"

definition owned_policies :: "string \<Rightarrow> string list" where
  "owned_policies out = sort (remdups (filter (\<lambda>n. owned_name n \<and> \<not> starts_with n ''nv2z'') (py_words out)))"

definition current_owned :: "'w firewall_cmd \<Rightarrow> ('w fw_session, string list \<times> string list) act" where
  "current_owned cmd =
     bind (run_fw cmd (GetZones True)) (\<lambda>zones.
     bind (run_fw cmd (GetPolicies True)) (\<lambda>policies.
     ret (owned_zones zones, owned_policies policies)))"

definition desired_zones :: "fw_table \<Rightarrow> fw_object list" where
  "desired_zones desired = sort_key object_name (filter is_zone (map snd desired))"

fun priority_of :: "fw_object \<Rightarrow> int" where
  "priority_of (FwPolicy p) = fw_priority p"
| "priority_of (FwZone _ _) = 0"

definition desired_policies :: "fw_table \<Rightarrow> fw_object list" where
  "desired_policies desired = sort_key (\<lambda>v. (priority_of v, object_name v)) (filter (\<lambda>v. \<not> is_zone v) (map snd desired))"

definition verify_runtime :: "'w firewall_cmd \<Rightarrow> fw_table \<Rightarrow> ('w fw_session, unit) act" where
  "verify_runtime cmd desired =
     bind (run_fw cmd State) (\<lambda>_.
     bind (run_fw cmd (GetZones False)) (\<lambda>zones.
     bind (run_fw cmd (GetPolicies False)) (\<lambda>policies.
     if list_ex (\<lambda>(n, v). n \<notin> set (py_words (if is_zone v then zones else policies))) desired
     then raise (reconcile_error ''firewalld reload omitted projected objects'') else ret ())))"

definition reconcile_firewalld :: "'w firewall_cmd \<Rightarrow> (json \<Rightarrow> bool option) \<Rightarrow> json res \<Rightarrow> ('w fw_session, bool \<times> string list) act" where
  "reconcile_firewalld cmd ip_version loaded =
     bind (lift_res (read_projection ip_version loaded)) (\<lambda>desired.
     bind (current_owned cmd) (\<lambda>(zones, policies).
     bind (each_act (\<lambda>n. do_fw cmd (DeletePolicy n)) policies) (\<lambda>_.
     bind (each_act (\<lambda>n. do_fw cmd (DeleteZone n)) zones) (\<lambda>_.
     bind (each_act (apply_object cmd) (desired_zones desired)) (\<lambda>_.
     bind (each_act (apply_object cmd) (desired_policies desired)) (\<lambda>_.
     bind (do_fw cmd CheckConfig) (\<lambda>_.
     bind (do_fw cmd Reload) (\<lambda>_.
     bind (verify_runtime cmd desired) (\<lambda>_.
     ret (zones \<noteq> [] \<or> policies \<noteq> [] \<or> desired \<noteq> [], sort (map fst desired)))))))))))"

section \<open>Only owned objects are touched\<close>

text \<open>The object that a command changes.\<close>

fun subject :: "fw_command \<Rightarrow> string option" where
  "subject (GetZones _) = None" | "subject (GetPolicies _) = None" | "subject CheckConfig = None" | "subject Reload = None"
| "subject State = None" | "subject (DeletePolicy n) = Some n" | "subject (DeleteZone n) = Some n" | "subject (NewZone n) = Some n"
| "subject (AddInterface n _) = Some n" | "subject (NewPolicy n) = Some n" | "subject (SetTarget n _) = Some n"
| "subject (SetPriority n _) = Some n" | "subject (AddIngress n _) = Some n" | "subject (AddEgress n _) = Some n"
| "subject (AddPort n _ _) = Some n" | "subject (AddForward n _ _ _) = Some n" | "subject (AddRich n _) = Some n"

definition harmless :: "fw_command \<Rightarrow> bool" where
  "harmless c = (case subject c of None \<Rightarrow> True | Some n \<Rightarrow> owned_name n)"

abbreviation only_owned :: "'w fw_session \<Rightarrow> bool" where
  "only_owned s \<equiv> list_all harmless (fw_log s)"


lemma keeps_run_fw [keeps_intros]: "harmless c \<Longrightarrow> keeps only_owned (run_fw cmd c)"
  by (auto simp: keeps_def run_fw_def split: prod.splits)

lemma keeps_do_fw [keeps_intros]: "harmless c \<Longrightarrow> keeps only_owned (do_fw cmd c)"
  unfolding do_fw_def by (intro keeps_intros)

lemma object_commands_subject: "c \<in> set (object_commands v) \<Longrightarrow> subject c = Some (object_name v)"
  by (cases v) (auto simp: zone_commands_def policy_commands_def Let_def)

lemma keeps_apply_object [keeps_intros]: "owned_name (object_name v) \<Longrightarrow> keeps only_owned (apply_object cmd v)"
  unfolding apply_object_def by (intro keeps_intros) (simp add: harmless_def object_commands_subject)

lemma check_zone_Inr: "check_zone name d = Inr x \<Longrightarrow> \<exists>i. x = FwZone name i \<and> starts_with name ''nv2z''"
  by (auto simp: check_zone_def split: json.splits if_splits)

lemma check_policy_Inr:
  assumes "check_policy ip_version name d = Inr x"
  shows "\<exists>p. x = FwPolicy p \<and> fw_name p = name \<and> \<not> starts_with name ''nv2z''"
proof -
  have "\<not> starts_with name ''nv2z''" using assms by (auto simp: check_policy_def split: if_splits)
  moreover have "\<exists>p. x = FwPolicy p \<and> fw_name p = name"
    using assms unfolding check_policy_def if_Inl_Inr_iff and_then_Inr_iff case_prod_beta
    by (elim exE conjE) (simp split: json.splits add: and_then_Inr_iff, elim exE conjE, force)
  ultimately show ?thesis by blast
qed

lemma check_object_name:
  assumes "check_object ip_version v = Inr x"
  shows "owned_name (object_name x) \<and> (is_zone x \<longleftrightarrow> starts_with (object_name x) ''nv2z'')"
proof -
  obtain d where d: "v = JObj d" using assms by (auto simp: check_object_def res_simps)
  obtain kind name where "dget d ''kind'' JNull = JStr kind" and "dget d ''name'' JNull = JStr name"
    using assms by (auto simp: check_object_def d split: json.splits)
  then have "owned_name name" "check_zone name d = Inr x \<or> check_policy ip_version name d = Inr x"
    using assms by (auto simp: check_object_def d split: if_splits)
  then show ?thesis using check_zone_Inr [of name d x] check_policy_Inr [of ip_version name d x] by auto
qed

text \<open>What reading the manifest establishes.\<close>

definition entries_read :: "(json \<Rightarrow> bool option) \<Rightarrow> json list \<Rightarrow> fw_table \<Rightarrow> bool" where
  "entries_read ip_version entries desired \<longleftrightarrow> (\<forall>(n, v) \<in> set desired. n = object_name v \<and> (\<exists>e \<in> set entries. check_object ip_version e = Inr v)) \<and>
     distinct (map fst desired)"

lemma dict_set_new: "dict_get d k = None \<Longrightarrow> dict_set k v d = d @ [(k, v)]"
  by (induction d) (auto split: if_splits)

lemma enter_object_entered:
  assumes "enter_object ip_version e desired = Inr desired'" and "entries_read ip_version entries desired" and "e \<in> set entries"
  shows "entries_read ip_version entries desired'"
proof -
  obtain v where v: "check_object ip_version e = Inr v" and new: "dict_get desired (object_name v) = None"
    and d: "desired' = desired @ [(object_name v, v)]"
    using assms(1) by (auto simp: enter_object_def res_simps dict_set_new split: if_splits)
  have "object_name v \<notin> fst ` set desired" using new by (simp add: map_of_eq_None_iff)
  then show ?thesis using assms(2,3) v by (auto simp: entries_read_def d)
qed

lemma read_projection_entered:
  assumes "read_projection ip_version loaded = Inr desired"
  shows "\<exists>entries. read_manifest loaded = Inr entries \<and> entries_read ip_version entries desired"
proof -
  obtain entries where e: "read_manifest loaded = Inr entries" and run: "for_each entries (enter_object ip_version) [] = Inr desired"
    using assms by (auto simp: read_projection_def and_then_Inr_iff)
  have "entries_read ip_version entries desired"
    by (rule for_each_invariant [OF run]) (simp add: entries_read_def, rule enter_object_entered)
  with e show ?thesis by blast
qed

lemma read_projection_owned:
  assumes "read_projection ip_version loaded = Inr desired" and "v \<in> snd ` set desired"
  shows "owned_name (object_name v)" "is_zone v \<longleftrightarrow> starts_with (object_name v) ''nv2z''"
proof -
  obtain e where "check_object ip_version e = Inr v"
    using read_projection_entered [OF assms(1)] assms(2) by (fastforce simp: entries_read_def)
  then show "owned_name (object_name v)" "is_zone v \<longleftrightarrow> starts_with (object_name v) ''nv2z''" using check_object_name by blast+
qed

lemma reconcile_keeps: "keeps only_owned (reconcile_firewalld cmd ip_version loaded)"
proof -
  have quiet: "harmless (GetZones b)" "harmless (GetPolicies b)" "harmless CheckConfig" "harmless Reload" "harmless State" for b
    by (simp_all add: harmless_def)
  have verify: "keeps only_owned (verify_runtime cmd desired)" for desired
    unfolding verify_runtime_def by (intro keeps_intros quiet)
  show ?thesis
  proof (cases "read_projection ip_version loaded")
    case (Inl e)
    then show ?thesis by (simp add: reconcile_firewalld_def keeps_def bind_def lift_res_def)
  next
    case (Inr desired)
    let ?rest = "\<lambda>zones policies. bind (each_act (\<lambda>n. do_fw cmd (DeletePolicy n)) policies) (\<lambda>_.
       bind (each_act (\<lambda>n. do_fw cmd (DeleteZone n)) zones) (\<lambda>_.
       bind (each_act (apply_object cmd) (desired_zones desired)) (\<lambda>_.
       bind (each_act (apply_object cmd) (desired_policies desired)) (\<lambda>_.
       bind (do_fw cmd CheckConfig) (\<lambda>_. bind (do_fw cmd Reload) (\<lambda>_. bind (verify_runtime cmd desired) (\<lambda>_.
       ret (zones \<noteq> [] \<or> policies \<noteq> [] \<or> desired \<noteq> [], sort (map fst desired)))))))))"
    have own: "owned_name (object_name v)" if "v \<in> set (desired_zones desired) \<or> v \<in> set (desired_policies desired)" for v
      using read_projection_owned(1) [OF Inr] that by (auto simp: desired_zones_def desired_policies_def)
    have rest: "keeps only_owned (?rest zones policies)" if "list_all owned_name zones" "list_all owned_name policies" for zones policies
      using that own by (intro keeps_intros quiet verify) (auto simp: harmless_def list_all_iff)
    have body: "keeps only_owned (?rest (owned_zones a) (owned_policies b))" for a b
      by (rule rest) (auto simp: owned_zones_def owned_policies_def list_all_iff)
    have "keeps only_owned (bind (run_fw cmd (GetZones True)) (\<lambda>a. bind (run_fw cmd (GetPolicies True)) (\<lambda>b. ?rest (owned_zones a) (owned_policies b))))"
      by (intro keeps_bind [OF keeps_run_fw [OF quiet(1)]] keeps_bind [OF keeps_run_fw [OF quiet(2)]] body)
    moreover have "reconcile_firewalld cmd ip_version loaded =
        bind (run_fw cmd (GetZones True)) (\<lambda>a. bind (run_fw cmd (GetPolicies True)) (\<lambda>b. ?rest (owned_zones a) (owned_policies b)))"
      by (rule ext) (simp add: reconcile_firewalld_def current_owned_def bind_def lift_res_def ret_def Inr split: prod.splits sum.splits)
    ultimately show ?thesis by simp
  qed
qed

text \<open>
  C12: the reconciler never touches foreign firewall objects. Whatever \<open>firewall-cmd\<close> answers,
  every command that it issues is a query or global, or changes an object whose name lies in
  the namespace of the appliance; and a manifest that does not pass the checks causes no
  command at all.
\<close>

theorem firewalld_touches_owned:
  assumes "fw_log s = []" and "reconcile_firewalld cmd ip_version loaded s = (r, s')"
  shows "(\<forall>c n. c \<in> set (fw_log s') \<and> subject c = Some n \<longrightarrow> owned_name n) \<and> (isl (read_projection ip_version loaded) \<longrightarrow> s' = s)"
proof
  have "only_owned s'" by (rule keepsD [OF reconcile_keeps _ assms(2)]) (simp add: assms(1))
  then show "\<forall>c n. c \<in> set (fw_log s') \<and> subject c = Some n \<longrightarrow> owned_name n"
    by (auto simp: list_all_iff harmless_def split: option.splits)
  show "isl (read_projection ip_version loaded) \<longrightarrow> s' = s"
    using assms(2) by (cases "read_projection ip_version loaded") (auto simp: reconcile_firewalld_def bind_def lift_res_def)
qed

section \<open>The permanent configuration after a run\<close>












section \<open>The reconciler reads what the compiler writes\<close>

definition ports_valid :: "fw_policy \<Rightarrow> bool" where
  "ports_valid p \<longleftrightarrow> list_all (\<lambda>(a, b). valid_port a b) (fw_ports p) \<and>
     list_all (\<lambda>(a, b, c). valid_port a b \<and> valid_port c b) (fw_forwards p)"

definition rule_ok :: "(json \<Rightarrow> bool option) \<Rightarrow> rich_rule \<Rightarrow> bool" where
  "rule_ok ip_version r \<longleftrightarrow> (\<exists>v4. ip_version (JStr (rule_destination r)) = Some v4 \<and> rule_family r = (if v4 then ''ipv4'' else ''ipv6'')) \<and>
     (case rule_port r of None \<Rightarrow> True | Some (a, b) \<Rightarrow> valid_port a b)"

definition policy_ok :: "(json \<Rightarrow> bool option) \<Rightarrow> fw_policy \<Rightarrow> bool" where
  "policy_ok ip_version p \<longleftrightarrow> owned_name (fw_name p) \<and> \<not> starts_with (fw_name p) ''nv2z'' \<and>
     fw_target p \<in> {''ACCEPT'', ''DROP'', ''CONTINUE''} \<and> fw_priority p \<noteq> 0 \<and> - 32767 \<le> fw_priority p \<and> fw_priority p \<le> 32767 \<and>
     zone_ok (fw_ingress p) \<and> zone_ok (fw_egress p) \<and> list_all (rule_ok ip_version) (fw_rules p)"

fun object_ok :: "(json \<Rightarrow> bool option) \<Rightarrow> fw_object \<Rightarrow> bool" where
  "object_ok ip_version (FwZone n i) = (owned_name n \<and> starts_with n ''nv2z'' \<and> owned_interface i)"
| "object_ok ip_version (FwPolicy p) = (policy_ok ip_version p \<and> ports_valid p)"

lemma check_port_iff [simp]: "check_port (JStr a) (JStr b) = Inr x \<longleftrightarrow> x = (a, b) \<and> valid_port a b"
  by (auto simp: check_port_def valid_port_def)

lemma map_res_map_iff:
  assumes "\<And>x y. f (g x) = Inr y \<longleftrightarrow> y = x \<and> P x"
  shows "map_res f (map g xs) = Inr ys \<longleftrightarrow> ys = xs \<and> list_all P xs"
  by (induction xs arbitrary: ys) (auto simp: and_then_Inr_iff assms)

lemma check_rule_json: "check_rich_rule ip_version (rule_json r) = Inr x \<longleftrightarrow> x = r \<and> rule_ok ip_version r"
proof -
  obtain d where d: "rule_json r = JObj d" by (simp add: rule_json_def)
  have get: "dget d ''family'' JNull = JStr (rule_family r)" "dget d ''destination'' JNull = JStr (rule_destination r)"
    using d by (auto simp: rule_json_def dget_def)
  have family: "check_family ip_version d = Inr y \<longleftrightarrow> y = (rule_family r, rule_destination r) \<and>
      (\<exists>v4. ip_version (JStr (rule_destination r)) = Some v4 \<and> rule_family r = (if v4 then ''ipv4'' else ''ipv6''))" for y
    unfolding check_family_def get Let_def by (cases "ip_version (JStr (rule_destination r))") auto
  show ?thesis
  proof (cases "rule_port r")
    case None
    have "fst ` set d = rule_keys" "dict_get d ''port'' = None" using d None by (auto simp: rule_json_def rule_keys_def)
    moreover have "r = \<lparr>rule_family = rule_family r, rule_destination = rule_destination r, rule_port = None\<rparr>" using None by simp
    ultimately show ?thesis
      unfolding check_rich_rule_def d rule_ok_def by (auto simp: and_then_Inr_iff family None)
  next
    case (Some q)
    obtain a b where q: "q = (a, b)" by (cases q)
    have "fst ` set d = port_rule_keys" "dget d ''port'' JNull = JStr a" "dget d ''protocol'' JNull = JStr b" "dict_get d ''port'' \<noteq> None"
      using d Some by (auto simp: rule_json_def port_rule_keys_def dget_def q)
    moreover have "r = \<lparr>rule_family = rule_family r, rule_destination = rule_destination r, rule_port = Some (a, b)\<rparr>" using Some q by simp
    ultimately show ?thesis
      unfolding check_rich_rule_def d rule_ok_def by (auto simp: and_then_Inr_iff family Some q)
  qed
qed

lemma check_open_json: "map_res check_open_port (map (\<lambda>(a, b). JList [JStr a, JStr b]) ps) = Inr x \<longleftrightarrow>
    x = ps \<and> list_all (\<lambda>(a, b). valid_port a b) ps"
  by (rule map_res_map_iff) (auto simp: check_open_port_def)

lemma check_forward_json: "map_res check_forward_port (map (\<lambda>(a, b, c). JList [JStr a, JStr b, JStr c]) fs) = Inr y \<longleftrightarrow>
    y = fs \<and> list_all (\<lambda>(a, b, c). valid_port a b \<and> valid_port c b) fs"
  by (rule map_res_map_iff) (auto simp: check_forward_port_def and_then_Inr_iff)

lemmas check_ports_json = check_open_json check_forward_json

lemma check_policy_json:
  assumes "object_json (FwPolicy p) = JObj d" and "owned_name (fw_name p)"
  shows "check_policy ip_version (fw_name p) d = Inr x \<longleftrightarrow> x = FwPolicy p \<and> policy_ok ip_version p \<and> ports_valid p"
proof -
  have keys: "fst ` set d = policy_keys" using assms(1) by (auto simp: policy_keys_def)
  have get: "dget d ''target'' JNull = JStr (fw_target p)" "dget d ''priority'' JNull = JInt (fw_priority p)"
    "dget d ''ingress'' JNull = JStr (fw_ingress p)" "dget d ''egress'' JNull = JStr (fw_egress p)"
    "dget d ''ports'' JNull = JList (map (\<lambda>(a, b). JList [JStr a, JStr b]) (fw_ports p))"
    "dget d ''forwardPorts'' JNull = JList (map (\<lambda>(a, b, c). JList [JStr a, JStr b, JStr c]) (fw_forwards p))"
    "dget d ''richRules'' JNull = JList (map rule_json (fw_rules p))"
    using assms(1) by (auto simp: dget_def)
  have zones: "check_zone_name (JStr z) = Inr y \<longleftrightarrow> y = z \<and> zone_ok z" for z y by (auto simp: check_zone_name_def)
  have effect: "check_effect d = Inr y \<longleftrightarrow> y = (fw_target p, fw_priority p) \<and> fw_target p \<in> {''ACCEPT'', ''DROP'', ''CONTINUE''} \<and>
      fw_priority p \<noteq> 0 \<and> - 32767 \<le> fw_priority p \<and> fw_priority p \<le> 32767" for y
    by (auto simp: check_effect_def get)
  have rules: "map_res (check_rich_rule ip_version) (map rule_json rs) = Inr y \<longleftrightarrow> y = rs \<and> list_all (rule_ok ip_version) rs" for rs y
    by (rule map_res_map_iff) (rule check_rule_json)
  show ?thesis
    unfolding check_policy_def if_Inl_Inr_iff and_then_Inr_iff effect get zones policy_ok_def ports_valid_def
    by (simp add: keys and_then_Inr_iff zones check_ports_json rules assms(2)) (cases p, auto)
qed

lemma check_object_json: "check_object ip_version (object_json v) = Inr x \<longleftrightarrow> x = v \<and> object_ok ip_version v"
proof (cases v)
  case (FwZone n i)
  then show ?thesis
    by (auto simp: check_object_def check_zone_def dget_def zone_keys_def)
next
  case (FwPolicy p)
  obtain d where d: "object_json (FwPolicy p) = JObj d" by simp
  have "dget d ''kind'' JNull = JStr ''policy''" "dget d ''name'' JNull = JStr (fw_name p)" using d by (auto simp: dget_def)
  then have "check_object ip_version (JObj d) = (if owned_name (fw_name p) then check_policy ip_version (fw_name p) d
      else Inl (reconcile_error ''outside the V2 ownership namespace''))"
    by (simp add: check_object_def)
  then show ?thesis using check_policy_json [OF d, of ip_version x] d FwPolicy by (auto simp: policy_ok_def)
qed

lemma enter_objects_json:
  "for_each (map object_json vs) (enter_object ip_version) d = Inr d' \<longleftrightarrow>
     list_all (object_ok ip_version) vs \<and> distinct (map object_name vs) \<and> (\<forall>v \<in> set vs. dict_get d (object_name v) = None) \<and>
     d' = d @ map (\<lambda>v. (object_name v, v)) vs"
proof (induction vs arbitrary: d)
  case (Cons v vs)
  have "enter_object ip_version (object_json v) d = Inr e \<longleftrightarrow>
      object_ok ip_version v \<and> dict_get d (object_name v) = None \<and> e = d @ [(object_name v, v)]" for e
    by (auto simp: enter_object_def and_then_Inr_iff check_object_json dict_set_new)
  then have "for_each (map object_json (v # vs)) (enter_object ip_version) d = Inr d' \<longleftrightarrow>
      object_ok ip_version v \<and> dict_get d (object_name v) = None \<and>
      for_each (map object_json vs) (enter_object ip_version) (d @ [(object_name v, v)]) = Inr d'"
    by (auto simp: and_then_Inr_iff)
  also have "\<dots> \<longleftrightarrow> list_all (object_ok ip_version) (v # vs) \<and> distinct (map object_name (v # vs)) \<and>
      (\<forall>u \<in> set (v # vs). dict_get d (object_name u) = None) \<and> d' = d @ map (\<lambda>v. (object_name v, v)) (v # vs)"
    unfolding Cons.IH by (auto simp: map_of_eq_None_iff) (metis imageI)
  finally show ?case .
qed auto

text \<open>What \<open>hashlib\<close> and \<open>ipaddress\<close> document: a digest is 64 lower-case hexadecimal digits, and the text of a network parses to a network of its version.\<close>

definition hex_digests :: "digest \<Rightarrow> bool" where
  "hex_digests sha256 \<longleftrightarrow> (\<forall>s. length (sha256 s) = 64 \<and> list_all lower_hex (sha256 s))"

definition networks_reparse :: "(string \<Rightarrow> (bool \<times> string) option) \<Rightarrow> (json \<Rightarrow> bool option) \<Rightarrow> bool" where
  "networks_reparse ip_network ip_version \<longleftrightarrow> (\<forall>raw v4 net. ip_network raw = Some (v4, net) \<longrightarrow> ip_version (JStr net) = Some v4)"

lemma list_all_take: "list_all P xs \<Longrightarrow> list_all P (take n xs)"
  by (auto simp: list_all_iff dest: in_set_takeD)

lemma digest_names:
  assumes "hex_digests sha256"
  shows "c \<in> set ''zhwlrima'' \<Longrightarrow> owned_name (''nv2'' @ c # short_digest sha256 s)"
    "zone_ok (zone_name sha256 s)" "owned_interface (bridge_interface_name sha256 s)"
  using assms list_all_take [of lower_hex "sha256 s"]
  by (auto simp: hex_digests_def owned_name_def hex_name_def short_digest_def zone_ok_def zone_name_def owned_interface_def
      bridge_interface_name_def starts_with_iff)

lemma port_number_valid:
  assumes "1 \<le> n" "n \<le> 65535" "protocol \<in> {''tcp'', ''udp''}"
  shows "valid_port (int_str n) protocol"
proof -
  let ?s = "nat_digits (nat n)"
  have s: "int_str n = ?s" using assms by (simp add: int_str_def)
  have dig: "list_all is_digit ?s" by (rule nat_digits_digits)
  then have "CHR ''-'' \<notin> set ?s" by (auto simp: list_all_iff is_digit_def)
  then have split: "py_split (CHR ''-'') ?s = [?s]" by (rule py_split_no_sep)
  have "?s \<noteq> []" using nat_digits_Cons [of "nat n"] by auto
  moreover have "length ?s \<le> 5" using nat_digits_length [of "nat n" 4] assms by simp
  ultimately show ?thesis
    using assms dig by (simp add: s valid_port_def port_text_ok_def port_bounds_ok_def port_number_ok_def split digits_nat_digits)
qed

lemma egress_rule_ok:
  assumes "egress_rules ip_network rule = Inr rs" and "r \<in> set rs" and ip: "networks_reparse ip_network ip_version"
  shows "rule_ok ip_version r"
proof -
  obtain raw where raw: "dget rule ''cidr'' JNull = JStr raw"
    using assms(1) by (auto simp: egress_rules_def and_then_Inr_iff expect_Inr_iff)
  obtain v4 net where net: "ip_network raw = Some (v4, net)"
    using assms(1) by (cases "ip_network raw") (auto simp: egress_rules_def raw)
  obtain ports where ports: "dget rule ''ports'' (JList []) = JList ports" and valid: "\<forall>p \<in> set ports. port_value p \<noteq> None"
    using assms(1) by (auto simp: egress_rules_def raw net and_then_Inr_iff expect_Inr_iff if_Inl_Inr_iff list_ex_iff)
  let ?base = "\<lparr>rule_family = if v4 then ''ipv4'' else ''ipv6'', rule_destination = net, rule_port = None\<rparr>"
  have rs: "rs = (if ports = [] then [?base]
      else concat (map (\<lambda>p. map (\<lambda>protocol. ?base\<lparr>rule_port := Some (int_str p, protocol)\<rparr>) [''tcp'', ''udp''])
        (sort (remdups (map (the \<circ> port_value) ports)))))"
    using assms(1) unfolding egress_rules_def raw expect_str.simps and_then.simps net option.case prod.case ports expect_list.simps
      if_Inl_Inr_iff Let_def by (elim conjE) (rule sum.inject(2) [THEN iffD1, symmetric])
  have base: "ip_version (JStr net) = Some v4" using ip net by (auto simp: networks_reparse_def)
  have "valid_port (int_str n) protocol" if "port_value p = Some n" "protocol \<in> {''tcp'', ''udp''}" for p n protocol
    using port_number_valid [of n protocol] that by (cases p) (auto split: if_splits)
  then have ok: "valid_port (int_str (the (port_value p))) protocol" if "p \<in> set ports" "protocol \<in> {''tcp'', ''udp''}" for p protocol
    using valid that by (metis option.exhaust_sel)
  show ?thesis
  proof (cases "ports = []")
    case True
    then show ?thesis using assms(2) base by (simp add: rs rule_ok_def)
  next
    case False
    then obtain p protocol where "p \<in> set ports" "protocol \<in> {''tcp'', ''udp''}" "r = ?base\<lparr>rule_port := Some (int_str (the (port_value p)), protocol)\<rparr>"
      using assms(2) by (auto simp: rs)
    then show ?thesis using ok base by (simp add: rule_ok_def)
  qed
qed

lemma allowed_egress_ok:
  assumes "allowed_egress ip_network policy = Inr rules" and "networks_reparse ip_network ip_version"
  shows "list_all (rule_ok ip_version) rules"
proof -
  obtain entries rss where m: "map_res (\<lambda>e. and_then (expect_obj (firewalld_error ''allowedEgress entries must be objects'') e)
       (egress_rules ip_network)) entries = Inr rss" and rules: "rules = concat rss"
    using assms(1) by (auto simp: allowed_egress_def and_then_Inr_iff)
  have "\<forall>r \<in> set rs. rule_ok ip_version r" if "rs \<in> set rss" for rs
    using map_res_member [OF m that] egress_rule_ok [OF _ _ assms(2)] by (auto simp: res_simps)
  then show ?thesis by (auto simp: rules list_all_iff)
qed

text \<open>The invariants of the objects that the compiler projects.\<close>

definition zone_placed :: "digest \<Rightarrow> string \<Rightarrow> fw_table \<Rightarrow> string \<Rightarrow> bool" where
  "zone_placed sha256 lan_zone objects z \<longleftrightarrow> z \<in> {lan_zone, ''HOST'', ''ANY''} \<or>
     (\<exists>sid i. z = zone_name sha256 sid \<and> dict_get objects (''zones/'' @ z) = Some (FwZone z i))"

definition target_of :: "fw_object \<Rightarrow> string" where
  "target_of v = (if is_zone v then ''zones/'' else ''policies/'') @ object_name v"

definition placed :: "digest \<Rightarrow> (json \<Rightarrow> bool option) \<Rightarrow> string \<Rightarrow> fw_table \<Rightarrow> string \<Rightarrow> fw_object \<Rightarrow> bool" where
  "placed sha256 ip_version lan_zone objects t v \<longleftrightarrow> t = target_of v \<and>
     (case v of
        FwZone n i \<Rightarrow> \<exists>sid. n = zone_name sha256 sid \<and> i = bridge_interface_name sha256 sid
      | FwPolicy p \<Rightarrow> (\<exists>c s. c \<in> set ''hwlrima'' \<and> fw_name p = ''nv2'' @ c # short_digest sha256 s) \<and>
          fw_target p \<in> {''ACCEPT'', ''DROP'', ''CONTINUE''} \<and> fw_priority p \<in> {- 300, - 100, - 50, 50} \<and>
          zone_placed sha256 lan_zone objects (fw_ingress p) \<and> zone_placed sha256 lan_zone objects (fw_egress p) \<and>
          list_all (rule_ok ip_version) (fw_rules p))"

lemmas policy_names = host_policy_name_def lan_policy_name_def world_policy_name_def route_policy_name_def listener_policy_name_def
  host_listener_policy_name_def remote_admin_policy_name_def

lemma drop_ports_placed:
  assumes "c \<in> set ''hwlrima''" "n = ''nv2'' @ c # short_digest sha256 s" "zone_placed sha256 lan_zone objects i" "zone_placed sha256 lan_zone objects e"
  shows "placed sha256 ip_version lan_zone objects (''policies/'' @ n) (drop_ports n i e ps fs)"
  using assms by (auto simp: placed_def target_of_def drop_ports_def)

lemma isolated_placed:
  assumes g: "isolated_objects sha256 ip_network lan_zone sid service policy = Inr gen" and x: "(t, v) \<in> set gen"
    and ip: "networks_reparse ip_network ip_version"
    and z: "dict_get objects (''zones/'' @ zone_name sha256 sid) = Some (FwZone (zone_name sha256 sid) (bridge_interface_name sha256 sid))"
  shows "placed sha256 ip_version lan_zone objects t v"
proof -
  have own: "zone_placed sha256 lan_zone objects (zone_name sha256 sid)" using z by (auto simp: zone_placed_def)
  have fixed: "zone_placed sha256 lan_zone objects y" if "y \<in> {lan_zone, ''HOST'', ''ANY''}" for y using that by (simp add: zone_placed_def)
  obtain listeners ports rules routes where rules: "allowed_egress ip_network policy = Inr rules"
    and gen: "gen = [(''zones/'' @ zone_name sha256 sid, zone sha256 sid),
      (''policies/'' @ host_policy_name sha256 sid, host_object sha256 sid ports),
      (''policies/'' @ lan_policy_name sha256 sid, lan_object sha256 lan_zone sid policy),
      (''policies/'' @ world_policy_name sha256 sid, world_object sha256 sid policy rules)] @
      (if routes = [] then [] else [(''policies/'' @ route_policy_name sha256 sid,
         drop_ports (route_policy_name sha256 sid) ''HOST'' (zone_name sha256 sid) routes [])]) @
      (if listeners = [] then [] else [(''policies/'' @ listener_policy_name sha256 sid,
         drop_ports (listener_policy_name sha256 sid) lan_zone (zone_name sha256 sid) listeners [])])"
    using isolated_objects_shape [OF g] by blast
  note rok = allowed_egress_ok [OF rules ip]
  have drops: "placed sha256 ip_version lan_zone objects (''policies/'' @ host_policy_name sha256 sid) (host_object sha256 sid ports)"
    "placed sha256 ip_version lan_zone objects (''policies/'' @ route_policy_name sha256 sid)
       (drop_ports (route_policy_name sha256 sid) ''HOST'' (zone_name sha256 sid) routes [])"
    "placed sha256 ip_version lan_zone objects (''policies/'' @ listener_policy_name sha256 sid)
       (drop_ports (listener_policy_name sha256 sid) lan_zone (zone_name sha256 sid) listeners [])"
    unfolding host_object_def by (rule drop_ports_placed [where s = sid, OF _ _ _ _]; simp add: policy_names own fixed)+
  have zone: "placed sha256 ip_version lan_zone objects (''zones/'' @ zone_name sha256 sid) (zone sha256 sid)"
    by (auto simp: placed_def target_of_def zone_def)
  have lan: "placed sha256 ip_version lan_zone objects (''policies/'' @ lan_policy_name sha256 sid) (lan_object sha256 lan_zone sid policy)"
    using own fixed by (auto simp: placed_def target_of_def lan_object_def policy_names)
  have world: "placed sha256 ip_version lan_zone objects (''policies/'' @ world_policy_name sha256 sid) (world_object sha256 sid policy rules)"
    using own fixed rok by (auto simp: placed_def target_of_def world_object_def policy_names)
  show ?thesis using x drops zone lan world unfolding gen by (auto split: if_splits)
qed

lemma projection_placed:
  assumes c: "compile_projection sha256 ip_network effective (JStr lan_zone) = Inr (objects, m)"
    and ip: "networks_reparse ip_network ip_version" and v: "dict_get objects t = Some v"
  shows "placed sha256 ip_version lan_zone objects t v"
proof -
  let ?n = "remote_admin_policy_name sha256"
  let ?admin = "FwPolicy ((bare_policy ?n ''CONTINUE'' (- 300) lan_zone ''HOST'')\<lparr>fw_ports := remote_admin_ports\<rparr>)"
  obtain app am services where services: "dget effective ''services'' JNull = JObj services"
    and app: "compile_application_projection sha256 ip_network effective (JStr lan_zone) = Inr (app, am)"
    and objects: "objects = (''policies/'' @ ?n, ?admin) # app"
    by (rule projection_parts [OF c]) auto
  have fixed: "zone_placed sha256 lan_zone objects y" if "y \<in> {lan_zone, ''HOST'', ''ANY''}" for y using that by (simp add: zone_placed_def)
  have "dict_get ((k, a) # d) t = Some v \<Longrightarrow> t = k \<and> v = a \<or> dict_get d t = Some v" for k a and d :: fw_table by (auto split: if_splits)
  from this [OF v [unfolded objects]] consider "t = ''policies/'' @ ?n" "v = ?admin" | "dict_get app t = Some v" by blast
  then show ?thesis
  proof cases
    case 1
    have "CHR ''m'' \<in> set ''hwlrima''" by simp
    then show ?thesis using fixed [of lan_zone] fixed [of "''HOST''"] unfolding placed_def target_of_def 1 policy_names by simp blast
  next
    case 2
    then consider sid service policy gen where "in_mode effective services ''isolated'' sid service policy"
        "isolated_objects sha256 ip_network lan_zone sid service policy = Inr gen" "(t, v) \<in> set gen"
      | "host_listeners sha256 lan_zone effective services (t, v)"
      using application_objects [OF app services] unfolding from_isolated_def by blast
    then show ?thesis
    proof cases
      case 1
      then show ?thesis using isolated_placed [OF 1(2,3) ip] isolated_service_objects [OF c services 1(1)] by blast
    next
      case 2
      then obtain ports forwards where "t = ''policies/'' @ host_listener_policy_name sha256"
        "v = drop_ports (host_listener_policy_name sha256) lan_zone ''HOST'' ports forwards" by (auto simp: host_listeners_def)
      then show ?thesis
        using drop_ports_placed [of "CHR ''i''" "host_listener_policy_name sha256" sha256 "'':host-listeners''"] fixed by (simp add: policy_names)
    qed
  qed
qed

lemma placed_ok:
  assumes "placed sha256 ip_version lan_zone objects t v" and hex: "hex_digests sha256" and lan: "lan_zone_ok lan_zone"
  shows "object_ok ip_version v \<longleftrightarrow> (\<forall>p. v = FwPolicy p \<longrightarrow> ports_valid p)" and "is_zone v \<longleftrightarrow> starts_with (object_name v) ''nv2z''"
proof -
  note names = digest_names [OF hex]
  have z: "zone_ok y" if "zone_placed sha256 lan_zone objects y" for y
    using that lan names(2) by (auto simp: zone_placed_def zone_ok_def)
  show "object_ok ip_version v \<longleftrightarrow> (\<forall>p. v = FwPolicy p \<longrightarrow> ports_valid p)"
  proof (cases v)
    case (FwZone n i)
    then show ?thesis using assms(1) names(1) [of "CHR ''z''"] names(3) by (auto simp: placed_def zone_name_def)
  next
    case (FwPolicy p)
    then obtain c s where c: "c \<in> set ''hwlrima''" and n: "fw_name p = ''nv2'' @ c # short_digest sha256 s"
      and rest: "fw_target p \<in> {''ACCEPT'', ''DROP'', ''CONTINUE''}" "fw_priority p \<in> {- 300, - 100, - 50, 50}"
        "zone_placed sha256 lan_zone objects (fw_ingress p)" "zone_placed sha256 lan_zone objects (fw_egress p)"
        "list_all (rule_ok ip_version) (fw_rules p)"
      using assms(1) unfolding placed_def FwPolicy fw_object.case by blast
    have "c \<in> set ''zhwlrima''" "c \<noteq> CHR ''z''" using c by auto
    then have "owned_name (fw_name p)" "\<not> starts_with (fw_name p) ''nv2z''" using names(1) [of c s] by (simp_all only: n) simp
    then have "policy_ok ip_version p" using rest z by (auto simp: policy_ok_def)
    then show ?thesis using FwPolicy by simp
  qed
  show "is_zone v \<longleftrightarrow> starts_with (object_name v) ''nv2z''"
    using assms(1) by (cases v) (auto simp: placed_def zone_name_def)
qed

text \<open>
  C10: the reconciler understands the compiler. For digests and networks as the standard library
  defines them and a LAN zone outside the appliance's own namespace, the reconciler accepts the
  manifest of a compiled projection exactly if every port in it is a port number or a range of
  them, and then it reads back exactly the projected objects.
\<close>

theorem projection_accepted:
  assumes "compile_projection sha256 ip_network effective (JStr lan_zone) = Inr (objects, m)"
    and "hex_digests sha256" and "networks_reparse ip_network ip_version" and "\<not> starts_with lan_zone ''nv2z''"
  shows "if \<forall>(t, v) \<in> set objects. \<forall>p. v = FwPolicy p \<longrightarrow> ports_valid p
    then \<exists>desired. read_projection ip_version (Inr (manifest_json m)) = Inr desired \<and> snd ` set desired = snd ` set objects
    else isl (read_projection ip_version (Inr (manifest_json m)))"
proof -
  let ?vs = "manifest_objects m"
  obtain d: "distinct (map fst objects)" and vs: "?vs = map snd (sort_key fst objects)"
    by (rule projection_parts [OF assms(1)]) (auto simp: manifest_of_def)
  have lan: "lan_zone_ok lan_zone"
    using assms(1) by (auto simp: compile_projection_def compile_remote_admin_projection_def validate_lan_zone_def split: if_splits)
  have set_vs: "set ?vs = snd ` set objects" by (simp add: vs)
  have placed: "placed sha256 ip_version lan_zone objects t v" if "(t, v) \<in> set objects" for t v
    using projection_placed [OF assms(1,3)] map_of_is_SomeI [OF d that] by blast
  note ok = placed_ok [OF placed assms(2) lan]
  have origin: "\<exists>t. (t, v) \<in> set objects" if "v \<in> set ?vs" for v using that by (force simp: set_vs)
  have "map fst (sort_key fst objects) = map target_of ?vs"
    using placed by (auto simp: vs placed_def)
  moreover have "distinct (map fst (sort_key fst objects))" using d by (simp add: distinct_map)
  ultimately have dt: "distinct (map target_of ?vs)" by simp
  have dn: "distinct (map object_name ?vs)"
  proof -
    have kind: "is_zone v \<longleftrightarrow> starts_with (object_name v) ''nv2z''" if "v \<in> set ?vs" for v using origin [OF that] ok(2) by blast
    have "target_of v = target_of w" if "v \<in> set ?vs" "w \<in> set ?vs" "object_name v = object_name w" for v w
      unfolding target_of_def kind [OF that(1)] kind [OF that(2)] that(3) ..
    then show ?thesis using dt unfolding distinct_map inj_on_def by blast
  qed
  let ?d = "map (\<lambda>v. (object_name v, v)) ?vs"
  have known: "zone_known ?d y" if "zone_placed sha256 lan_zone objects y" for y
  proof -
    have "y \<in> {lan_zone, ''HOST'', ''ANY''} \<Longrightarrow> \<not> starts_with y ''nv2z''" using assms(4) by auto
    moreover have "FwZone y i \<in> set ?vs" if "dict_get objects (''zones/'' @ y) = Some (FwZone y i)" for i
      using map_of_SomeD [OF that] by (force simp: set_vs)
    ultimately show ?thesis using that unfolding zone_placed_def zone_known_def by (force simp: list_ex_iff)
  qed
  have refs: "check_all ?d (check_references ?d) = Inr ()"
    unfolding check_all_Inr_iff
  proof
    fix x assume "x \<in> set ?d"
    then obtain v where x: "x = (object_name v, v)" and "v \<in> set ?vs" by auto
    then obtain t where v: "(t, v) \<in> set objects" using origin by blast
    show "check_references ?d x = Inr ()"
      using placed [OF v] known by (cases v) (auto simp: x check_references_def placed_def)
  qed
  have read: "read_projection ip_version (Inr (manifest_json m)) = Inr r \<longleftrightarrow> list_all (object_ok ip_version) ?vs \<and> r = ?d" for r
    using dn refs
    by (auto simp: read_projection_def read_manifest_def manifest_json_def dget_def and_then_Inr_iff enter_objects_json simp del: check_all_Inr_iff)
  have all: "list_all (object_ok ip_version) ?vs \<longleftrightarrow> (\<forall>(t, v) \<in> set objects. \<forall>p. v = FwPolicy p \<longrightarrow> ports_valid p)"
    using ok(1) by (fastforce simp: list_all_iff set_vs)
  have same: "snd ` set ?d = snd ` set objects" by (force simp: set_vs)
  show ?thesis
  proof (cases "list_all (object_ok ip_version) ?vs")
    case True
    then have "read_projection ip_version (Inr (manifest_json m)) = Inr ?d" using read [of ?d] by simp
    then show ?thesis using same unfolding True [unfolded all, THEN eqTrueI] if_True by (intro exI conjI)
  next
    case False
    then have "isl (read_projection ip_version (Inr (manifest_json m)))"
      using read by (cases "read_projection ip_version (Inr (manifest_json m))") auto
    then show ?thesis unfolding False [unfolded all, THEN Eq_FalseI, THEN meta_eq_to_obj_eq] if_False .
  qed
qed

section \<open>A concrete run\<close>

definition pad_digest :: digest where
  "pad_digest s = replicate 64 CHR ''a''"

definition host_network :: json_dict where
  "host_network = [(''services'', JObj [(''b'', JObj sample_host)])]"

definition sample_manifest :: fw_manifest where
  "sample_manifest = snd (projr (compile_projection pad_digest (\<lambda>_. None) host_network (JStr ''lan'')))"

text \<open>A host whose \<open>firewall-cmd\<close> lists one zone of the appliance, which the manifest asks for again.\<close>

definition sample_zone :: string where
  "sample_zone = ''nv2z000000000000''"

definition zone_manifest :: json where
  "zone_manifest = manifest_json \<lparr>manifest_objects = [FwZone sample_zone ''nv200000000000''], manifest_owners = []\<rparr>"

definition sample_cmd :: "unit firewall_cmd" where
  "sample_cmd w args = (w, Some (0, sample_zone))"

definition sample_session :: "unit fw_session" where
  "sample_session = \<lparr>fw_world = (), fw_log = []\<rparr>"

definition fw_sample_run :: "(bool \<times> string list) res \<times> unit fw_session" where
  "fw_sample_run = reconcile_firewalld sample_cmd (\<lambda>_. None) (Inr zone_manifest) sample_session"

lemma fw_sample_runs:
  "fw_sample_run = (Inr (True, [sample_zone]), \<lparr>fw_world = (), fw_log = [GetZones True, GetPolicies True, DeleteZone sample_zone,
     NewZone sample_zone, AddInterface sample_zone ''nv200000000000'', CheckConfig, Reload, State, GetZones False, GetPolicies False]\<rparr>)"
  by code_simp

lemma pad_hex: "hex_digests pad_digest"
  by (simp add: hex_digests_def pad_digest_def list_all_iff lower_hex_def)

theorem projection_accepted_witness:
  "\<not> isl (read_projection (\<lambda>_. None) (Inr (manifest_json sample_manifest)))"
proof -
  let ?p = "compile_projection pad_digest (\<lambda>_. None) host_network (JStr ''lan'')"
  have "\<not> isl ?p" by code_simp
  then have c: "?p = Inr (fst (projr ?p), sample_manifest)" unfolding sample_manifest_def using right_result by fastforce
  have ports: "list_all (\<lambda>(t, v). case v of FwPolicy p \<Rightarrow> ports_valid p | _ \<Rightarrow> True) (fst (projr ?p))" by code_simp
  then have "\<forall>(t, v) \<in> set (fst (projr ?p)). \<forall>p. v = FwPolicy p \<longrightarrow> ports_valid p" by (auto simp: list_all_iff)
  moreover have "networks_reparse (\<lambda>_. None) (\<lambda>_. None)" "\<not> starts_with ''lan'' ''nv2z''" by (simp_all add: networks_reparse_def)
  ultimately show ?thesis using projection_accepted [OF c pad_hex] by force
qed

theorem firewalld_touches_owned_witness: "DeleteZone sample_zone \<in> set (fw_log (snd fw_sample_run)) \<and> owned_name sample_zone"
proof
  have "fw_log sample_session = []" by (simp add: sample_session_def)
  from firewalld_touches_owned [OF this, of sample_cmd "\<lambda>_. None" "Inr zone_manifest" "fst fw_sample_run" "snd fw_sample_run"]
  have "\<forall>c n. c \<in> set (fw_log (snd fw_sample_run)) \<and> subject c = Some n \<longrightarrow> owned_name n" by (simp add: fw_sample_run_def)
  moreover show "DeleteZone sample_zone \<in> set (fw_log (snd fw_sample_run))" by (simp add: fw_sample_runs)
  ultimately show "owned_name sample_zone" by (metis subject.simps(7))
qed


end
