(* ===== verification/V2_Nmstate.thy ===== *)
theory V2_Nmstate
  imports V2_Firewalld
begin

text \<open>
  The host network reconciler (\<open>services/nas_v2_nmstate.py\<close>): the VLAN and VRF interfaces that the
  services of the effective state need, the interfaces of the appliance that are no longer
  needed, and the one transaction that \<open>nmstatectl\<close> applies. \<open>nmstatectl\<close> is a parameter: it maps
  the state of the host and the payload to a new state and an exit code with the standard
  output, or nothing where it cannot be run. The payload is the value behind the JSON text.
\<close>

definition nmstate_error :: "string \<Rightarrow> exn" where
  "nmstate_error m = RuntimeError m"

definition vrf_name_ok :: "string \<Rightarrow> bool" where
  "vrf_name_ok s \<longleftrightarrow> starts_with s ''nv2vrf'' \<and> hex_name 7 (drop 6 s)"

definition vlan_name_ok :: "string \<Rightarrow> bool" where
  "vlan_name_ok s \<longleftrightarrow> starts_with s ''nv2vl'' \<and> hex_name 8 (drop 5 s)"

definition load_effective :: "json res \<Rightarrow> json_dict res" where
  "load_effective loaded =
     (case loaded of
        Inl e \<Rightarrow> Inl (if e = JSONDecodeError \<or> e \<in> {OSError, FileNotFoundError, FileExistsError, PermissionError}
          then nmstate_error ''unable to read compiled effective state'' else e)
      | Inr (JObj d) \<Rightarrow> if eq_int (dget d ''schemaVersion'' JNull) 3 then Inr d
          else Inl (nmstate_error ''compiled effective state must be schemaVersion 3'')
      | Inr _ \<Rightarrow> Inl (nmstate_error ''compiled effective state must be schemaVersion 3''))"

definition bound_policy :: "json_dict \<Rightarrow> string \<Rightarrow> json_dict res" where
  "bound_policy policy trunk =
     (if dict_get policy ''vlanId'' = None \<or> dict_get policy ''vlanParent'' \<noteq> None then Inr policy
      else if trunk = [] then Inl (nmstate_error ''network.vlanId requires applicationVlanParent'')
      else Inr (dict_set ''vlanParent'' (JStr trunk) policy))"

text \<open>\<open>except RuntimeError as exc: raise NmstateReconcileError(str(exc))\<close>.\<close>

fun rewrap :: "'a res \<Rightarrow> 'a res" where
  "rewrap (Inl (RuntimeError m)) = Inl (nmstate_error m)"
| "rewrap r = r"

definition service_binding :: "digest \<Rightarrow> json_dict \<Rightarrow> string \<Rightarrow> json_dict \<Rightarrow> vlan option res" where
  "service_binding sha256 effective trunk service =
     rewrap (and_then (network_policy effective service) (\<lambda>policy.
       and_then (bound_policy policy trunk) (vlan_binding sha256)))"

definition add_binding :: "digest \<Rightarrow> json_dict \<Rightarrow> string \<Rightarrow> string \<times> json \<Rightarrow> (string, vlan) dict \<Rightarrow> (string, vlan) dict res" where
  "add_binding sha256 effective trunk = (\<lambda>(_, value) bindings.
     case value of
       JObj service \<Rightarrow>
         if \<not> flag_on service ''managed'' \<or> \<not> flag_on service ''enabled'' then Inr bindings
         else and_then (service_binding sha256 effective trunk service) (\<lambda>binding.
           Inr (case binding of None \<Rightarrow> bindings | Some v \<Rightarrow> dict_set (vlan_key v) v bindings))
     | _ \<Rightarrow> Inr bindings)"

definition yes :: "string \<Rightarrow> string \<times> json" where
  "yes k = (k, JBool True)"

definition no :: "string \<Rightarrow> string \<times> json" where
  "no k = (k, JBool False)"

definition vlan_interface_json :: "vlan \<Rightarrow> json" where
  "vlan_interface_json v = JObj [(''name'', JStr (vlan_interface v)), (''type'', JStr ''vlan''), (''state'', JStr ''up''),
     (''vlan'', JObj [(''base-iface'', JStr (vlan_parent v)), (''id'', JInt (vlan_id v))]),
     (''ipv4'', JObj [yes ''enabled'', yes ''dhcp'', no ''auto-dns'', yes ''auto-routes'', yes ''auto-gateway'']),
     (''ipv6'', JObj [yes ''enabled'', yes ''dhcp'', yes ''autoconf'', no ''auto-dns'', yes ''auto-routes'', yes ''auto-gateway''])]"

definition vrf_interface_json :: "vlan \<Rightarrow> json" where
  "vrf_interface_json v = JObj [(''name'', JStr (vrf_interface v)), (''type'', JStr ''vrf''), (''state'', JStr ''up''),
     (''vrf'', JObj [(''port'', JList [JStr (vlan_interface v)]), (''route-table-id'', JInt (vlan_table v))]),
     (''ipv4'', JObj [no ''enabled'']), (''ipv6'', JObj [no ''enabled''])]"

definition desired_state :: "digest \<Rightarrow> json_dict \<Rightarrow> string \<Rightarrow> json list res" where
  "desired_state sha256 effective trunk =
     and_then (expect_obj (nmstate_error ''compiled effective state is missing services'') (dget effective ''services'' JNull)) (\<lambda>services.
     and_then (for_each (sort_key fst services) (add_binding sha256 effective trunk) []) (\<lambda>bindings.
     Inr (concat (map (\<lambda>(_, v). [vlan_interface_json v, vrf_interface_json v]) (sort_key fst bindings)))))"

text \<open>The names in a list of interfaces.\<close>

definition iface_name :: "json \<Rightarrow> string option" where
  "iface_name v = (case v of JObj d \<Rightarrow> (case dget d ''name'' JNull of JStr s \<Rightarrow> Some s | _ \<Rightarrow> None) | _ \<Rightarrow> None)"

definition iface_names :: "json list \<Rightarrow> string list" where
  "iface_names vs = List.map_filter iface_name vs"

definition stale_names :: "json list \<Rightarrow> json list \<Rightarrow> string list" where
  "stale_names desired current =
     sort_key (\<lambda>n. (if vrf_name_ok n then 0 else 1 :: int, n))
       (remdups (filter (\<lambda>n. (vrf_name_ok n \<or> vlan_name_ok n) \<and> n \<notin> set (iface_names desired)) (iface_names current)))"

definition absent_json :: "string \<Rightarrow> json" where
  "absent_json n = JObj [(''name'', JStr n), (''state'', JStr ''absent'')]"

definition with_stale_absent :: "json list \<Rightarrow> json list \<Rightarrow> json list" where
  "with_stale_absent desired current = desired @ map absent_json (stale_names desired current)"

section \<open>The transaction\<close>

type_synonym 'w nmstatectl = "'w \<Rightarrow> json option \<Rightarrow> 'w \<times> (int \<times> json res) option"

definition run_nm :: "'w nmstatectl \<Rightarrow> json option \<Rightarrow> ('w, json res) act" where
  "run_nm ctl payload w =
     (case ctl w payload of (w', reply) \<Rightarrow>
        (case reply of
           None \<Rightarrow> Inl (nmstate_error ''unable to execute nmstatectl'')
         | Some (rc, out) \<Rightarrow> if rc \<noteq> 0 then Inl (nmstate_error ''nmstatectl failed'') else Inr out, w'))"

definition current_state :: "'w nmstatectl \<Rightarrow> ('w, json list) act" where
  "current_state ctl = bind (run_nm ctl None) (\<lambda>out.
     case out of
       Inr (JObj d) \<Rightarrow> (case dget d ''interfaces'' JNull of JList vs \<Rightarrow> ret vs
         | _ \<Rightarrow> raise (nmstate_error ''nmstatectl show returned an invalid network state''))
     | Inr _ \<Rightarrow> raise (nmstate_error ''nmstatectl show returned an invalid network state'')
     | Inl _ \<Rightarrow> raise (nmstate_error ''nmstatectl show returned invalid JSON''))"

definition is_absent :: "json \<Rightarrow> bool" where
  "is_absent v = (case v of JObj d \<Rightarrow> dget d ''state'' JNull = JStr ''absent'' | _ \<Rightarrow> False)"

definition reconcile_nmstate :: "digest \<Rightarrow> 'w nmstatectl \<Rightarrow> json_dict \<Rightarrow> string \<Rightarrow> ('w, string list \<times> string list) act" where
  "reconcile_nmstate sha256 ctl effective trunk =
     bind (lift_res (desired_state sha256 effective trunk)) (\<lambda>desired.
     bind (current_state ctl) (\<lambda>current.
     let ifaces = with_stale_absent desired current in
     bind (run_nm ctl (Some (JObj [(''interfaces'', JList ifaces)]))) (\<lambda>_.
     ret (sort (iface_names desired), sort (iface_names (filter is_absent ifaces))))))"

section \<open>What is removed\<close>

lemma set_iface_names: "set (iface_names vs) = {n. \<exists>v \<in> set vs. iface_name v = Some n}"
  by (force simp: iface_names_def map_filter_def)

lemma set_stale_names: "set (stale_names desired current) =
    {n \<in> set (iface_names current). (vrf_name_ok n \<or> vlan_name_ok n) \<and> n \<notin> set (iface_names desired)}"
  by (auto simp: stale_names_def)

lemma absent_json_simps [simp]: "iface_name (absent_json n) = Some n" "is_absent (absent_json n)"
  by (simp_all add: absent_json_def iface_name_def is_absent_def dget_def)

lemma add_binding_values:
  assumes "add_binding sha256 effective trunk x bs = Inr bs'" and "v \<in> snd ` set bs'"
  shows "v \<in> snd ` set bs \<or> (\<exists>n p. v = vlan_of sha256 n p)"
proof -
  obtain sid val where x: "x = (sid, val)" by (cases x)
  show ?thesis
  proof (cases "bs' = bs")
    case False
    then obtain service b where b: "service_binding sha256 effective trunk service = Inr (Some b)" and bs': "bs' = dict_set (vlan_key b) b bs"
      using assms(1) by (auto simp: add_binding_def x and_then_Inr_iff split: json.splits if_splits option.splits)
    obtain policy where "vlan_binding sha256 policy = Inr (Some b)"
      using b by (auto simp: service_binding_def and_then_Inr_iff elim!: rewrap.elims)
    then have "\<exists>n p. b = vlan_of sha256 n p"
      by (auto simp: vlan_binding_def Let_def res_simps split: if_splits json.splits)
    moreover have "snd ` set bs' \<subseteq> insert b (snd ` set bs)" unfolding bs' by (induction bs) (auto split: if_splits)
    ultimately show ?thesis using assms(2) by blast
  qed (use assms(2) in simp)
qed

lemma desired_state_interfaces:
  assumes "desired_state sha256 effective trunk = Inr ifaces" and "i \<in> set ifaces"
  shows "\<exists>n p. i = vlan_interface_json (vlan_of sha256 n p) \<or> i = vrf_interface_json (vlan_of sha256 n p)"
proof -
  obtain services bindings where run: "for_each (sort_key fst services) (add_binding sha256 effective trunk) [] = Inr bindings"
    and ifaces: "ifaces = concat (map (\<lambda>(_, v). [vlan_interface_json v, vrf_interface_json v]) (sort_key fst bindings))"
    using assms(1) by (auto simp: desired_state_def and_then_Inr_iff)
  have "\<forall>v \<in> snd ` set bindings. \<exists>n p. v = vlan_of sha256 n p"
  proof (rule for_each_invariant [OF run])
    show "\<forall>v \<in> snd ` set t'. \<exists>n p. v = vlan_of sha256 n p"
      if "\<forall>v \<in> snd ` set t. \<exists>n p. v = vlan_of sha256 n p" "add_binding sha256 effective trunk x t = Inr t'" for x t t'
      using add_binding_values [OF that(2)] that(1) by blast
  qed simp
  then show ?thesis using assms(2) by (force simp: ifaces)
qed

lemma desired_names_owned:
  assumes "desired_state sha256 effective trunk = Inr ifaces" and hex: "hex_digests sha256" and "n \<in> set (iface_names ifaces)"
  shows "vrf_name_ok n \<or> vlan_name_ok n"
proof -
  obtain i where i: "i \<in> set ifaces" "iface_name i = Some n" using assms(3) by (auto simp: set_iface_names)
  obtain k p where "i = vlan_interface_json (vlan_of sha256 k p) \<or> i = vrf_interface_json (vlan_of sha256 k p)"
    using desired_state_interfaces [OF assms(1) i(1)] by blast
  moreover have "list_all lower_hex (take j (sha256 s))" "length (sha256 s) = 64" for j s
    using hex by (auto simp: hex_digests_def list_all_iff dest!: in_set_takeD)
  ultimately show ?thesis using i(2)
    by (auto simp: iface_name_def vlan_interface_json_def vrf_interface_json_def dget_def vlan_of_def Let_def vrf_name_ok_def vlan_name_ok_def
        hex_name_def starts_with_iff)
qed

text \<open>
  C13: the host network keeps nothing that the appliance no longer needs and loses nothing else.
  Suppose the host has, among others, the interfaces that an earlier effective state asked
  for. The interfaces that the transaction for the present state marks as absent are all
  named in the appliance's own namespace, exist on the host and are not needed; and every
  interface that only the earlier state needed is among them.
\<close>

theorem nmstate_removes_exactly_stale:
  assumes "desired_state sha256 old trunk = Inr before" and "set (iface_names before) \<subseteq> set (iface_names current)"
    and "desired_state sha256 effective trunk = Inr desired" and "hex_digests sha256"
  shows "with_stale_absent desired current = desired @ map absent_json (stale_names desired current) \<and>
    (\<forall>n \<in> set (stale_names desired current). (vrf_name_ok n \<or> vlan_name_ok n) \<and> n \<in> set (iface_names current) \<and> n \<notin> set (iface_names desired)) \<and>
    set (iface_names before) - set (iface_names desired) \<subseteq> set (stale_names desired current) \<and>
    distinct (stale_names desired current)"
proof -
  have "set (iface_names before) - set (iface_names desired) \<subseteq> set (stale_names desired current)"
    using desired_names_owned [OF assms(1,4)] assms(2) unfolding set_stale_names by blast
  moreover have "distinct (stale_names desired current)" by (simp add: stale_names_def)
  ultimately show ?thesis by (auto simp: with_stale_absent_def set_stale_names)
qed

definition vlan_network :: "int \<Rightarrow> json_dict" where
  "vlan_network n = [(''services'', JObj [(''a'', JObj [(''network'', JObj [(''vlanId'', JInt n)])])])]"

theorem nmstate_removes_exactly_stale_witness:
  "\<exists>before. desired_state pad_digest (vlan_network 5) ''eth0'' = Inr before \<and>
    set (iface_names before) \<subseteq> set (stale_names [] before)"
proof -
  let ?r = "desired_state pad_digest (vlan_network 5) ''eth0''"
  have "\<not> isl ?r" by code_simp
  then have r: "?r = Inr (projr ?r)" by (rule right_result)
  have n: "desired_state pad_digest [(''services'', JEmpty)] ''eth0'' = Inr []" by code_simp
  show ?thesis
    using nmstate_removes_exactly_stale [OF r subset_refl n pad_hex] r by (auto simp: iface_names_def map_filter_def)
qed

end
