(* ===== verification/V2_Bundle.thy ===== *)
theory V2_Bundle
  imports V2_Network Effects "HOL-Library.Sublist"
begin

text \<open>
  The file-level transaction of the apply step (\<open>services/nas_v2_apply.py\<close>): binding the VLAN
  trunk of the host, the stale files of a projection, and the replacement of a bundle of files
  that restores the prior bytes on failure.

  A file is its bytes and its permission bits; directories and their synchronization have no
  effect on files. Every call first consults a script of faults, so a run meets whatever
  failure the script says. The local variables \<open>prepared\<close>, \<open>previous\<close> and \<open>mutated\<close>, which the
  exception handlers read, are part of the state. \<open>mkstemp\<close> is a parameter.
\<close>

definition apply_error :: "string \<Rightarrow> exn" where
  "apply_error m = RuntimeError m"

section \<open>VLAN trunks\<close>

definition active_service :: "json \<Rightarrow> json_dict option" where
  "active_service v = (case v of JObj s \<Rightarrow> if flag_on s ''managed'' \<and> flag_on s ''enabled'' then Some s else None | _ \<Rightarrow> None)"

definition has_vlan :: "json \<Rightarrow> bool" where
  "has_vlan v = (case v of JObj p \<Rightarrow> dict_get p ''vlanId'' \<noteq> None | _ \<Rightarrow> False)"

definition direct_vlan :: "string \<times> json \<Rightarrow> string option" where
  "direct_vlan = (\<lambda>(sid, v). case active_service v of
     None \<Rightarrow> None
   | Some s \<Rightarrow> if is_str (dget s ''networkProfile'' JNull) \<or> \<not> has_vlan (dget s ''network'' JNull) then None else Some sid)"

definition profile_vlan :: "json_dict \<Rightarrow> string \<times> json \<Rightarrow> string option" where
  "profile_vlan profiles = (\<lambda>(_, v). case active_service v of
     None \<Rightarrow> None
   | Some s \<Rightarrow> (case dget s ''networkProfile'' JNull of
        JStr name \<Rightarrow> if has_vlan (dget profiles name JNull) then Some name else None
      | _ \<Rightarrow> None))"

definition bind_parent :: "string \<Rightarrow> json \<Rightarrow> json" where
  "bind_parent trunk v = (case v of JObj p \<Rightarrow> JObj (dict_set ''vlanParent'' (JStr trunk) p) | _ \<Rightarrow> v)"

definition bind_network :: "string \<Rightarrow> json \<Rightarrow> json" where
  "bind_network trunk v = (case v of JObj s \<Rightarrow> JObj (dict_set ''network'' (bind_parent trunk (dget s ''network'' JNull)) s) | _ \<Rightarrow> v)"

definition bind_platform_vlan_parent :: "json_dict \<Rightarrow> string \<Rightarrow> json_dict res" where
  "bind_platform_vlan_parent effective trunk =
     (case (dget effective ''services'' JNull, dget effective ''networkProfiles'' JNull) of
        (JObj services, JObj profiles) \<Rightarrow>
          let direct = List.map_filter direct_vlan services; referenced = List.map_filter (profile_vlan profiles) services in
          if direct = [] \<and> referenced = [] then Inr effective
          else if trunk = [] then Inl (apply_error ''network.vlanId requires applicationVlanParent'')
          else Inr (dict_set ''networkProfiles'' (JObj (map (\<lambda>(n, p). (n, if n \<in> set referenced then bind_parent trunk p else p)) profiles))
            (dict_set ''services'' (JObj (map (\<lambda>(n, s). (n, if n \<in> set direct then bind_network trunk s else s)) services)) effective))
      | _ \<Rightarrow> Inr effective)"

section \<open>Stale files\<close>

type_synonym file_path = "string list"

definition V2_OWNED_DIRS :: "string list" where
  "V2_OWNED_DIRS = [''units'', ''descriptors'', ''networks'', ''policies'', ''zones'', ''quadlet'', ''compose'', ''vm'']"

definition V2_STALE_SUFFIXES :: "string list" where
  "V2_STALE_SUFFIXES = [''.service'', ''.timer'', ''.target'', ''.path'', ''.network'', ''.container'', ''.json'']"

definition name_ends_with :: "string \<Rightarrow> string \<Rightarrow> bool" where
  "name_ends_with s t = starts_with (rev s) (rev t)"

definition is_v2_stale_candidate :: "file_path \<Rightarrow> file_path \<Rightarrow> bool" where
  "is_v2_stale_candidate p root =
     (let rel = drop (length root) p in
      starts_with (last p) ''nas-v2-'' \<or> list_ex (name_ends_with (last p)) V2_STALE_SUFFIXES \<or>
      prefix root p \<and> (rel \<noteq> [] \<and> hd rel \<in> set V2_OWNED_DIRS \<or> list_ex (\<lambda>c. c \<in> set V2_OWNED_DIRS) (butlast rel)))"

datatype entry_kind = Directory | Regular | Other

text \<open>\<open>entries\<close> lists what \<open>rglob\<close> finds, with the kind that \<open>lstat\<close> reports, or nothing for an entry that is gone by then.\<close>

fun projection_stale_files :: "file_path \<Rightarrow> file_path list \<Rightarrow> (file_path \<times> entry_kind option) list \<Rightarrow> file_path list res" where
  "projection_stale_files root current [] = Inr []"
| "projection_stale_files root current ((p, kind) # entries) =
     (case kind of
        None \<Rightarrow> projection_stale_files root current entries
      | Some Directory \<Rightarrow> projection_stale_files root current entries
      | Some Other \<Rightarrow> Inl (apply_error ''unexpected non-regular entry in V2 projection root'')
      | Some Regular \<Rightarrow> and_then (projection_stale_files root current entries) (\<lambda>stale.
          Inr (if p \<notin> set current \<and> is_v2_stale_candidate p root then p # stale else stale)))"

section \<open>Files and faults\<close>

type_synonym content = "string \<times> nat"

type_synonym file_table = "(file_path, content) dict"

record bundle_state =
  b_files :: file_table
  b_script :: "bool list"
  b_prepared :: "(file_path \<times> file_path) list"
  b_previous :: "(file_path, content option) dict"
  b_mutated :: "file_path list"

definition file_call :: "(file_table \<Rightarrow> ('a \<times> file_table) res) \<Rightarrow> (bundle_state, 'a) act" where
  "file_call h s =
     (let s' = s\<lparr>b_script := tl (b_script s)\<rparr> in
      if b_script s \<noteq> [] \<and> hd (b_script s) then (Inl OSError, s')
      else case h (b_files s) of Inl e \<Rightarrow> (Inl e, s') | Inr (x, f) \<Rightarrow> (Inr x, s'\<lparr>b_files := f\<rparr>))"

definition sync_call :: "(bundle_state, unit) act" where
  "sync_call = file_call (\<lambda>f. Inr ((), f))"

definition look :: "file_path \<Rightarrow> (content \<Rightarrow> 'a) \<Rightarrow> (bundle_state, 'a) act" where
  "look p g = file_call (\<lambda>f. case dict_get f p of None \<Rightarrow> Inl FileNotFoundError | Some x \<Rightarrow> Inr (g x, f))"

definition put_call :: "file_path \<Rightarrow> content \<Rightarrow> (bundle_state, unit) act" where
  "put_call p x = file_call (\<lambda>f. Inr ((), dict_set p x f))"

definition unlink_call :: "file_path \<Rightarrow> (bundle_state, unit) act" where
  "unlink_call p = file_call (\<lambda>f. if dict_get f p = None then Inl FileNotFoundError else Inr ((), filter (\<lambda>(q, _). q \<noteq> p) f))"

definition replace_call :: "file_path \<Rightarrow> file_path \<Rightarrow> (bundle_state, unit) act" where
  "replace_call t p = file_call (\<lambda>f. case dict_get f t of
     None \<Rightarrow> Inl FileNotFoundError
   | Some x \<Rightarrow> Inr ((), dict_set p x (filter (\<lambda>(q, _). q \<noteq> t) f)))"

definition unlink_ok :: "file_path \<Rightarrow> (bundle_state, unit) act" where
  "unlink_ok p = handle (unlink_call p) (\<lambda>e. if e = FileNotFoundError then ret () else raise e)"

text \<open>\<open>mkstemp\<close> creates an empty file with mode 0600 under a new name.\<close>

definition make_temp :: "(file_path \<Rightarrow> file_table \<Rightarrow> file_path) \<Rightarrow> file_path \<Rightarrow> (bundle_state, file_path) act" where
  "make_temp mkstemp p = file_call (\<lambda>f. Inr (mkstemp p f, dict_set (mkstemp p f) ([], 384) f))"

definition prepare_temp :: "(file_path \<Rightarrow> file_table \<Rightarrow> file_path) \<Rightarrow> file_path \<Rightarrow> content \<Rightarrow> (bundle_state, file_path) act" where
  "prepare_temp mkstemp p = (\<lambda>(data, mode).
     bind sync_call (\<lambda>_.
     bind (make_temp mkstemp p) (\<lambda>temp.
     handle (bind (put_call temp (data, 384)) (\<lambda>_. bind sync_call (\<lambda>_. bind (put_call temp (data, mode)) (\<lambda>_. ret temp))))
       (\<lambda>e. bind (unlink_ok temp) (\<lambda>_. raise e)))))"

section \<open>Replacing a bundle\<close>

text \<open>\<open>try: ... except FileNotFoundError: ...\<close>.\<close>

definition if_missing :: "(bundle_state, 'a) act \<Rightarrow> 'a \<Rightarrow> (bundle_state, 'a) act" where
  "if_missing m x = handle m (\<lambda>e. if e = FileNotFoundError then ret x else raise e)"

definition unchanged :: "file_path \<times> content \<Rightarrow> (bundle_state, bool) act" where
  "unchanged = (\<lambda>(p, data, mode).
     if_missing (bind (look p fst) (\<lambda>b. if b \<noteq> data then ret False else bind (look p snd) (\<lambda>m. ret (m = mode)))) False)"

fun changed_files :: "(file_path \<times> content) list \<Rightarrow> (bundle_state, (file_path \<times> content) list) act" where
  "changed_files [] = ret []"
| "changed_files (x # xs) = bind (unchanged x) (\<lambda>same. bind (changed_files xs) (\<lambda>rest. ret (if same then rest else x # rest)))"

definition note_previous :: "file_path \<Rightarrow> (bundle_state, unit) act" where
  "note_previous p =
     bind (if_missing (bind (look p snd) (\<lambda>m. bind (look p fst) (\<lambda>b. ret (Some (b, m))))) None) (\<lambda>old.
     modify (\<lambda>s. s\<lparr>b_previous := dict_set p old (b_previous s)\<rparr>))"

definition prepare_file :: "(file_path \<Rightarrow> file_table \<Rightarrow> file_path) \<Rightarrow> file_path \<times> content \<Rightarrow> (bundle_state, unit) act" where
  "prepare_file mkstemp = (\<lambda>(p, x).
     bind (note_previous p) (\<lambda>_.
     bind (prepare_temp mkstemp p x) (\<lambda>temp.
     modify (\<lambda>s. s\<lparr>b_prepared := b_prepared s @ [(p, temp)]\<rparr>))))"

definition mark_mutated :: "file_path \<Rightarrow> (bundle_state, unit) act" where
  "mark_mutated p = modify (\<lambda>s. s\<lparr>b_mutated := b_mutated s @ [p]\<rparr>)"

definition install_file :: "file_path \<times> file_path \<Rightarrow> (bundle_state, unit) act" where
  "install_file = (\<lambda>(p, temp). bind (replace_call temp p) (\<lambda>_. mark_mutated p))"

definition remove_file :: "file_path \<Rightarrow> (bundle_state, unit) act" where
  "remove_file p = bind (if_missing (bind (unlink_call p) (\<lambda>_. ret True)) False) (\<lambda>gone. if gone then mark_mutated p else ret ())"

definition parents_of :: "file_path list \<Rightarrow> file_path list" where
  "parents_of ps = remdups (map butlast ps)"

definition mutate :: "file_path list \<Rightarrow> (bundle_state, unit) act" where
  "mutate removals =
     bind (gets b_prepared) (\<lambda>prepared.
     bind (each_act install_file prepared) (\<lambda>_.
     bind (each_act remove_file (sort_key (py_join ''/'') removals)) (\<lambda>_.
     bind (gets b_mutated) (\<lambda>mutated.
     each_act (\<lambda>_. sync_call) (parents_of mutated)))))"

definition restore_file :: "(file_path \<Rightarrow> file_table \<Rightarrow> file_path) \<Rightarrow> file_path \<Rightarrow> (bundle_state, unit) act" where
  "restore_file mkstemp p =
     bind (gets b_previous) (\<lambda>previous.
     case dict_get previous p of
       None \<Rightarrow> raise KeyError
     | Some None \<Rightarrow> bind (unlink_ok p) (\<lambda>_. sync_call)
     | Some (Some old) \<Rightarrow> bind (prepare_temp mkstemp p old) (\<lambda>temp. bind (replace_call temp p) (\<lambda>_. sync_call)))"

definition roll_back :: "(file_path \<Rightarrow> file_table \<Rightarrow> file_path) \<Rightarrow> exn \<Rightarrow> (bundle_state, unit) act" where
  "roll_back mkstemp e = bind (gets b_mutated) (\<lambda>mutated. bind (each_act (restore_file mkstemp) (rev mutated)) (\<lambda>_. raise e))"

definition clean_up :: "(bundle_state, unit) act" where
  "clean_up = bind (gets b_prepared) (\<lambda>prepared. each_act (\<lambda>(_, temp). unlink_ok temp) prepared)"

definition replace_bundle :: "(file_path \<Rightarrow> file_table \<Rightarrow> file_path) \<Rightarrow> (file_path \<times> content) list \<Rightarrow> file_path list \<Rightarrow> (bundle_state, file_path list) act" where
  "replace_bundle mkstemp files remove_paths =
     (let removals = filter (\<lambda>p. p \<notin> fst ` set files) (remdups remove_paths) in
      bind (changed_files files) (\<lambda>changed.
      bind (finally_do
        (bind (each_act (prepare_file mkstemp) changed) (\<lambda>_.
         bind (each_act note_previous removals) (\<lambda>_.
         handle (mutate removals) (roll_back mkstemp)))) clean_up) (\<lambda>_.
      bind (gets b_previous) (\<lambda>previous.
      ret (map fst changed @ filter (\<lambda>p. dict_get previous p \<notin> {None, Some None}) removals)))))"

definition write_unpublished_bundle :: "(file_path \<Rightarrow> file_table \<Rightarrow> file_path) \<Rightarrow> (file_path \<times> content) list \<Rightarrow> (bundle_state, unit) act" where
  "write_unpublished_bundle mkstemp files =
     (if \<not> distinct (map fst files) then raise (apply_error ''duplicate unpublished generation destination'')
      else bind (gets b_files) (\<lambda>f.
        if list_ex (\<lambda>(p, _). dict_get f p \<noteq> None) files then raise (apply_error ''unpublished generation destination already exists'')
        else finally_do
          (bind (each_act (\<lambda>(p, x). bind (prepare_temp mkstemp p x) (\<lambda>temp.
             modify (\<lambda>s. s\<lparr>b_prepared := b_prepared s @ [(p, temp)]\<rparr>))) files) (\<lambda>_.
           bind (gets b_prepared) (\<lambda>prepared.
           bind (each_act (\<lambda>(p, temp). replace_call temp p) prepared) (\<lambda>_.
           each_act (\<lambda>_. sync_call) (parents_of (map fst files)))))) clean_up))"

section \<open>Calls\<close>

text \<open>Nothing fails any more, and at most one call fails.\<close>

definition calm :: "bundle_state \<Rightarrow> bool" where
  "calm s \<longleftrightarrow> True \<notin> set (b_script s)"

definition lucky :: "bundle_state \<Rightarrow> bool" where
  "lucky s \<longleftrightarrow> length (filter id (b_script s)) \<le> 1"

definition hidden :: "file_path \<Rightarrow> bool" where
  "hidden p \<longleftrightarrow> starts_with (last p) ''.''"

definition fresh_temps :: "(file_path \<Rightarrow> file_table \<Rightarrow> file_path) \<Rightarrow> bool" where
  "fresh_temps mkstemp \<longleftrightarrow> (\<forall>p f. dict_get f (mkstemp p f) = None \<and> hidden (mkstemp p f))"

text \<open>The files that are not temporary.\<close>

definition visible :: "bundle_state \<Rightarrow> file_path \<Rightarrow> content option" where
  "visible s p = (if hidden p then None else dict_get (b_files s) p)"

definition after :: "file_table \<Rightarrow> bundle_state \<Rightarrow> bundle_state" where
  "after f s = s\<lparr>b_script := tl (b_script s), b_files := f\<rparr>"

lemma after_simps [simp]:
  "b_files (after f s) = f" "b_prepared (after f s) = b_prepared s" "b_previous (after f s) = b_previous s" "b_mutated (after f s) = b_mutated s"
  "calm s \<Longrightarrow> calm (after f s)"
  by (cases "b_script s"; auto simp: after_def calm_def)+

lemma locals_simps [simp]:
  "visible (s\<lparr>b_prepared := a\<rparr>) = visible s" "visible (s\<lparr>b_previous := b\<rparr>) = visible s" "visible (s\<lparr>b_mutated := c\<rparr>) = visible s"
  "lucky (s\<lparr>b_prepared := a\<rparr>) = lucky s" "lucky (s\<lparr>b_previous := b\<rparr>) = lucky s" "lucky (s\<lparr>b_mutated := c\<rparr>) = lucky s"
  "calm (s\<lparr>b_prepared := a\<rparr>) = calm s" "calm (s\<lparr>b_previous := b\<rparr>) = calm s" "calm (s\<lparr>b_mutated := c\<rparr>) = calm s"
  by (simp_all add: visible_def fun_eq_iff lucky_def calm_def)

lemma lucky_after [simp]: "lucky s \<Longrightarrow> lucky (after f s)"
  by (cases "b_script s") (auto simp: lucky_def after_def split: if_splits)

lemma lucky_fault: "lucky s \<Longrightarrow> b_script s \<noteq> [] \<Longrightarrow> hd (b_script s) \<Longrightarrow> calm (after f s)"
  by (cases "b_script s") (auto simp: lucky_def calm_def after_def filter_empty_conv)

lemma calm_lucky: "calm s \<Longrightarrow> lucky s"
  by (auto simp: calm_def lucky_def filter_empty_conv) (metis (full_types) filter_False id_apply le0 list.size(3))

lemma file_call_Inr: "file_call h s = (Inr x, s') \<Longrightarrow> \<exists>f. h (b_files s) = Inr (x, f) \<and> s' = after f s"
  by (auto simp: file_call_def Let_def after_def split: if_splits sum.splits)

lemma file_call_Inl:
  "file_call h s = (Inl e, s') \<Longrightarrow> s' = after (b_files s) s \<and> (h (b_files s) = Inl e \<or> e = OSError \<and> (lucky s \<longrightarrow> calm s'))"
  using lucky_fault [of s "b_files s"] by (auto simp: file_call_def Let_def after_def split: if_splits sum.splits)

lemma file_call_calm: "calm s \<Longrightarrow> file_call h s = (case h (b_files s) of Inl e \<Rightarrow> (Inl e, after (b_files s) s) | Inr (x, f) \<Rightarrow> (Inr x, after f s))"
  by (cases "b_script s") (auto simp: file_call_def calm_def after_def Let_def split: sum.splits)

lemmas call_defs = sync_call_def look_def put_call_def unlink_call_def replace_call_def make_temp_def

lemma dict_get_filtered: "dict_get (filter (\<lambda>(q, _). q \<noteq> p) f) q = (if q = p then None else dict_get f q)"
  by (induction f) auto

text \<open>\<open>frame s s'\<close>: the run kept the local variables and the visible files, and luck.\<close>

definition frame :: "bundle_state \<Rightarrow> bundle_state \<Rightarrow> bool" where
  "frame s s' \<longleftrightarrow> b_prepared s' = b_prepared s \<and> b_previous s' = b_previous s \<and> b_mutated s' = b_mutated s \<and>
     visible s' = visible s \<and> (lucky s \<longrightarrow> lucky s') \<and> (calm s \<longrightarrow> calm s')"

lemma frame_refl [simp]: "frame s s" by (simp add: frame_def)

lemma frame_trans [trans]: "frame s t \<Longrightarrow> frame t u \<Longrightarrow> frame s u" by (simp add: frame_def)

lemma frame_after: "(\<And>p. \<not> hidden p \<Longrightarrow> dict_get f p = dict_get (b_files s) p) \<Longrightarrow> frame s (after f s)"
  by (auto simp: frame_def visible_def)

definition framed :: "(bundle_state, 'a) act \<Rightarrow> bool" where
  "framed m \<longleftrightarrow> (\<forall>s. frame s (snd (m s)))"

lemma framedD: "framed m \<Longrightarrow> m s = (r, s') \<Longrightarrow> frame s s'"
  unfolding framed_def by (metis snd_conv)

named_theorems framed_intros "programs that keep the visible files"

lemma framed_call: "(\<And>f x f' p. h f = Inr (x, f') \<Longrightarrow> \<not> hidden p \<Longrightarrow> dict_get f' p = dict_get f p) \<Longrightarrow> framed (file_call h)"
  unfolding framed_def
proof
  fix s assume h: "\<And>f x f' p. h f = Inr (x, f') \<Longrightarrow> \<not> hidden p \<Longrightarrow> dict_get f' p = dict_get f p"
  obtain r s' where r: "file_call h s = (r, s')" by (cases "file_call h s")
  then show "frame s (snd (file_call h s))"
    using file_call_Inr [of h s _ s'] file_call_Inl [of h s _ s'] h by (cases r) (auto intro!: frame_after)
qed

lemma framed_calls [framed_intros]:
  "framed sync_call" "framed (look p g)" "hidden p \<Longrightarrow> framed (put_call p x)" "hidden p \<Longrightarrow> framed (unlink_call p)"
  "fresh_temps mkstemp \<Longrightarrow> framed (make_temp mkstemp p)"
  unfolding call_defs
  by (rule framed_call; auto simp: dict_get_filtered dict_simps fresh_temps_def split: option.splits if_splits)+

lemma framed_pure [framed_intros]: "framed (ret x)" "framed (raise e)" "framed (gets g)"
  by (simp_all add: framed_def ret_def raise_def gets_def)

lemma framed_bind [framed_intros]: "framed m \<Longrightarrow> (\<And>x. framed (k x)) \<Longrightarrow> framed (bind m k)"
  unfolding framed_def bind_def by (fastforce split: prod.splits sum.splits intro: frame_trans)

lemma framed_handle [framed_intros]: "framed m \<Longrightarrow> (\<And>e. framed (h e)) \<Longrightarrow> framed (handle m h)"
  unfolding framed_def handle_def by (fastforce split: prod.splits sum.splits intro: frame_trans)

lemma framed_if [framed_intros]: "(b \<Longrightarrow> framed m) \<Longrightarrow> (\<not> b \<Longrightarrow> framed n) \<Longrightarrow> framed (if b then m else n)"
  by simp

lemma framed_each [framed_intros]: "(\<And>x. x \<in> set xs \<Longrightarrow> framed (f x)) \<Longrightarrow> framed (each_act f xs)"
  by (induction xs) (auto intro: framed_intros)

lemma framed_ok [framed_intros]: "hidden p \<Longrightarrow> framed (unlink_ok p)" "framed m \<Longrightarrow> framed (if_missing m x)"
  unfolding unlink_ok_def if_missing_def by (intro framed_intros; assumption)+

lemma framed_unchanged [framed_intros]: "framed (unchanged x)"
  unfolding unchanged_def by (cases x) (simp, intro framed_intros)

lemma framed_changed_files [framed_intros]: "framed (changed_files xs)"
  by (induction xs) (auto intro!: framed_intros)

lemma framed_bind_result:
  assumes "framed m" and "\<And>x s s'. m s = (Inr x, s') \<Longrightarrow> framed (k x)"
  shows "framed (bind m k)"
  unfolding framed_def
proof
  fix s
  obtain r t where m: "m s = (r, t)" by (cases "m s")
  have f: "frame s t" by (rule framedD [OF assms(1) m])
  show "frame s (snd (bind m k s))"
  proof (cases r)
    case (Inr x)
    have "frame t (snd (k x t))" using assms(2) m Inr unfolding framed_def by blast
    then show ?thesis using f m Inr by (auto simp: bind_def intro: frame_trans)
  qed (use f m in \<open>simp add: bind_def\<close>)
qed

lemma make_temp_Inr:
  assumes "make_temp mkstemp p s = (Inr t, s')" and "fresh_temps mkstemp"
  shows "hidden t" "dict_get (b_files s) t = None" "s' = after (dict_set t ([], 384) (b_files s)) s"
  using file_call_Inr [OF assms(1) [unfolded make_temp_def]] assms(2) by (auto simp: fresh_temps_def)

lemma framed_prepare_temp [framed_intros]:
  assumes "fresh_temps mkstemp"
  shows "framed (prepare_temp mkstemp p x)"
proof -
  obtain data m where x: "x = (data, m)" by (cases x)
  have "framed (handle (bind (put_call t (data, 384)) (\<lambda>_. bind sync_call (\<lambda>_. bind (put_call t (data, m)) (\<lambda>_. ret t))))
       (\<lambda>e. bind (unlink_ok t) (\<lambda>_. raise e)))" if "hidden t" for t
    by (intro framed_intros that)
  then show ?thesis unfolding prepare_temp_def x
    using make_temp_Inr(1) [OF _ assms] framed_calls(5) [OF assms] by (auto intro!: framed_bind [OF framed_calls(1)] framed_bind_result)
qed

lemma handle_Inr_raise: "handle m (\<lambda>e. bind (n e) (\<lambda>_. raise e)) s = (Inr x, s') \<Longrightarrow> m s = (Inr x, s')"
  by (auto simp: handle_def bind_def raise_def split: prod.splits sum.splits)

lemma prepare_temp_Inr:
  assumes "prepare_temp mkstemp p x s = (Inr t, s')" and "fresh_temps mkstemp"
  shows "hidden t" "dict_get (b_files s) t = None"
    "\<And>q. dict_get (b_files s') q = (if q = t then Some x else dict_get (b_files s) q)"
proof -
  obtain data m where x: "x = (data, m)" by (cases x)
  obtain s1 s2 t' where a: "sync_call s = (Inr (), s1)" "make_temp mkstemp p s1 = (Inr t', s2)"
    and h: "handle (bind (put_call t' (data, 384)) (\<lambda>_. bind sync_call (\<lambda>_. bind (put_call t' (data, m)) (\<lambda>_. ret t'))))
       (\<lambda>e. bind (unlink_ok t') (\<lambda>_. raise e)) s2 = (Inr t, s')"
    using assms(1) by (auto simp: prepare_temp_def x act_simps)
  obtain s3 s4 where b: "put_call t' (data, 384) s2 = (Inr (), s3)" "sync_call s3 = (Inr (), s4)" "put_call t' (data, m) s4 = (Inr (), s')" "t = t'"
    using handle_Inr_raise [OF h] by (auto simp: act_simps)
  have s1: "b_files s1 = b_files s" and s4: "b_files s4 = b_files s3"
    using file_call_Inr [OF a(1) [unfolded sync_call_def]] file_call_Inr [OF b(2) [unfolded sync_call_def]] by auto
  have s3: "b_files s3 = dict_set t (data, 384) (b_files s2)" and s': "b_files s' = dict_set t (data, m) (b_files s4)"
    using file_call_Inr [OF b(1) [unfolded put_call_def]] file_call_Inr [OF b(3) [unfolded put_call_def]] b(4) by auto
  note mk = make_temp_Inr [OF a(2) assms(2)]
  show "hidden t" "dict_get (b_files s) t = None" using mk b(4) s1 by auto
  show "dict_get (b_files s') q = (if q = t then Some x else dict_get (b_files s) q)" for q
    using mk(3) b(4) by (simp add: s' s4 s3 s1 dict_simps x)
qed

lemma prepare_temp_calm:
  assumes "calm s"
  shows "\<exists>t s'. prepare_temp mkstemp p x s = (Inr t, s')"
  using assms
  by (cases x) (simp add: prepare_temp_def bind_def handle_def call_defs file_call_calm ret_def)

section \<open>Preparation\<close>

lemma look_Inr: "look p g s = (Inr y, s') \<Longrightarrow> \<exists>x. dict_get (b_files s) p = Some x \<and> y = g x \<and> s' = after (b_files s) s"
  unfolding look_def using file_call_Inr by (force split: option.splits)

lemma look_missing: "look p g s = (Inl FileNotFoundError, s') \<Longrightarrow> dict_get (b_files s) p = None"
  unfolding look_def using file_call_Inl by (force split: option.splits)

lemma if_missing_Inr: "if_missing m x s = (Inr y, s') \<Longrightarrow> m s = (Inr y, s') \<or> (\<exists>t. m s = (Inl FileNotFoundError, t)) \<and> y = x"
  by (auto simp: if_missing_def handle_def ret_def raise_def split: prod.splits sum.splits if_splits)

lemma note_previous_Inr:
  assumes "note_previous p s = (Inr u, s')"
  shows "\<exists>t. frame s t \<and> b_files t = b_files s \<and> s' = t\<lparr>b_previous := dict_set p (dict_get (b_files s) p) (b_previous s)\<rparr>"
proof -
  let ?m = "bind (look p snd) (\<lambda>m. bind (look p fst) (\<lambda>b. ret (Some (b, m))))"
  obtain old t where m: "if_missing ?m None s = (Inr old, t)" and s': "s' = t\<lparr>b_previous := dict_set p old (b_previous t)\<rparr>"
    using assms by (auto simp: note_previous_def act_simps)
  have "framed (if_missing ?m None)" by (intro framed_intros)
  from this m have fr: "frame s t" by (rule framedD)
  have old: "old = dict_get (b_files s) p"
  proof -
    consider "?m s = (Inr old, t)" | w where "?m s = (Inl FileNotFoundError, w)" "old = None" using if_missing_Inr [OF m] by blast
    then show ?thesis
    proof cases
      case 1
      then show ?thesis by (auto simp: act_simps dest!: look_Inr)
    next
      case 2
      then show ?thesis by (auto simp: bind_Inl_iff run_simps dest!: look_missing look_Inr)
    qed
  qed
  have files: "keeps (\<lambda>w. b_files w = f) (look p g)" for f and g :: "content \<Rightarrow> 'z"
    unfolding keeps_def look_def file_call_def by (auto simp: Let_def split: option.splits)
  have "keeps (\<lambda>w. b_files w = b_files s) (if_missing ?m None)"
    unfolding if_missing_def by (intro keeps_intros files)
  from this refl m have "b_files t = b_files s" by (rule keepsD)
  moreover have "b_previous t = b_previous s" using fr by (simp add: frame_def)
  ultimately show ?thesis using fr s' old by auto
qed

text \<open>What holds while the bundle is prepared: nothing visible has changed, and each temporary file holds what its target shall hold.\<close>

definition staged :: "file_table \<Rightarrow> file_path \<times> file_path \<Rightarrow> file_path \<times> content \<Rightarrow> bool" where
  "staged f = (\<lambda>(p, t) (q, x). p = q \<and> hidden t \<and> dict_get f t = Some x)"

definition recorded :: "(file_path \<Rightarrow> content option) \<Rightarrow> file_path set \<Rightarrow> bundle_state \<Rightarrow> bool" where
  "recorded old K s \<longleftrightarrow> (\<forall>p x. dict_get (b_previous s) p = Some x \<longrightarrow> x = old p) \<and> (\<forall>p \<in> K. dict_get (b_previous s) p \<noteq> None)"

definition staged_ready :: "(file_path \<Rightarrow> content option) \<Rightarrow> (file_path \<times> content) list \<Rightarrow> file_path set \<Rightarrow> bundle_state \<Rightarrow> bool" where
  "staged_ready old xs K s \<longleftrightarrow> visible s = old \<and> lucky s \<and> b_mutated s = [] \<and> recorded old K s \<and>
     list_all2 (staged (b_files s)) (b_prepared s) xs \<and> distinct (map snd (b_prepared s))"

lemma recorded_frame: "frame s t \<Longrightarrow> recorded old K s \<Longrightarrow> recorded old K t"
  by (simp add: recorded_def frame_def)

lemma note_previous_ready:
  assumes "note_previous p s = (r, s')" and s: "staged_ready old xs K s" and "\<not> hidden p"
  shows "visible s' = old \<and> (\<forall>u. r = Inr u \<longrightarrow> staged_ready old xs (insert p K) s')"
proof (cases r)
  case (Inl e)
  have "framed (if_missing (bind (look p snd) (\<lambda>m. bind (look p fst) (\<lambda>b. ret (Some (b, m))))) None)" by (intro framed_intros)
  then show ?thesis
    using assms(1) s framedD unfolding Inl note_previous_def by (fastforce simp: bind_Inl_iff run_simps staged_ready_def frame_def)
next
  case (Inr u)
  obtain t where t: "frame s t" "b_files t = b_files s" and s': "s' = t\<lparr>b_previous := dict_set p (dict_get (b_files s) p) (b_previous s)\<rparr>"
    using note_previous_Inr assms(1) Inr by blast
  have "dict_get (b_files s) p = old p" using s assms(3) by (auto simp: staged_ready_def visible_def fun_eq_iff split: if_splits)
  then show ?thesis
    using s t by (auto simp: staged_ready_def frame_def recorded_def s' dict_simps)
qed

lemma prepare_temp_ready:
  assumes "prepare_temp mkstemp p x s = (Inr t, s')" and "staged_ready old xs K s" and mk: "fresh_temps mkstemp"
  shows "staged_ready old (xs @ [(p, x)]) K (s'\<lparr>b_prepared := b_prepared s' @ [(p, t)]\<rparr>)"
proof -
  note t = prepare_temp_Inr [OF assms(1) mk]
  have fr: "frame s s'" by (rule framedD [OF framed_prepare_temp [OF mk] assms(1)])
  have new: "dict_get (b_files s) (snd q) \<noteq> None" if q: "q \<in> set (b_prepared s)" for q
  proof -
    have all: "list_all2 (staged (b_files s)) (b_prepared s) xs" using assms(2) by (simp add: staged_ready_def)
    obtain i where i: "i < length (b_prepared s)" "b_prepared s ! i = q" using q by (auto simp: in_set_conv_nth)
    have "staged (b_files s) q (xs ! i)" using list_all2_nthD [OF all i(1)] by (simp only: i(2))
    then show ?thesis by (auto simp: staged_def case_prod_beta)
  qed
  have fresh: "t \<notin> snd ` set (b_prepared s)"
  proof
    assume "t \<in> snd ` set (b_prepared s)"
    then obtain q where "q \<in> set (b_prepared s)" "t = snd q" by blast
    then show False using new [of q] t(2) by simp
  qed
  have "list_all2 (staged (b_files s')) (b_prepared s) xs"
    using assms(2) t(2,3) unfolding staged_ready_def by (auto elim!: list_all2_mono simp: staged_def split: prod.splits)
  moreover have "staged (b_files s') (p, t) (p, x)" using t by (simp add: staged_def)
  ultimately show ?thesis
    using assms(2) fr fresh by (auto simp: staged_ready_def frame_def recorded_def list_all2_appendI)
qed

lemma prepare_file_ready:
  assumes "prepare_file mkstemp (p, x) s = (r, s')" and s: "staged_ready old xs K s" and "\<not> hidden p" and mk: "fresh_temps mkstemp"
  shows "visible s' = old \<and> (\<forall>u. r = Inr u \<longrightarrow> staged_ready old (xs @ [(p, x)]) (insert p K) s')"
proof -
  obtain q s1 where one: "note_previous p s = (q, s1)" by (cases "note_previous p s")
  note n = note_previous_ready [OF one s assms(3)]
  obtain w s2 where two: "prepare_temp mkstemp p x s1 = (w, s2)" by (cases "prepare_temp mkstemp p x s1")
  have fr: "visible s2 = visible s1" using framedD [OF framed_prepare_temp [OF mk] two] by (simp add: frame_def)
  show ?thesis
  proof (cases "\<exists>u t. q = Inr u \<and> w = Inr t")
    case True
    then obtain u t where q: "q = Inr u" and w: "w = Inr t" by blast
    then have s': "s' = s2\<lparr>b_prepared := b_prepared s2 @ [(p, t)]\<rparr>"
      using assms(1) one two by (simp add: prepare_file_def bind_def modify_def)
    have "staged_ready old xs (insert p K) s1" using n q by blast
    then have "staged_ready old (xs @ [(p, x)]) (insert p K) s'" using prepare_temp_ready [OF _ _ mk] two w s' by blast
    then show ?thesis by (simp add: staged_ready_def)
  next
    case False
    then have "isl r" "s' = s1 \<or> s' = s2"
      using assms(1) one two by (auto simp: prepare_file_def bind_def modify_def split: sum.splits)
    then show ?thesis using n fr by (cases r) auto
  qed
qed

lemma prepare_all:
  assumes "each_act (prepare_file mkstemp) ys s = (r, s')" and "staged_ready old xs K s" and "\<forall>(p, x) \<in> set ys. \<not> hidden p" and mk: "fresh_temps mkstemp"
  shows "visible s' = old \<and> (\<forall>u. r = Inr u \<longrightarrow> staged_ready old (xs @ ys) (K \<union> fst ` set ys) s')"
  using assms(1-3)
proof (induction ys arbitrary: s xs K)
  case Nil
  then show ?case by (auto simp: act_simps staged_ready_def)
next
  case (Cons y ys)
  obtain p x where y: "y = (p, x)" by (cases y)
  obtain q s1 where one: "prepare_file mkstemp (p, x) s = (q, s1)" by (cases "prepare_file mkstemp (p, x) s")
  note n = prepare_file_ready [OF one Cons.prems(2) _ mk]
  show ?case
  proof (cases q)
    case (Inl e)
    then show ?thesis using n Cons.prems one y by (auto simp: bind_def)
  next
    case (Inr u)
    then have "each_act (prepare_file mkstemp) ys s1 = (r, s')" "staged_ready old (xs @ [(p, x)]) (insert p K) s1"
      using n Cons.prems one y by (auto simp: bind_def)
    from Cons.IH [OF this] show ?thesis using Cons.prems(3) by (simp add: y)
  qed
qed

lemma note_all:
  assumes "each_act note_previous ps s = (r, s')" and "staged_ready old xs K s" and "\<forall>p \<in> set ps. \<not> hidden p"
  shows "visible s' = old \<and> (\<forall>u. r = Inr u \<longrightarrow> staged_ready old xs (K \<union> set ps) s')"
  using assms
proof (induction ps arbitrary: s K)
  case Nil
  then show ?case by (auto simp: act_simps staged_ready_def)
next
  case (Cons p ps)
  obtain q s1 where one: "note_previous p s = (q, s1)" by (cases "note_previous p s")
  note n = note_previous_ready [OF one Cons.prems(2)]
  show ?case
  proof (cases q)
    case (Inl e)
    then show ?thesis using n Cons.prems one by (auto simp: bind_def)
  next
    case (Inr u)
    then have "each_act note_previous ps s1 = (r, s')" "staged_ready old xs (insert p K) s1"
      using n Cons.prems one by (auto simp: bind_def)
    from Cons.IH [OF this] show ?thesis using Cons.prems(3) by simp
  qed
qed

section \<open>Mutation and roll-back\<close>

text \<open>While files are replaced and removed, everything outside \<open>mutated\<close> is as before, and what \<open>mutated\<close> had is on record.\<close>

definition partial :: "(file_path \<Rightarrow> content option) \<Rightarrow> file_path set \<Rightarrow> bundle_state \<Rightarrow> bool" where
  "partial old K s \<longleftrightarrow> recorded old K s \<and> set (b_mutated s) \<subseteq> K \<and> (\<forall>p. p \<notin> set (b_mutated s) \<longrightarrow> visible s p = old p)"

definition overwrite :: "(file_path \<Rightarrow> content option) \<Rightarrow> (file_path \<times> content) list \<Rightarrow> file_path \<Rightarrow> content option" where
  "overwrite v xs = foldl (\<lambda>v (p, x). v(p \<mapsto> x)) v xs"

lemma replace_call_run:
  assumes "replace_call t p s = (r, s')" and "dict_get (b_files s) t = Some x" and "hidden t" "\<not> hidden p" "lucky s"
  shows "if isl r then s' = after (b_files s) s \<and> calm s'
    else s' = after (dict_set p x (filter (\<lambda>(q, _). q \<noteq> t) (b_files s))) s \<and> visible s' = (visible s)(p \<mapsto> x) \<and> lucky s' \<and>
      (\<forall>q. q \<noteq> t \<longrightarrow> hidden q \<longrightarrow> dict_get (b_files s') q = dict_get (b_files s) q)"
proof (cases r)
  case (Inl e)
  then show ?thesis using file_call_Inl [OF assms(1) [unfolded replace_call_def Inl]] assms(2,5) by auto
next
  case (Inr u)
  have s': "s' = after (dict_set p x (filter (\<lambda>(q, _). q \<noteq> t) (b_files s))) s"
    using file_call_Inr [OF assms(1) [unfolded replace_call_def Inr]] assms(2) by simp
  moreover have "visible s' = (visible s)(p \<mapsto> x)"
    using assms(3,4) by (auto simp: s' visible_def fun_eq_iff dict_simps dict_get_filtered)
  moreover have "dict_get (b_files s') q = dict_get (b_files s) q" if "q \<noteq> t" "hidden q" for q
    using that assms(4) by (auto simp: s' dict_simps dict_get_filtered)
  ultimately show ?thesis using assms(5) Inr by simp
qed

lemma install_all:
  assumes "each_act install_file pts s = (r, s')" and "list_all2 (staged (b_files s)) pts xs" and "distinct (map snd pts)"
    and "\<forall>(p, x) \<in> set xs. \<not> hidden p \<and> p \<in> K" and "partial old K s" and "lucky s"
  shows "partial old K s' \<and> (if isl r then calm s' else lucky s' \<and> visible s' = overwrite (visible s) xs)"
  using assms
proof (induction pts arbitrary: s xs)
  case Nil
  then show ?case by (auto simp: act_simps overwrite_def)
next
  case (Cons pt pts)
  obtain p t where pt: "pt = (p, t)" by (cases pt)
  obtain x ys where xs: "xs = (p, x) # ys" and t: "hidden t" "dict_get (b_files s) t = Some x" and rest: "list_all2 (staged (b_files s)) pts ys"
    using Cons.prems(2) by (auto simp: pt list_all2_Cons1 staged_def)
  have p: "\<not> hidden p" "p \<in> K" using Cons.prems(4) by (auto simp: xs)
  obtain q s1 where one: "replace_call t p s = (q, s1)" by (cases "replace_call t p s")
  note step = replace_call_run [OF one t(2,1) p(1) Cons.prems(6)]
  show ?case
  proof (cases q)
    case (Inl e)
    then have "r = Inl e" "s' = s1" using Cons.prems(1) one by (auto simp: pt install_file_def bind_def)
    then show ?thesis using step Inl Cons.prems(5) by (auto simp: partial_def recorded_def visible_def)
  next
    case (Inr u)
    define s2 where "s2 = s1\<lparr>b_mutated := b_mutated s1 @ [p]\<rparr>"
    have run: "each_act install_file pts s2 = (r, s')"
      using Cons.prems(1) one Inr by (simp add: pt install_file_def bind_def mark_mutated_def modify_def s2_def)
    have keep: "dict_get (b_files s2) u = dict_get (b_files s) u" if "hidden u" "u \<noteq> t" for u
    proof -
      have "\<forall>q. q \<noteq> t \<longrightarrow> hidden q \<longrightarrow> dict_get (b_files s1) q = dict_get (b_files s) q"
        by (rule step [unfolded Inr sum.disc(2) [THEN eq_False [THEN iffD2]] if_False, THEN conjunct2, THEN conjunct2, THEN conjunct2])
      then show ?thesis using that by (simp add: s2_def)
    qed
    have "list_all2 (staged (b_files s2)) pts ys"
      using rest
    proof (rule list.rel_mono_strong)
      fix a b assume "a \<in> set pts" "b \<in> set ys" "staged (b_files s) a b"
      moreover have "snd a \<noteq> t" using Cons.prems(3) \<open>a \<in> set pts\<close> by (auto simp: pt)
      ultimately show "staged (b_files s2) a b" using keep by (auto simp: staged_def)
    qed
    moreover have "partial old K s2" using step Inr Cons.prems(5) p by (auto simp: partial_def recorded_def s2_def)
    moreover have "lucky s2" "visible s2 = (visible s)(p \<mapsto> x)" using step Inr by (auto simp: s2_def)
    ultimately show ?thesis using Cons.IH [OF run] Cons.prems(3,4) by (simp add: pt xs overwrite_def)
  qed
qed

lemma unlink_call_run:
  assumes "unlink_call p s = (r, s')" and "\<not> hidden p" and "lucky s"
  shows "case r of
      Inr _ \<Rightarrow> s' = after (filter (\<lambda>(q, _). q \<noteq> p) (b_files s)) s \<and> visible s' = (visible s)(p := None)
    | Inl e \<Rightarrow> s' = after (b_files s) s \<and> (e = FileNotFoundError \<and> visible s p = None \<or> e = OSError \<and> calm s')"
proof (cases r)
  case (Inl e)
  then show ?thesis using file_call_Inl [OF assms(1) [unfolded unlink_call_def Inl]] assms(2,3)
    by (auto simp: visible_def split: if_splits)
next
  case (Inr u)
  have "s' = after (filter (\<lambda>(q, _). q \<noteq> p) (b_files s)) s"
    using file_call_Inr [OF assms(1) [unfolded unlink_call_def Inr]] by (auto split: if_splits)
  then show ?thesis using Inr assms(2) by (auto simp: visible_def fun_eq_iff dict_get_filtered)
qed

lemma remove_file_run:
  assumes "remove_file p s = (r, s')" and "\<not> hidden p" "p \<in> K" "partial old K s" "lucky s"
  shows "partial old K s' \<and> (if isl r then calm s' else lucky s' \<and> visible s' = (visible s)(p := None))"
proof -
  obtain q s1 where one: "unlink_call p s = (q, s1)" by (cases "unlink_call p s")
  note step = unlink_call_run [OF one assms(2,5)]
  have same: "visible (after (b_files s) s) = visible s" by (simp add: visible_def fun_eq_iff)
  show ?thesis
  proof (cases q)
    case (Inr u)
    have s': "r = Inr ()" "s' = s1\<lparr>b_mutated := b_mutated s1 @ [p]\<rparr>"
      using assms(1) one Inr by (auto simp: remove_file_def if_missing_def handle_def bind_def ret_def mark_mutated_def modify_def)
    have s1: "s1 = after (filter (\<lambda>(q, _). q \<noteq> p) (b_files s)) s" and v: "visible s1 = (visible s)(p := None)" using step Inr by auto
    have "b_previous s1 = b_previous s" "b_mutated s1 = b_mutated s" "lucky s1" using assms(5) by (simp_all add: s1)
    then show ?thesis using assms(3,4) v by (simp add: s' partial_def recorded_def)
  next
    case (Inl e)
    have s1: "s1 = after (b_files s) s" and e: "e = FileNotFoundError \<and> visible s p = None \<or> e = OSError \<and> calm s1" using step Inl by auto
    have p: "partial old K s1" using assms(4) same by (simp add: s1 partial_def recorded_def)
    show ?thesis
    proof (cases "e = FileNotFoundError")
      case True
      then have "r = Inr ()" "s' = s1"
        using assms(1) one Inl by (auto simp: remove_file_def if_missing_def handle_def bind_def ret_def)
      then show ?thesis using p e True assms(5) same by (auto simp: s1 fun_eq_iff)
    next
      case False
      then have "r = Inl e" "s' = s1"
        using assms(1) one Inl by (auto simp: remove_file_def if_missing_def handle_def bind_def ret_def raise_def)
      then show ?thesis using p e False by simp
    qed
  qed
qed

lemma remove_all:
  assumes "each_act remove_file ps s = (r, s')" and "\<forall>p \<in> set ps. \<not> hidden p \<and> p \<in> K" and "partial old K s" and "lucky s"
  shows "partial old K s' \<and> (if isl r then calm s' else lucky s' \<and> visible s' = (\<lambda>p. if p \<in> set ps then None else visible s p))"
  using assms
proof (induction ps arbitrary: s)
  case Nil
  then show ?case by (auto simp: act_simps)
next
  case (Cons p ps)
  obtain q s1 where one: "remove_file p s = (q, s1)" by (cases "remove_file p s")
  have step: "partial old K s1" "isl q \<Longrightarrow> calm s1" "\<not> isl q \<Longrightarrow> lucky s1 \<and> visible s1 = (visible s)(p := None)"
    using remove_file_run [OF one] Cons.prems(2-4) by (auto split: if_splits)
  show ?case
  proof (cases q)
    case (Inl e)
    then show ?thesis using step Cons.prems(1) one by (auto simp: bind_def)
  next
    case (Inr u)
    then have "each_act remove_file ps s1 = (r, s')" using Cons.prems(1) one by (simp add: bind_def)
    then show ?thesis using Cons.IH [of s1] step Inr Cons.prems(2) by (auto simp: fun_eq_iff split: if_splits)
  qed
qed

lemma sync_all:
  assumes "each_act (\<lambda>_. sync_call) ds s = (r, s')" and "partial old K s" and "lucky s"
  shows "partial old K s' \<and> visible s' = visible s \<and> (if isl r then calm s' else lucky s')"
  using assms
proof (induction ds arbitrary: s)
  case Nil
  then show ?case by (auto simp: act_simps)
next
  case (Cons d ds)
  obtain q s1 where one: "sync_call s = (q, s1)" by (cases "sync_call s")
  have fr: "frame s s1" by (rule framedD [OF framed_calls(1) one])
  have p: "partial old K s1" "visible s1 = visible s" "lucky s1" using fr Cons.prems(2,3) by (simp_all add: partial_def frame_def recorded_def)
  show ?case
  proof (cases q)
    case (Inl e)
    have "calm s1" using file_call_Inl [OF one [unfolded sync_call_def Inl]] Cons.prems(3) by auto
    then show ?thesis using p Inl Cons.prems(1) one by (auto simp: bind_def)
  next
    case (Inr u)
    then have "each_act (\<lambda>_. sync_call) ds s1 = (r, s')" using Cons.prems(1) one by (simp add: bind_def)
    then show ?thesis using Cons.IH [of s1] p by simp
  qed
qed

lemma mutate_run:
  assumes "mutate removals s = (r, s')" and s: "staged_ready old xs K s"
    and names: "\<forall>(p, x) \<in> set xs. \<not> hidden p \<and> p \<in> K" "\<forall>p \<in> set removals. \<not> hidden p \<and> p \<in> K"
  shows "partial old K s' \<and> (if isl r then calm s' else visible s' = (\<lambda>p. if p \<in> set removals then None else overwrite old xs p))"
proof -
  have init: "partial old K s" "lucky s" "visible s = old" "list_all2 (staged (b_files s)) (b_prepared s) xs" "distinct (map snd (b_prepared s))"
    using s by (simp_all add: staged_ready_def partial_def)
  obtain q1 s1 where one: "each_act install_file (b_prepared s) s = (q1, s1)" by (cases "each_act install_file (b_prepared s) s")
  have p1: "partial old K s1" "isl q1 \<Longrightarrow> calm s1" "\<not> isl q1 \<Longrightarrow> lucky s1 \<and> visible s1 = overwrite old xs"
    using install_all [OF one init(4,5) names(1) init(1,2)] init(3) by (auto split: if_splits)
  show ?thesis
  proof (cases q1)
    case (Inl e)
    then show ?thesis using assms(1) one p1 by (auto simp: mutate_def bind_def gets_def)
  next
    case Inr1: (Inr u)
    obtain q2 s2 where two: "each_act remove_file (sort_key (py_join ''/'') removals) s1 = (q2, s2)"
      by (cases "each_act remove_file (sort_key (py_join ''/'') removals) s1")
    have p2: "partial old K s2" "isl q2 \<Longrightarrow> calm s2"
      "\<not> isl q2 \<Longrightarrow> lucky s2 \<and> visible s2 = (\<lambda>p. if p \<in> set removals then None else overwrite old xs p)"
      using remove_all [OF two _ p1(1)] names(2) p1(3) Inr1 by (auto split: if_splits)
    show ?thesis
    proof (cases q2)
      case (Inl e)
      then show ?thesis using assms(1) one two Inr1 p2 by (auto simp: mutate_def bind_def gets_def)
    next
      case Inr2: (Inr v)
      have "each_act (\<lambda>_. sync_call) (parents_of (b_mutated s2)) s2 = (r, s')"
        using assms(1) one two Inr1 Inr2 by (auto simp: mutate_def bind_def gets_def)
      then show ?thesis using sync_all [OF _ p2(1)] p2(3) Inr2 by (auto split: if_splits)
    qed
  qed
qed

lemma restore_file_run:
  assumes "calm s" and "recorded old K s" and "p \<in> K" and "\<not> hidden p" and mk: "fresh_temps mkstemp"
  shows "\<exists>s'. restore_file mkstemp p s = (Inr (), s') \<and> calm s' \<and> recorded old K s' \<and> visible s' = (visible s)(p := old p)"
proof -
  have prev: "dict_get (b_previous s) p = Some (old p)" using assms(2,3) by (fastforce simp: recorded_def)
  have sync: "\<exists>s'. sync_call t = (Inr (), s') \<and> calm s' \<and> frame t s'" if "calm t" for t
    using that framedD [OF framed_calls(1), of t] by (simp add: sync_call_def file_call_calm)
  note lucky = calm_lucky [OF assms(1)]
  show ?thesis
  proof (cases "old p")
    case None
    obtain q s1 where one: "unlink_call p s = (q, s1)" by (cases "unlink_call p s")
    have f: "unlink_call p s = (case (if dict_get (b_files s) p = None then Inl FileNotFoundError else Inr ((), filter (\<lambda>(q, _). q \<noteq> p) (b_files s))) of
        Inl e \<Rightarrow> (Inl e, after (b_files s) s) | Inr (x, f) \<Rightarrow> (Inr x, after f s))"
      unfolding unlink_call_def using assms(1) by (rule file_call_calm)
    have "\<exists>s1. unlink_ok p s = (Inr (), s1) \<and> calm s1 \<and> b_previous s1 = b_previous s \<and> visible s1 = (visible s)(p := None)"
      using assms(1,4) by (auto simp: unlink_ok_def handle_def f ret_def visible_def fun_eq_iff dict_get_filtered)
    then obtain s1 where s1: "unlink_ok p s = (Inr (), s1)" "calm s1" "b_previous s1 = b_previous s" "visible s1 = (visible s)(p := None)" by blast
    obtain s2 where "sync_call s1 = (Inr (), s2)" "calm s2" "frame s1 s2" using sync [OF s1(2)] by blast
    then show ?thesis using s1 None prev assms(2) by (auto simp: restore_file_def bind_def gets_def frame_def recorded_def)
  next
    case (Some x)
    obtain t s1 where one: "prepare_temp mkstemp p x s = (Inr t, s1)" using prepare_temp_calm [OF assms(1)] by blast
    have fr: "frame s s1" by (rule framedD [OF framed_prepare_temp [OF mk] one])
    note t = prepare_temp_Inr [OF one mk]
    have calm1: "calm s1" "lucky s1" using fr assms(1) lucky by (simp_all add: frame_def)
    have rep: "replace_call t p s1 = (Inr (), after (dict_set p x (filter (\<lambda>(q, _). q \<noteq> t) (b_files s1))) s1)"
      using t(3) [of t] calm1(1) by (simp add: replace_call_def file_call_calm)
    define s2 where "s2 = after (dict_set p x (filter (\<lambda>(q, _). q \<noteq> t) (b_files s1))) s1"
    have s2: "calm s2" "b_previous s2 = b_previous s1" "visible s2 = (visible s1)(p \<mapsto> x)"
      using calm1(1) t(1) assms(4) by (auto simp: s2_def visible_def fun_eq_iff dict_simps dict_get_filtered)
    obtain s3 where "sync_call s2 = (Inr (), s3)" "calm s3" "frame s2 s3" using sync [OF s2(1)] by blast
    then show ?thesis
      using s2 rep one Some prev fr assms(2) by (auto simp: restore_file_def bind_def gets_def frame_def recorded_def s2_def [symmetric])
  qed
qed

lemma restore_all:
  assumes "calm s" and "recorded old K s" and "set ps \<subseteq> K" and "\<forall>p \<in> set ps. \<not> hidden p" and "\<And>p. p \<notin> set ps \<Longrightarrow> visible s p = old p"
    and mk: "fresh_temps mkstemp"
  shows "\<exists>s'. each_act (restore_file mkstemp) ps s = (Inr (), s') \<and> visible s' = old"
  using assms(1-5)
proof (induction ps arbitrary: s)
  case Nil
  then show ?case by (auto simp: ret_def fun_eq_iff)
next
  case (Cons p ps)
  obtain s1 where s1: "restore_file mkstemp p s = (Inr (), s1)" "calm s1" "recorded old K s1" "visible s1 = (visible s)(p := old p)"
    using restore_file_run [OF Cons.prems(1,2) _ _ mk] Cons.prems(3,4) by fastforce
  have "visible s1 q = old q" if "q \<notin> set ps" for q using that s1(4) Cons.prems(5) by auto
  then show ?case using Cons.IH [OF s1(2,3)] Cons.prems(3,4) s1(1) by (simp add: bind_def)
qed

lemma roll_back_run:
  assumes "partial old K s" and "calm s" and "\<forall>p \<in> K. \<not> hidden p" and "fresh_temps mkstemp"
  shows "\<exists>s'. roll_back mkstemp e s = (Inl e, s') \<and> visible s' = old"
proof -
  have "\<exists>s'. each_act (restore_file mkstemp) (rev (b_mutated s)) s = (Inr (), s') \<and> visible s' = old"
    by (rule restore_all [OF assms(2) _ _ _ _ assms(4)]) (use assms(1,3) in \<open>auto simp: partial_def\<close>)
  then show ?thesis by (auto simp: roll_back_def bind_def gets_def raise_def)
qed

section \<open>All or nothing\<close>

lemma look_keeps_files [keeps_intros]: "keeps (\<lambda>w. b_files w = f) (look p g)"
  unfolding keeps_def look_def file_call_def by (auto simp: Let_def split: option.splits)

lemma unchanged_keeps_files: "keeps (\<lambda>w. b_files w = f) (unchanged x)"
  unfolding unchanged_def if_missing_def by (cases x) (simp, intro keeps_intros)

lemma unchanged_True:
  assumes "unchanged (p, x) s = (Inr True, s')"
  shows "dict_get (b_files s) p = Some x"
proof -
  obtain data m where x: "x = (data, m)" by (cases x)
  let ?m = "bind (look p fst) (\<lambda>b. if b \<noteq> data then ret False else bind (look p snd) (\<lambda>k. ret (k = m)))"
  have "if_missing ?m False s = (Inr True, s')" using assms by (simp add: unchanged_def x)
  from if_missing_Inr [OF this] have run: "?m s = (Inr True, s')" by simp
  then obtain b s1 where one: "look p fst s = (Inr b, s1)"
    and two: "(if b \<noteq> data then ret False else bind (look p snd) (\<lambda>k. ret (k = m))) s1 = (Inr True, s')"
    by (simp only: bind_Inr_iff) blast
  have b: "b = data" using two by (cases "b = data") (simp_all add: ret_def)
  obtain y where y: "dict_get (b_files s) p = Some y" "b = fst y" "s1 = after (b_files s) s" using look_Inr [OF one] by blast
  have "bind (look p snd) (\<lambda>k. ret (k = m)) s1 = (Inr True, s')" using two b by simp
  then obtain k s2 where three: "look p snd s1 = (Inr k, s2)" "ret (k = m) s2 = (Inr True, s')" by (simp only: bind_Inr_iff) blast
  obtain z where z: "dict_get (b_files s1) p = Some z" "k = snd z" using look_Inr [OF three(1)] by blast
  have "k = m" using three(2) by (simp add: ret_def)
  moreover have "z = y" using z(1) y(1,3) by simp
  ultimately show ?thesis using y(1,2) z(2) b by (cases y) (simp add: x)
qed

lemma changed_files_Inr:
  assumes "changed_files xs s = (Inr ys, s')"
  shows "set ys \<subseteq> set xs \<and> (distinct (map fst xs) \<longrightarrow> distinct (map fst ys)) \<and>
    (\<forall>x \<in> set xs. x \<notin> set ys \<longrightarrow> dict_get (b_files s) (fst x) = Some (snd x))"
  using assms
proof (induction xs arbitrary: s ys)
  case Nil
  then show ?case by (simp add: act_simps)
next
  case (Cons x xs)
  obtain same s1 rest where one: "unchanged x s = (Inr same, s1)" and two: "changed_files xs s1 = (Inr rest, s')"
    and ys: "ys = (if same then rest else x # rest)"
    using Cons.prems by (auto simp: act_simps)
  have files: "b_files s1 = b_files s" using unchanged_keeps_files refl one by (rule keepsD)
  note IH = Cons.IH [OF two]
  have x: "dict_get (b_files s) (fst x) = Some (snd x)" if "same" using unchanged_True [of "fst x" "snd x" s s1] one that by simp
  have "fst x \<notin> fst ` set xs \<Longrightarrow> fst x \<notin> fst ` set rest" using IH by blast
  then show ?case using IH x by (auto simp: ys files)
qed

lemma overwrite_distinct: "distinct (map fst xs) \<Longrightarrow> overwrite v xs p = (case dict_get xs p of None \<Rightarrow> v p | Some x \<Rightarrow> Some x)"
proof (induction xs arbitrary: v)
  case (Cons y xs)
  obtain q x where y: "y = (q, x)" by (cases y)
  have "overwrite v (y # xs) = overwrite (v(q \<mapsto> x)) xs" by (simp add: overwrite_def y)
  moreover have "q \<notin> fst ` set xs" using Cons.prems by (simp add: y)
  then have "dict_get xs q = None" by (simp add: map_of_eq_None_iff)
  ultimately show ?case using Cons by (auto simp: y split: option.splits)
qed (simp add: overwrite_def)

text \<open>The files after a successful replacement.\<close>

definition replaced :: "(file_path \<times> content) list \<Rightarrow> file_path list \<Rightarrow> (file_path \<Rightarrow> content option) \<Rightarrow> file_path \<Rightarrow> content option" where
  "replaced files remove_paths old p =
     (case dict_get files p of Some x \<Rightarrow> Some x | None \<Rightarrow> if p \<in> set remove_paths then None else old p)"

lemma overwrite_changed:
  assumes "distinct (map fst files)" and "set ys \<subseteq> set files" "distinct (map fst ys)"
    and same: "\<And>p x. (p, x) \<in> set files \<Longrightarrow> (p, x) \<notin> set ys \<Longrightarrow> old p = Some x"
  shows "(\<lambda>p. if p \<in> set (filter (\<lambda>p. p \<notin> fst ` set files) (remdups remove_paths)) then None else overwrite old ys p) =
    replaced files remove_paths old"
proof
  fix p
  show "(if p \<in> set (filter (\<lambda>p. p \<notin> fst ` set files) (remdups remove_paths)) then None else overwrite old ys p) = replaced files remove_paths old p"
  proof (cases "dict_get files p")
    case None
    then have "p \<notin> fst ` set files" by (simp add: map_of_eq_None_iff)
    moreover from this have "dict_get ys p = None" using assms(2) by (auto simp: map_of_eq_None_iff)
    ultimately show ?thesis using None by (simp add: replaced_def overwrite_distinct [OF assms(3)])
  next
    case (Some x)
    have m: "(p, x) \<in> set files" by (rule map_of_SomeD [OF Some])
    have "overwrite old ys p = Some x"
    proof (cases "(p, x) \<in> set ys")
      case True
      then show ?thesis using map_of_is_SomeI [OF assms(3) True] by (simp add: overwrite_distinct [OF assms(3)])
    next
      case False
      have "dict_get ys p = None"
      proof (rule ccontr)
        assume "dict_get ys p \<noteq> None"
        then obtain z where z: "dict_get ys p = Some z" by blast
        then have "(p, z) \<in> set files" "(p, z) \<in> set ys" using map_of_SomeD [OF z] assms(2) by auto
        then have "dict_get files p = Some z" by (intro map_of_is_SomeI [OF assms(1)])
        then have "z = x" using Some by simp
        then show False using \<open>(p, z) \<in> set ys\<close> False by simp
      qed
      then show ?thesis using same [OF m False] by (simp add: overwrite_distinct [OF assms(3)])
    qed
    moreover have "p \<in> fst ` set files" using m by force
    ultimately show ?thesis using Some by (simp add: replaced_def)
  qed
qed

lemma bundle_body:
  assumes "(bind (each_act (prepare_file mkstemp) ys) (\<lambda>_. bind (each_act note_previous removals) (\<lambda>_. handle (mutate removals) (roll_back mkstemp)))) s = (r, s')"
    and s: "staged_ready old [] {} s" and mk: "fresh_temps mkstemp" and h: "\<forall>(p, x) \<in> set ys. \<not> hidden p" "\<forall>p \<in> set removals. \<not> hidden p"
  shows "visible s' = (if isl r then old else (\<lambda>p. if p \<in> set removals then None else overwrite old ys p))"
proof -
  obtain q1 s1 where one: "each_act (prepare_file mkstemp) ys s = (q1, s1)" by (cases "each_act (prepare_file mkstemp) ys s")
  note p1 = prepare_all [OF one s h(1) mk, simplified]
  show ?thesis
  proof (cases q1)
    case (Inl e)
    then show ?thesis using assms(1) one p1 by (auto simp: bind_def)
  next
    case Inr1: (Inr u)
    obtain q2 s2 where two: "each_act note_previous removals s1 = (q2, s2)" by (cases "each_act note_previous removals s1")
    have r1: "staged_ready old ys (fst ` set ys) s1" using p1 Inr1 by simp
    note p2 = note_all [OF two r1 h(2)]
    show ?thesis
    proof (cases q2)
      case (Inl e)
      then show ?thesis using assms(1) one two Inr1 p2 by (auto simp: bind_def)
    next
      case Inr2: (Inr v)
      let ?K = "fst ` set ys \<union> set removals"
      have r2: "staged_ready old ys ?K s2" using p2 Inr2 by simp
      have run: "handle (mutate removals) (roll_back mkstemp) s2 = (r, s')" using assms(1) one two Inr1 Inr2 by (simp add: bind_def)
      obtain q3 s3 where three: "mutate removals s2 = (q3, s3)" by (cases "mutate removals s2")
      have n1: "\<forall>(p, x) \<in> set ys. \<not> hidden p \<and> p \<in> ?K" using h(1) by force
      have n2: "\<forall>p \<in> set removals. \<not> hidden p \<and> p \<in> ?K" using h(2) by simp
      note run3 = mutate_run [OF three r2 n1 n2]
      have p3: "partial old ?K s3" by (rule run3 [THEN conjunct1])
      have c3: "calm s3" if "isl q3" using run3 that by simp
      have v3: "visible s3 = (\<lambda>p. if p \<in> set removals then None else overwrite old ys p)" if "\<not> isl q3" using run3 that by simp
      show ?thesis
      proof (cases q3)
        case (Inr w)
        then have "r = q3" "s' = s3" using run three by (simp_all add: handle_def)
        then show ?thesis using v3 Inr by simp
      next
        case (Inl e)
        have ks: "\<forall>p \<in> ?K. \<not> hidden p" using h by auto
        have "calm s3" using c3 Inl by simp
        then obtain s4 where "roll_back mkstemp e s3 = (Inl e, s4)" "visible s4 = old"
          using roll_back_run [OF p3 _ ks mk, of e] by blast
        then show ?thesis using run three Inl by (auto simp: handle_def)
      qed
    qed
  qed
qed

text \<open>The temporary files that the final cleanup removes are hidden.\<close>

definition tidy :: "bundle_state \<Rightarrow> bool" where
  "tidy s \<longleftrightarrow> (\<forall>(p, t) \<in> set (b_prepared s). hidden t)"

lemma tidy_call [keeps_intros]: "keeps tidy (file_call h)"
  unfolding keeps_def file_call_def tidy_def by (auto simp: Let_def split: sum.splits)

lemma tidy_calls [keeps_intros]:
  "keeps tidy sync_call" "keeps tidy (look p g)" "keeps tidy (put_call p x)" "keeps tidy (unlink_call p)" "keeps tidy (replace_call p q)"
  "keeps tidy (make_temp mkstemp p)"
  unfolding call_defs by (rule tidy_call)+

lemma tidy_locals [keeps_intros]:
  "keeps tidy (modify (\<lambda>s. s\<lparr>b_previous := g s\<rparr>))" "keeps tidy (mark_mutated p)"
  unfolding mark_mutated_def by (rule keeps_modify, simp add: tidy_def)+

lemma tidy_programs [keeps_intros]:
  "keeps tidy (unlink_ok p)" "keeps tidy m \<Longrightarrow> keeps tidy (if_missing m x)" "keeps tidy (prepare_temp mkstemp p y)"
  unfolding unlink_ok_def if_missing_def prepare_temp_def case_prod_beta by (intro keeps_intros; assumption)+

lemma tidy_steps [keeps_intros]:
  "keeps tidy (note_previous p)" "keeps tidy (install_file pt)" "keeps tidy (remove_file p)"
  unfolding note_previous_def install_file_def remove_file_def case_prod_beta by (intro keeps_intros)+

lemma tidy_mutate [keeps_intros]: "keeps tidy (mutate removals)"
  unfolding mutate_def by (intro keeps_intros)

lemma tidy_restore [keeps_intros]: "keeps tidy (restore_file mkstemp p)"
proof -
  have "keeps tidy (case dict_get previous p of None \<Rightarrow> raise KeyError | Some None \<Rightarrow> bind (unlink_ok p) (\<lambda>_. sync_call)
     | Some (Some old) \<Rightarrow> bind (prepare_temp mkstemp p old) (\<lambda>temp. bind (replace_call temp p) (\<lambda>_. sync_call)))" for previous :: "(file_path, content option) dict"
    by (auto intro!: keeps_intros split: option.splits)
  then show ?thesis unfolding restore_file_def by (intro keeps_intros)
qed

lemma tidy_roll_back [keeps_intros]: "keeps tidy (roll_back mkstemp e)"
  unfolding roll_back_def by (intro keeps_intros)

lemma tidy_prepare_file:
  assumes mk: "fresh_temps mkstemp"
  shows "keeps tidy (prepare_file mkstemp y)"
  unfolding keeps_def
proof (intro allI impI)
  fix s assume s: "tidy s"
  obtain p x where y: "y = (p, x)" by (cases y)
  obtain q s1 where one: "note_previous p s = (q, s1)" by (cases "note_previous p s")
  obtain w s2 where two: "prepare_temp mkstemp p x s1 = (w, s2)" by (cases "prepare_temp mkstemp p x s1")
  have s1: "tidy s1" using tidy_steps(1) s one by (rule keepsD)
  have s2: "tidy s2" using tidy_programs(3) s1 two by (rule keepsD)
  have "hidden t" if "w = Inr t" for t using prepare_temp_Inr(1) [OF _ mk] two that by blast
  then show "tidy (snd (prepare_file mkstemp y s))"
    using one two s1 s2 by (auto simp: y prepare_file_def bind_def modify_def tidy_def split: sum.splits)
qed

lemma clean_up_visible: "tidy s \<Longrightarrow> clean_up s = (r, s') \<Longrightarrow> frame s s'"
proof -
  assume s: "tidy s" and run: "clean_up s = (r, s')"
  have "framed (each_act (\<lambda>(_, temp). unlink_ok temp) (b_prepared s))"
    using s by (intro framed_each) (auto simp: tidy_def intro: framed_ok)
  moreover have "each_act (\<lambda>(_, temp). unlink_ok temp) (b_prepared s) s = (r, s')" using run by (simp add: clean_up_def bind_def gets_def)
  ultimately show ?thesis by (rule framedD)
qed

section \<open>Runs without faults\<close>

text \<open>\<open>benign E m\<close>: without a fault, \<open>m\<close> raises only exceptions of \<open>E\<close>.\<close>

named_theorems benign_intros "programs that raise nothing without a fault"

definition benign :: "exn set \<Rightarrow> (bundle_state, 'a) act \<Rightarrow> bool" where
  "benign E m \<longleftrightarrow> (\<forall>s. calm s \<longrightarrow> calm (snd (m s)) \<and> (\<forall>e. fst (m s) = Inl e \<longrightarrow> e \<in> E))"

lemma benignD: "benign E m \<Longrightarrow> calm s \<Longrightarrow> m s = (r, s') \<Longrightarrow> calm s' \<and> (\<forall>e. r = Inl e \<longrightarrow> e \<in> E)"
  unfolding benign_def by (metis fst_conv snd_conv)

lemma benign_call: "(\<And>f e. h f = Inl e \<Longrightarrow> e \<in> E) \<Longrightarrow> benign E (file_call h)"
  unfolding benign_def by (auto simp: file_call_calm split: sum.splits)

lemma benign_calls [benign_intros]:
  "benign {} sync_call" "benign {FileNotFoundError} (look p g)" "benign {FileNotFoundError} (unlink_call p)"
  unfolding call_defs by (rule benign_call; simp split: option.splits if_splits)+

lemma benign_pure [benign_intros]: "benign E (ret x)" "benign E (gets g)"
  by (simp_all add: benign_def ret_def gets_def)

lemma benign_modify [benign_intros]: "benign E (modify (\<lambda>s. s\<lparr>b_previous := g s\<rparr>))" "benign E (mark_mutated p)"
  by (simp_all add: benign_def mark_mutated_def modify_def)

lemma benign_bind [benign_intros]: "benign E m \<Longrightarrow> (\<And>x. benign E (k x)) \<Longrightarrow> benign E (bind m k)"
  unfolding benign_def bind_def by (fastforce split: prod.splits sum.splits)

lemma benign_if [benign_intros]: "(b \<Longrightarrow> benign E m) \<Longrightarrow> (\<not> b \<Longrightarrow> benign E n) \<Longrightarrow> benign E (if b then m else n)"
  by simp

lemma benign_each [benign_intros]: "(\<And>x. x \<in> set xs \<Longrightarrow> benign E (f x)) \<Longrightarrow> benign E (each_act f xs)"
  by (induction xs) (auto intro: benign_intros)

lemma benign_if_missing [benign_intros]: "benign {FileNotFoundError} m \<Longrightarrow> benign {} (if_missing m x)"
  unfolding benign_def if_missing_def handle_def ret_def raise_def by (fastforce split: prod.splits sum.splits)

lemma benign_unlink_ok [benign_intros]: "benign {} (unlink_ok p)"
  using benign_if_missing [OF benign_calls(3), of p "()"] by (simp add: unlink_ok_def if_missing_def)

lemma benign_steps [benign_intros]: "benign {} (unchanged y)" "benign {} (note_previous p)" "benign {} (remove_file p)" "benign {} clean_up"
  unfolding unchanged_def note_previous_def remove_file_def clean_up_def case_prod_beta by (intro benign_intros)+

lemma benign_changed_files [benign_intros]: "benign {} (changed_files xs)"
  by (induction xs) (auto intro!: benign_intros)

lemma benign_prepare_file [benign_intros]:
  assumes mk: "fresh_temps mkstemp"
  shows "benign {} (prepare_file mkstemp y)"
proof -
  have "benign {} (prepare_temp mkstemp p x)" for p x
    unfolding benign_def
  proof (intro allI impI)
    fix s assume s: "calm s"
    obtain t s' where run: "prepare_temp mkstemp p x s = (Inr t, s')" using prepare_temp_calm [OF s] by blast
    have "frame s s'" by (rule framedD [OF framed_prepare_temp [OF mk] run])
    then show "calm (snd (prepare_temp mkstemp p x s)) \<and> (\<forall>e. fst (prepare_temp mkstemp p x s) = Inl e \<longrightarrow> e \<in> {})"
      using s run by (simp add: frame_def)
  qed
  moreover have "benign {} (modify (\<lambda>s. s\<lparr>b_prepared := g s\<rparr>))" for g by (simp add: benign_def modify_def)
  ultimately show ?thesis unfolding prepare_file_def case_prod_beta by (intro benign_intros)
qed

lemma install_calm:
  assumes "calm s" and "list_all2 (staged (b_files s)) pts xs" and "distinct (map snd pts)" and "\<forall>(p, x) \<in> set xs. \<not> hidden p"
  shows "\<exists>s'. each_act install_file pts s = (Inr (), s') \<and> calm s'"
  using assms
proof (induction pts arbitrary: s xs)
  case Nil
  then show ?case by (simp add: ret_def)
next
  case (Cons pt pts)
  obtain p t where pt: "pt = (p, t)" by (cases pt)
  obtain x ys where xs: "xs = (p, x) # ys" and t: "hidden t" "dict_get (b_files s) t = Some x" and rest: "list_all2 (staged (b_files s)) pts ys"
    using Cons.prems(2) by (auto simp: pt list_all2_Cons1 staged_def)
  have p: "\<not> hidden p" using Cons.prems(4) by (auto simp: xs)
  define s1 where "s1 = after (dict_set p x (filter (\<lambda>(q, _). q \<noteq> t) (b_files s))) s"
  define s2 where "s2 = s1\<lparr>b_mutated := b_mutated s1 @ [p]\<rparr>"
  have "replace_call t p s = (Inr (), s1)" using t(2) Cons.prems(1) by (simp add: replace_call_def file_call_calm s1_def)
  then have run: "install_file pt s = (Inr (), s2)" by (simp add: pt install_file_def bind_def mark_mutated_def modify_def s2_def)
  have "calm s2" using Cons.prems(1) by (simp add: s2_def s1_def)
  moreover have "list_all2 (staged (b_files s2)) pts ys"
    using rest
  proof (rule list.rel_mono_strong)
    fix a b assume "a \<in> set pts" "b \<in> set ys" and st: "staged (b_files s) a b"
    moreover have "snd a \<noteq> t" using Cons.prems(3) \<open>a \<in> set pts\<close> by (auto simp: pt)
    ultimately show "staged (b_files s2) a b" using p by (auto simp: staged_def s2_def s1_def dict_simps dict_get_filtered)
  qed
  moreover have "distinct (map snd pts)" "\<forall>(p, x) \<in> set ys. \<not> hidden p" using Cons.prems(3,4) by (auto simp: pt xs)
  ultimately show ?case using Cons.IH [of s2 ys] run by (simp add: bind_def)
qed

lemma mutate_calm:
  assumes "mutate removals s = (r, s')" and "calm s" and "staged_ready old xs K s" and "\<forall>(p, x) \<in> set xs. \<not> hidden p"
  shows "\<not> isl r \<and> calm s'"
proof -
  obtain s1 where one: "each_act install_file (b_prepared s) s = (Inr (), s1)" and s1: "calm s1"
    using install_calm [OF assms(2) _ _ assms(4)] assms(3) by (auto simp: staged_ready_def)
  have run: "bind (each_act remove_file (sort_key (py_join ''/'') removals)) (\<lambda>_. bind (gets b_mutated) (\<lambda>mutated.
     each_act (\<lambda>_. sync_call) (parents_of mutated))) s1 = (r, s')"
    using assms(1) one by (simp add: mutate_def bind_def gets_def)
  have "benign {} (bind (each_act remove_file (sort_key (py_join ''/'') removals)) (\<lambda>_. bind (gets b_mutated) (\<lambda>mutated.
     each_act (\<lambda>_. sync_call) (parents_of mutated))))"
    by (intro benign_intros)
  from benignD [OF this s1 run] show ?thesis by (cases r) auto
qed

abbreviation bundle_steps :: "(file_path \<Rightarrow> file_table \<Rightarrow> file_path) \<Rightarrow> (file_path \<times> content) list \<Rightarrow> file_path list \<Rightarrow> (bundle_state, unit) act" where
  "bundle_steps mkstemp ys removals \<equiv>
     bind (each_act (prepare_file mkstemp) ys) (\<lambda>_. bind (each_act note_previous removals) (\<lambda>_. handle (mutate removals) (roll_back mkstemp)))"

lemma tidy_bundle_steps: "fresh_temps mkstemp \<Longrightarrow> keeps tidy (bundle_steps mkstemp ys removals)"
  by (intro keeps_intros tidy_prepare_file)

lemma bundle_steps_calm:
  assumes "bundle_steps mkstemp ys removals s = (r, s')" and "calm s" and s: "staged_ready old [] {} s" and mk: "fresh_temps mkstemp"
    and h: "\<forall>(p, x) \<in> set ys. \<not> hidden p" "\<forall>p \<in> set removals. \<not> hidden p"
  shows "\<not> isl r \<and> calm s'"
proof -
  obtain q1 s1 where one: "each_act (prepare_file mkstemp) ys s = (q1, s1)" by (cases "each_act (prepare_file mkstemp) ys s")
  obtain q2 s2 where two: "each_act note_previous removals s1 = (q2, s2)" by (cases "each_act note_previous removals s1")
  obtain q3 s3 where three: "mutate removals s2 = (q3, s3)" by (cases "mutate removals s2")
  have "benign {} (each_act (prepare_file mkstemp) ys)" by (intro benign_intros mk)
  from benignD [OF this assms(2) one] obtain u where q1: "q1 = Inr u" and s1: "calm s1" by (cases q1) auto
  have "benign {} (each_act note_previous removals)" by (intro benign_intros)
  from benignD [OF this s1 two] obtain v where q2: "q2 = Inr v" and s2: "calm s2" by (cases q2) auto
  have r1: "staged_ready old ys (fst ` set ys) s1" using prepare_all [OF one s h(1) mk] q1 by simp
  have r2: "staged_ready old ys (fst ` set ys \<union> set removals) s2" using note_all [OF two r1 h(2)] q2 by simp
  note m = mutate_calm [OF three s2 r2 h(1)]
  then have "r = q3" "s' = s3" using assms(1) one two three q1 q2 by (auto simp: bind_def handle_def split: sum.splits)
  then show ?thesis using m by simp
qed

lemma replace_bundle_runs:
  assumes run: "replace_bundle mkstemp files remove_paths s = (r, s')" and "changed_files files s = (Inr ys, s1)"
    and "bundle_steps mkstemp ys (filter (\<lambda>p. p \<notin> fst ` set files) (remdups remove_paths)) s1 = (q, s2)" and "clean_up s2 = (w, s3)"
  shows "s' = s3 \<and> (isl r \<longleftrightarrow> isl q \<or> isl w)"
  using assms by (cases q; cases w) (auto simp: replace_bundle_def Let_def bind_run finally_do_def bind_def gets_def ret_def)

text \<open>
  C7: if at most one system call fails, replacing a bundle of files is all or nothing: afterwards
  either every visible file is as it was, or every file of the bundle has its new bytes and mode,
  the stale files are gone and all other files are as they were. A run that returns has replaced
  the bundle, and a run in which no call fails returns.
\<close>

theorem replace_bundle_all_or_nothing:
  assumes mk: "fresh_temps mkstemp" and "lucky s" "b_prepared s = []" "b_previous s = []" "b_mutated s = []"
    and files: "distinct (map fst files)" and names: "\<not> list_ex hidden (map fst files @ remove_paths)"
    and run: "replace_bundle mkstemp files remove_paths s = (r, s')"
  shows "visible s' \<in> {visible s, replaced files remove_paths (visible s)} \<and>
    (\<not> isl r \<longrightarrow> visible s' = replaced files remove_paths (visible s)) \<and> (calm s \<longrightarrow> \<not> isl r)"
proof -
  let ?removals = "filter (\<lambda>p. p \<notin> fst ` set files) (remdups remove_paths)"
  obtain q0 s1 where zero: "changed_files files s = (q0, s1)" by (cases "changed_files files s")
  have fr: "frame s s1" by (rule framedD [OF framed_changed_files zero])
  have calm1: "calm s1 \<and> \<not> isl q0" if "calm s" using benignD [OF benign_changed_files that zero] by (cases q0) auto
  have plain: "\<And>p x. (p, x) \<in> set files \<Longrightarrow> \<not> hidden p" "\<And>p. p \<in> set remove_paths \<Longrightarrow> \<not> hidden p"
    using names by (force simp: list_ex_iff)+
  show ?thesis
  proof (cases q0)
    case (Inl e)
    then have "r = Inl e" "s' = s1" using run zero by (auto simp: replace_bundle_def Let_def bind_def)
    then show ?thesis using fr calm1 Inl by (auto simp: frame_def)
  next
    case (Inr ys)
    note ch = changed_files_Inr [OF zero [unfolded Inr]]
    obtain q s2 where one: "bundle_steps mkstemp ys ?removals s1 = (q, s2)" by (cases "bundle_steps mkstemp ys ?removals s1")
    obtain w s3 where two: "clean_up s2 = (w, s3)" by (cases "clean_up s2")
    note res = replace_bundle_runs [OF run zero [unfolded Inr] one two]
    have staged_ready: "staged_ready (visible s) [] {} s1" using fr assms(2-5) by (simp add: staged_ready_def frame_def recorded_def)
    have h: "\<forall>(p, x) \<in> set ys. \<not> hidden p" "\<forall>p \<in> set ?removals. \<not> hidden p"
      using plain ch by auto
    have "tidy s1" using fr assms(3) by (simp add: tidy_def frame_def)
    with tidy_bundle_steps [OF mk] have "tidy s2" using one by (rule keepsD)
    then have s3: "visible s3 = visible s2" using clean_up_visible two by (auto simp: frame_def)
    have same: "visible s p = Some x" if "(p, x) \<in> set files" "(p, x) \<notin> set ys" for p x
    proof -
      have "dict_get (b_files s) p = Some x" using ch that by force
      moreover have "\<not> hidden p" using plain(1) that(1) by blast
      ultimately show ?thesis by (simp add: visible_def)
    qed
    have all: "(\<lambda>p. if p \<in> set ?removals then None else overwrite (visible s) ys p) = replaced files remove_paths (visible s)"
      by (rule overwrite_changed [OF files]) (use ch files same in auto)
    have body: "visible s2 = (if isl q then visible s else replaced files remove_paths (visible s))"
      unfolding all [symmetric] by (rule bundle_body [OF one staged_ready mk h])
    have "\<not> isl q \<and> \<not> isl w" if c: "calm s"
    proof -
      have b: "\<not> isl q \<and> calm s2" using bundle_steps_calm [OF one _ staged_ready mk h] calm1 [OF c] by blast
      then show ?thesis using benignD [OF benign_steps(4) _ two] by (cases w) auto
    qed
    then show ?thesis using res body s3 by (auto split: if_splits)
  qed
qed

definition sample_mkstemp :: "file_path \<Rightarrow> file_table \<Rightarrow> file_path" where
  "sample_mkstemp p f = butlast p @ [''.'' @ last p @ ''.'' @ concat (map (last \<circ> fst) f)]"

definition sample_bundle_state :: "bool list \<Rightarrow> bundle_state" where
  "sample_bundle_state script = \<lparr>b_files = [([''d'', ''a''], (''1'', 420)), ([''d'', ''b''], (''2'', 420))], b_script = script,
     b_prepared = [], b_previous = [], b_mutated = []\<rparr>"

lemma length_concat_member: "x \<in> set xs \<Longrightarrow> length x \<le> length (concat xs)"
  by (induction xs) auto

lemma sample_fresh: "fresh_temps sample_mkstemp"
  unfolding fresh_temps_def
proof (intro allI conjI)
  fix p :: file_path and f :: file_table
  let ?t = "sample_mkstemp p f"
  show "hidden ?t" by (simp add: hidden_def sample_mkstemp_def)
  show "dict_get f ?t = None"
  proof (rule ccontr)
    assume "dict_get f ?t \<noteq> None"
    then have "?t \<in> fst ` set f" by (simp add: map_of_eq_None_iff)
    then have "last ?t \<in> set (map (last \<circ> fst) f)" by force
    from length_concat_member [OF this] show False by (simp add: sample_mkstemp_def)
  qed
qed

text \<open>The first run meets no fault and the second one fails after a file was replaced.\<close>

theorem replace_bundle_all_or_nothing_witness:
  "(case replace_bundle sample_mkstemp [([''d'', ''a''], (''new'', 292))] [[''d'', ''b'']] (sample_bundle_state []) of
     (r, s) \<Rightarrow> \<not> isl r \<and> visible s [''d'', ''a''] = Some (''new'', 292) \<and> visible s [''d'', ''b''] = None) \<and>
   (case replace_bundle sample_mkstemp [([''d'', ''a''], (''new'', 292))] [[''d'', ''b'']] (sample_bundle_state (replicate 11 False @ [True])) of
     (r, s) \<Rightarrow> (visible s [''d'', ''a''], visible s [''d'', ''b'']) \<in> {(Some (''1'', 420), Some (''2'', 420)), (Some (''new'', 292), None)})"
proof -
  let ?b = "[([''d'', ''a''], (''new'', 292))] :: (file_path \<times> content) list"
  let ?d = "[[''d'', ''b'']] :: file_path list"
  have n: "\<not> list_ex hidden (map fst ?b @ ?d)" by (simp add: hidden_def)
  have v: "visible (sample_bundle_state script) [''d'', ''a''] = Some (''1'', 420)" "visible (sample_bundle_state script) [''d'', ''b''] = Some (''2'', 420)" for script
    by (simp_all add: visible_def sample_bundle_state_def hidden_def)
  have w: "replaced ?b ?d old [''d'', ''a''] = Some (''new'', 292)" "replaced ?b ?d old [''d'', ''b''] = None" for old
    by (simp_all add: replaced_def)
  have l: "lucky (sample_bundle_state [])" "calm (sample_bundle_state [])" "lucky (sample_bundle_state (replicate 11 False @ [True]))"
    by (simp_all add: lucky_def calm_def sample_bundle_state_def)
  obtain r1 s1 where one: "replace_bundle sample_mkstemp ?b ?d (sample_bundle_state []) = (r1, s1)"
    by (cases "replace_bundle sample_mkstemp ?b ?d (sample_bundle_state [])")
  obtain r2 s2 where two: "replace_bundle sample_mkstemp ?b ?d (sample_bundle_state (replicate 11 False @ [True])) = (r2, s2)"
    by (cases "replace_bundle sample_mkstemp ?b ?d (sample_bundle_state (replicate 11 False @ [True]))")
  have p1: "\<not> isl r1 \<and> visible s1 = replaced ?b ?d (visible (sample_bundle_state []))"
    using replace_bundle_all_or_nothing [OF sample_fresh l(1) _ _ _ _ n one] l(2) by (simp add: sample_bundle_state_def)
  have p2: "visible s2 \<in> {visible (sample_bundle_state (replicate 11 False @ [True])), replaced ?b ?d (visible (sample_bundle_state (replicate 11 False @ [True])))}"
    using replace_bundle_all_or_nothing [OF sample_fresh l(3) _ _ _ _ n two] by (simp add: sample_bundle_state_def)
  show ?thesis using p1 p2 by (auto simp: one two v w)
qed

end
