(* ===== verification/V2_History.thy ===== *)
theory V2_History
  imports Effects Common_Policy
begin

text \<open>
  The Git-backed history of the desired state (\<open>services/nas_v2_history.py\<close>): recording the
  authority file, marking a revision as applied, rolling back to the last applied revision,
  and acknowledging a reconcile request.

  Git is a parameter: \<open>git_run\<close> gives, for a command, a repository and the authority file, the
  exit code, the standard output and the repository and file left behind, or \<open>None\<close> when the
  process cannot run or times out. What the code relies on is stated in \<open>lawful\<close>. The advisory
  lock makes each function one step; the creation of parent directories and \<open>chmod\<close> are left
  out.
\<close>

section \<open>State\<close>

datatype git_cmd =
    InitMain | Init | SymbolicRef string string
  | RevParse string
  | UpdateRef string string "string option"
  | DeleteRef string
  | HashObject string | Mktree string | CommitTree string string
  | AddFile | DiffCached | CommitIndex string
  | RestoreFrom string
  | ShowFile string

record 'g git =
  git_run :: "git_cmd \<Rightarrow> 'g \<Rightarrow> read_outcome \<Rightarrow> (int \<times> string \<times> 'g \<times> read_outcome) option"
  git_exists :: "'g \<Rightarrow> bool"
  git_has_head :: "'g \<Rightarrow> bool"

record 'g hist =
  h_git :: 'g
  h_authority :: read_outcome
  h_pending :: bool
  h_unlink_fails :: bool

type_synonym ('g, 'a) hact = "('g hist, 'a) act"

definition history_error :: "string \<Rightarrow> exn" where
  "history_error m = RuntimeError m"

definition APPLIED_REF :: string where "APPLIED_REF = ''refs/nas/applied''"
definition PREVIOUS_APPLIED_REF :: string where "PREVIOUS_APPLIED_REF = ''refs/nas/previous-applied''"
definition DESIRED_REF :: string where "DESIRED_REF = ''refs/heads/main''"
definition HEAD :: string where "HEAD = ''HEAD''"

definition bootstrap_baseline :: string where
  "bootstrap_baseline = ''schemaVersion: 3'' @ [CHR 0x0A] @ ''services: {}'' @ [CHR 0x0A]"

section \<open>Commands\<close>

text \<open>\<open>_run\<close> and \<open>_git\<close>: a process that cannot run always raises, a failing one when it is checked.\<close>

definition run_git :: "'g git \<Rightarrow> bool \<Rightarrow> git_cmd \<Rightarrow> ('g, int \<times> string) hact" where
  "run_git G check cmd h =
     (case git_run G cmd (h_git h) (h_authority h) of
        None \<Rightarrow> (Inl (history_error ''unable to execute''), h)
      | Some (rc, out, g, a) \<Rightarrow>
          (if check \<and> rc \<noteq> 0 then Inl (history_error ''command failed'') else Inr (rc, out), h\<lparr>h_git := g, h_authority := a\<rparr>))"

definition rev_parse :: "'g git \<Rightarrow> string \<Rightarrow> ('g, string option) hact" where
  "rev_parse G ref = bind (run_git G False (RevParse ref)) (\<lambda>(rc, out).
     ret (if rc \<noteq> 0 \<or> py_strip out = [] then None else Some (py_strip out)))"

definition ensure_repository :: "'g git \<Rightarrow> ('g, unit) hact" where
  "ensure_repository G = bind (gets h_git) (\<lambda>g.
     if git_exists G g then
       (if git_has_head G g then ret () else raise (history_error ''history path is not a Git repository''))
     else bind (run_git G False InitMain) (\<lambda>(rc, _).
       if rc \<noteq> 0 then bind (run_git G True Init) (\<lambda>_. bind (run_git G True (SymbolicRef HEAD DESIRED_REF)) (\<lambda>_. ret ()))
       else ret ()))"

record bootstrap_result =
  boot_created :: bool
  boot_applied :: "string option"

definition bootstrap_baseline_locked :: "'g git \<Rightarrow> string \<Rightarrow> ('g, bootstrap_result) hact" where
  "bootstrap_baseline_locked G name =
     bind (ensure_repository G) (\<lambda>_.
     bind (rev_parse G APPLIED_REF) (\<lambda>applied.
     if applied \<noteq> None then
       bind (rev_parse G APPLIED_REF) (\<lambda>again. ret \<lparr>boot_created = False, boot_applied = again\<rparr>)
     else bind (rev_parse G DESIRED_REF) (\<lambda>desired.
       if desired \<noteq> None then raise (history_error ''refusing to invent a first-boot rollback target'')
       else bind (run_git G True (HashObject bootstrap_baseline)) (\<lambda>(_, blob).
         bind (run_git G True (Mktree (''100644 blob '' @ py_strip blob @ [CHR 0x09] @ name @ [CHR 0x0A]))) (\<lambda>(_, tree).
         bind (run_git G True (CommitTree (py_strip tree) ''Managed Services V2 bootstrap baseline'')) (\<lambda>(_, out).
         let commit = py_strip out in
         if commit = [] then raise (history_error ''Git did not return a bootstrap baseline revision'')
         else bind (run_git G True (UpdateRef DESIRED_REF commit None)) (\<lambda>_.
           bind (run_git G True (UpdateRef APPLIED_REF commit None)) (\<lambda>_.
           ret \<lparr>boot_created = True, boot_applied = Some commit\<rparr>))))))))"

definition ensure_bootstrap_applied :: "'g git \<Rightarrow> string \<Rightarrow> ('g, bootstrap_result) hact" where
  "ensure_bootstrap_applied = bootstrap_baseline_locked"

definition authority_matches_commit_locked :: "'g git \<Rightarrow> string \<Rightarrow> ('g, bool) hact" where
  "authority_matches_commit_locked G commit =
     bind (rev_parse G commit) (\<lambda>verified.
     case verified of
       None \<Rightarrow> raise (history_error ''unknown desired-state Git revision'')
     | Some v \<Rightarrow>
         bind (gets h_authority) (\<lambda>a.
         case a of
           ReadMissing \<Rightarrow> ret False
         | ReadFailed \<Rightarrow> raise (history_error ''unable to read desired-state authority'')
         | ReadText current \<Rightarrow>
             bind (run_git G False (ShowFile v)) (\<lambda>(rc, out).
             if rc \<noteq> 0 then raise (history_error ''unable to read committed authority'') else ret (out = current))))"

definition is_bootstrap_revision_locked :: "'g git \<Rightarrow> string \<Rightarrow> ('g, bool) hact" where
  "is_bootstrap_revision_locked G commit =
     bind (run_git G False (ShowFile commit)) (\<lambda>(rc, out). ret (rc = 0 \<and> out = bootstrap_baseline))"

record record_result =
  rec_changed :: bool
  rec_head :: string

text \<open>\<open>git diff --cached --quiet\<close> and the commit when it reports a difference.\<close>

definition commit_if_changed :: "'g git \<Rightarrow> string \<Rightarrow> ('g, bool) hact" where
  "commit_if_changed G message =
     bind (run_git G False DiffCached) (\<lambda>(rc, _).
     if rc \<notin> {0, 1} then raise (history_error ''unable to compare desired-state history'')
     else if rc = 1 then bind (run_git G True (CommitIndex message)) (\<lambda>_. ret True)
     else ret False)"

definition record_desired_locked :: "'g git \<Rightarrow> string \<Rightarrow> ('g, record_result) hact" where
  "record_desired_locked G message =
     bind (gets h_authority) (\<lambda>a.
     if a = ReadMissing then raise (history_error ''desired-state authority is missing'')
     else if py_strip message = [] then raise (history_error ''history commit message must not be empty'')
     else bind (ensure_repository G) (\<lambda>_.
       bind (run_git G True AddFile) (\<lambda>_.
       bind (commit_if_changed G message) (\<lambda>changed.
       bind (rev_parse G HEAD) (\<lambda>head.
       case head of
         None \<Rightarrow> raise (history_error ''history repository has no desired-state commit after record'')
       | Some c \<Rightarrow> ret \<lparr>rec_changed = changed, rec_head = c\<rparr>)))))"



definition clear_previous_applied :: "'g git \<Rightarrow> ('g, string option) hact" where
  "clear_previous_applied G =
     bind (ensure_repository G) (\<lambda>_.
     bind (rev_parse G PREVIOUS_APPLIED_REF) (\<lambda>previous.
     bind (run_git G False (DeleteRef PREVIOUS_APPLIED_REF)) (\<lambda>_. ret previous)))"

definition acknowledge_pending :: "'g git \<Rightarrow> string \<Rightarrow> ('g, bool) hact" where
  "acknowledge_pending G commit =
     bind (ensure_repository G) (\<lambda>_.
     bind (authority_matches_commit_locked G commit) (\<lambda>current.
     if current then bind (gets h_unlink_fails) (\<lambda>fails.
       if fails then raise (history_error ''unable to clear reconcile marker'')
       else bind (modify (h_pending_update (\<lambda>_. False))) (\<lambda>_. ret True))
     else ret False))"

datatype restore_result = Superseded | Restored bool string "string option"

definition rollback_target :: "'g git \<Rightarrow> string option \<Rightarrow> string \<Rightarrow> ('g, string) hact" where
  "rollback_target G failed applied =
     (if failed = Some applied then
        bind (rev_parse G PREVIOUS_APPLIED_REF) (\<lambda>previous.
        case previous of
          Some p \<Rightarrow> ret p
        | None \<Rightarrow> bind (is_bootstrap_revision_locked G applied) (\<lambda>boot.
            if boot then ret applied
            else raise (history_error ''applied revision matches the failed transaction but no previous rollback target exists'')))
      else ret applied)"

definition restore_applied :: "'g git \<Rightarrow> string \<Rightarrow> string option \<Rightarrow> ('g, restore_result) hact" where
  "restore_applied G message failed =
     bind (ensure_repository G) (\<lambda>_.
     bind (rev_parse G APPLIED_REF) (\<lambda>applied.
     case applied of
       None \<Rightarrow> raise (history_error ''no last-applied desired-state revision exists'')
     | Some a \<Rightarrow>
         bind (case failed of None \<Rightarrow> ret True | Some f \<Rightarrow> authority_matches_commit_locked G f) (\<lambda>current.
         if \<not> current then bind (rev_parse G HEAD) (\<lambda>_. ret Superseded)
         else
           bind (rollback_target G failed a) (\<lambda>target.
           bind (run_git G True (RestoreFrom target)) (\<lambda>_.
           bind (commit_if_changed G message) (\<lambda>changed.
           bind (if target \<noteq> a then bind (run_git G True (UpdateRef APPLIED_REF target (Some a))) (\<lambda>_. ret ()) else ret ()) (\<lambda>_.
           bind (clear_previous_applied G) (\<lambda>_.
           bind (rev_parse G HEAD) (\<lambda>head.
           ret (Restored changed target head))))))))))"

record status_result =
  status_initialized :: bool
  status_desired :: "string option"
  status_applied :: "string option"
  status_in_sync :: bool

definition history_status :: "'g git \<Rightarrow> ('g, status_result) hact" where
  "history_status G =
     bind (gets h_git) (\<lambda>g.
     if \<not> git_exists G g then ret \<lparr>status_initialized = False, status_desired = None, status_applied = None, status_in_sync = False\<rparr>
     else bind (rev_parse G HEAD) (\<lambda>desired.
       bind (rev_parse G APPLIED_REF) (\<lambda>applied.
       ret \<lparr>status_initialized = True, status_desired = desired, status_applied = applied,
         status_in_sync = (desired \<noteq> None \<and> desired = applied)\<rparr>)))"

section \<open>What the code relies on\<close>

text \<open>
  A view of a repository: what a name resolves to, the text of the authority file in a
  revision, and the staged text. \<open>command_law\<close> says how a command acts on it, following the
  manual pages of Git: queries change nothing, a failed reference update changes nothing, an
  update touches one reference (\<open>HEAD\<close> follows the main branch), revisions are immutable.
\<close>

record 'g view =
  refs :: "'g \<Rightarrow> string \<Rightarrow> string option"
  file_at :: "'g \<Rightarrow> string \<Rightarrow> string option"
  staged :: "'g \<Rightarrow> string option"

definition revision :: "'g view \<Rightarrow> 'g \<Rightarrow> string \<Rightarrow> bool" where
  "revision V g c \<longleftrightarrow> refs V g c = Some c"

definition extends :: "'g view \<Rightarrow> 'g \<Rightarrow> 'g \<Rightarrow> bool" where
  "extends V g g' \<longleftrightarrow> (\<forall>c. revision V g c \<longrightarrow> revision V g' c \<and> file_at V g' c = file_at V g c)"

definition same_refs :: "'g view \<Rightarrow> string set \<Rightarrow> 'g \<Rightarrow> 'g \<Rightarrow> bool" where
  "same_refs V S g g' \<longleftrightarrow> (\<forall>q \<in> S. refs V g' q = refs V g q)"

definition names :: "string set" where
  "names = {HEAD, DESIRED_REF, APPLIED_REF, PREVIOUS_APPLIED_REF}"

fun command_law :: "'g view \<Rightarrow> git_cmd \<Rightarrow> 'g \<Rightarrow> read_outcome \<Rightarrow> int \<Rightarrow> string \<Rightarrow> 'g \<Rightarrow> read_outcome \<Rightarrow> bool" where
  "command_law V (RevParse r) g a rc out g' a' \<longleftrightarrow> g' = g \<and> a' = a \<and>
     refs V g r = (if rc \<noteq> 0 \<or> py_strip out = [] then None else Some (py_strip out)) \<and>
     (\<forall>c. refs V g r = Some c \<longrightarrow> revision V g c)"
| "command_law V (ShowFile c) g a rc out g' a' \<longleftrightarrow> g' = g \<and> a' = a \<and> (rc = 0 \<longrightarrow> file_at V g c = Some out)"
| "command_law V DiffCached g a rc out g' a' \<longleftrightarrow> g' = g \<and> a' = a \<and>
     (rc = 0 \<longrightarrow> (\<exists>c. refs V g HEAD = Some c \<and> revision V g c \<and> file_at V g c = staged V g))"
| "command_law V (UpdateRef r n old) g a rc out g' a' \<longleftrightarrow> a' = a \<and> (if rc \<noteq> 0 then g' = g else
     (revision V g n \<longrightarrow> refs V g' r = Some n) \<and> (\<forall>x. old = Some x \<longrightarrow> refs V g r = Some x) \<and>
     same_refs V (names - {r} - (if r \<in> {DESIRED_REF, HEAD} then {DESIRED_REF, HEAD} else {})) g g' \<and> extends V g g' \<and> staged V g' = staged V g)"
| "command_law V (DeleteRef r) g a rc out g' a' \<longleftrightarrow> a' = a \<and> (if rc \<noteq> 0 then g' = g else
     refs V g' r = None \<and> same_refs V (names - {r} - (if r \<in> {DESIRED_REF, HEAD} then {DESIRED_REF, HEAD} else {})) g g' \<and> extends V g g' \<and> staged V g' = staged V g)"
| "command_law V (RestoreFrom c) g a rc out g' a' \<longleftrightarrow>
     (rc = 0 \<longrightarrow> (\<exists>t. file_at V g c = Some t \<and> a' = ReadText t \<and> staged V g' = Some t) \<and> same_refs V names g g' \<and> extends V g g')"
| "command_law V AddFile g a rc out g' a' \<longleftrightarrow>
     (rc = 0 \<longrightarrow> (\<exists>t. a = ReadText t \<and> a' = a \<and> staged V g' = Some t) \<and> same_refs V names g g' \<and> extends V g g')"
| "command_law V (CommitIndex m) g a rc out g' a' \<longleftrightarrow> a' = a \<and>
     (rc = 0 \<longrightarrow> (\<exists>c. refs V g' HEAD = Some c \<and> revision V g' c \<and> file_at V g' c = staged V g) \<and>
        same_refs V {APPLIED_REF, PREVIOUS_APPLIED_REF} g g' \<and> extends V g g')"
| "command_law V cmd g a rc out g' a' \<longleftrightarrow> a' = a"

definition lawful :: "'g git \<Rightarrow> 'g view \<Rightarrow> bool" where
  "lawful G V \<longleftrightarrow> (\<forall>cmd g a rc out g' a'. git_run G cmd g a = Some (rc, out, g', a') \<longrightarrow>
     command_law V cmd g a rc out g' a' \<and> (git_exists G g \<longrightarrow> git_exists G g'))"

section \<open>Runs of the commands\<close>

abbreviation ref_of :: "'g view \<Rightarrow> 'g hist \<Rightarrow> string \<Rightarrow> string option" where
  "ref_of V h r \<equiv> refs V (h_git h) r"

definition ready :: "'g git \<Rightarrow> 'g hist \<Rightarrow> bool" where
  "ready G h \<longleftrightarrow> git_exists G (h_git h)"

lemma run_git_Inr:
  assumes "lawful G V" and "run_git G check cmd h = (Inr (rc, out), h')"
  shows "command_law V cmd (h_git h) (h_authority h) rc out (h_git h') (h_authority h')"
    and "check \<Longrightarrow> rc = 0" and "h_pending h' = h_pending h" and "ready G h \<Longrightarrow> ready G h'"
    and "h_unlink_fails h' = h_unlink_fails h"
  using assms unfolding lawful_def run_git_def ready_def
  by (auto split: option.splits if_splits)

lemma rev_parse_Inr:
  assumes "lawful G V" and "rev_parse G r h = (Inr x, h')"
  shows "h' = h" and "x = ref_of V h r" and "x = Some c \<Longrightarrow> revision V (h_git h) c"
proof -
  obtain rc out where run: "run_git G False (RevParse r) h = (Inr (rc, out), h')"
    and x: "x = (if rc \<noteq> 0 \<or> py_strip out = [] then None else Some (py_strip out))"
    using assms(2) by (auto simp: rev_parse_def act_simps)
  note law = run_git_Inr [OF assms(1) run]
  show "h' = h" using law(1,3,5) by (cases h; cases h') simp
  show "x = ref_of V h r" using law(1) x by simp
  then show "x = Some c \<Longrightarrow> revision V (h_git h) c" using law(1) by simp
qed

lemma ensure_repository_Inr:
  "ready G h \<Longrightarrow> ensure_repository G h = (Inr u, h') \<Longrightarrow> h' = h"
  by (auto simp: ensure_repository_def act_simps ready_def split: if_splits)

lemma authority_matches_Inr:
  assumes "lawful G V" and "authority_matches_commit_locked G c h = (Inr b, h')"
  shows "h' = h" and "b \<longleftrightarrow> (\<exists>v t. ref_of V h c = Some v \<and> h_authority h = ReadText t \<and> file_at V (h_git h) v = Some t)"
    and "\<exists>v. ref_of V h c = Some v"
proof -
  obtain v where p: "rev_parse G c h = (Inr (Some v), h)"
    using assms(2) rev_parse_Inr(1) [OF assms(1)]
    by (fastforce simp: authority_matches_commit_locked_def act_simps split: option.splits)
  then have r: "ref_of V h c = Some v" using rev_parse_Inr(2) [OF assms(1)] by auto
  have "h' = h \<and> (b \<longleftrightarrow> (\<exists>t. h_authority h = ReadText t \<and> file_at V (h_git h) v = Some t))"
  proof (cases "h_authority h")
    case (ReadText t)
    then obtain rc out where run: "run_git G False (ShowFile v) h = (Inr (rc, out), h')" and b: "rc = 0" "b \<longleftrightarrow> out = t"
      using assms(2) p by (auto simp: authority_matches_commit_locked_def bind_def gets_def ret_def raise_def
          split: prod.splits sum.splits if_splits)
    note law = run_git_Inr [OF assms(1) run]
    have "h' = h" using law(1,3,5) by (cases h; cases h') simp
    then show ?thesis using law(1) b ReadText by auto
  qed (use assms(2) p in \<open>auto simp: authority_matches_commit_locked_def bind_def gets_def ret_def raise_def\<close>)
  then show "h' = h" "b \<longleftrightarrow> (\<exists>v t. ref_of V h c = Some v \<and> h_authority h = ReadText t \<and> file_at V (h_git h) v = Some t)"
    "\<exists>v. ref_of V h c = Some v"
    using r by auto
qed

lemma extends_refl [simp]: "extends V g g"
  by (simp add: extends_def)


lemma ref_names [simp]:
  "HEAD \<noteq> APPLIED_REF" "HEAD \<noteq> PREVIOUS_APPLIED_REF" "HEAD \<noteq> DESIRED_REF" "APPLIED_REF \<noteq> PREVIOUS_APPLIED_REF"
  "APPLIED_REF \<noteq> DESIRED_REF" "PREVIOUS_APPLIED_REF \<noteq> DESIRED_REF" "APPLIED_REF \<noteq> HEAD" "PREVIOUS_APPLIED_REF \<noteq> HEAD"
  "DESIRED_REF \<noteq> HEAD" "PREVIOUS_APPLIED_REF \<noteq> APPLIED_REF" "DESIRED_REF \<noteq> APPLIED_REF" "DESIRED_REF \<noteq> PREVIOUS_APPLIED_REF"
  by (simp_all add: HEAD_def APPLIED_REF_def PREVIOUS_APPLIED_REF_def DESIRED_REF_def)

lemma commit_if_changed_Inr:
  assumes "lawful G V" and "commit_if_changed G m h = (Inr b, h')"
  shows "h_authority h' = h_authority h \<and> extends V (h_git h) (h_git h') \<and> h_pending h' = h_pending h \<and>
    same_refs V {APPLIED_REF, PREVIOUS_APPLIED_REF} (h_git h) (h_git h') \<and> (ready G h \<longrightarrow> ready G h') \<and>
    (\<exists>c. ref_of V h' HEAD = Some c \<and> revision V (h_git h') c \<and> file_at V (h_git h') c = staged V (h_git h))"
proof -
  obtain rc out u where d: "run_git G False DiffCached h = (Inr (rc, out), u)" and rc: "rc = 0 \<or> rc = 1"
    and rest: "(if rc = 1 then bind (run_git G True (CommitIndex m)) (\<lambda>_. ret True) else ret False) u = (Inr b, h')"
    using assms(2) by (auto simp: commit_if_changed_def act_simps split: if_splits)
  note dl = run_git_Inr [OF assms(1) d]
  have u: "u = h" using dl(1,3,5) by (cases h; cases u) simp
  show ?thesis
  proof (cases "rc = 1")
    case True
    then obtain rc' out' where c: "run_git G True (CommitIndex m) h = (Inr (rc', out'), h')"
      using rest u by (auto simp: act_simps)
    show ?thesis using run_git_Inr [OF assms(1) c] by simp
  next
    case False
    then have "h' = h" using rest u by (simp add: act_simps)
    then show ?thesis using dl(1) u rc False by (auto simp: same_refs_def)
  qed
qed



lemma restore_applied_start:
  assumes "lawful G V" and "ready G h" and "restore_applied G m failed h = (Inr r, h')"
  obtains a b where "ref_of V h APPLIED_REF = Some a" "revision V (h_git h) a"
    "b \<longleftrightarrow> (\<forall>f. failed = Some f \<longrightarrow> (\<exists>v t. ref_of V h f = Some v \<and> h_authority h = ReadText t \<and> file_at V (h_git h) v = Some t))"
    "(if \<not> b then bind (rev_parse G HEAD) (\<lambda>_. ret Superseded)
      else bind (rollback_target G failed a) (\<lambda>target.
           bind (run_git G True (RestoreFrom target)) (\<lambda>_.
           bind (commit_if_changed G m) (\<lambda>changed.
           bind (if target \<noteq> a then bind (run_git G True (UpdateRef APPLIED_REF target (Some a))) (\<lambda>_. ret ()) else ret ()) (\<lambda>_.
           bind (clear_previous_applied G) (\<lambda>_.
           bind (rev_parse G HEAD) (\<lambda>head.
           ret (Restored changed target head)))))))) h = (Inr r, h')"
proof -
  obtain x where e: "ensure_repository G h = (Inr x, h)"
    using assms(3) ensure_repository_Inr [OF assms(2)] by (fastforce simp: restore_applied_def act_simps)
  obtain p where p: "rev_parse G APPLIED_REF h = (Inr p, h)"
    using assms(3) e rev_parse_Inr(1) [OF assms(1)] by (fastforce simp: restore_applied_def act_simps)
  obtain a where a: "p = Some a"
    using assms(3) e p by (cases p) (simp_all add: restore_applied_def bind_def raise_def)
  obtain b u where b: "(case failed of None \<Rightarrow> ret True | Some f \<Rightarrow> authority_matches_commit_locked G f) h = (Inr b, u)"
    and rest: "(if \<not> b then bind (rev_parse G HEAD) (\<lambda>_. ret Superseded)
      else bind (rollback_target G failed a) (\<lambda>target.
           bind (run_git G True (RestoreFrom target)) (\<lambda>_.
           bind (commit_if_changed G m) (\<lambda>changed.
           bind (if target \<noteq> a then bind (run_git G True (UpdateRef APPLIED_REF target (Some a))) (\<lambda>_. ret ()) else ret ()) (\<lambda>_.
           bind (clear_previous_applied G) (\<lambda>_.
           bind (rev_parse G HEAD) (\<lambda>head.
           ret (Restored changed target head)))))))) u = (Inr r, h')"
    using assms(3) unfolding restore_applied_def
    unfolding bind_run [where m = "ensure_repository G" and s = h, OF e] bind_run [where m = "rev_parse G APPLIED_REF" and s = h, OF p]
      a option.case bind_Inr_iff [of "case failed of None \<Rightarrow> _ | Some f \<Rightarrow> _ f"] by blast
  have "u = h" "b \<longleftrightarrow> (\<forall>f. failed = Some f \<longrightarrow> (\<exists>v t. ref_of V h f = Some v \<and> h_authority h = ReadText t \<and> file_at V (h_git h) v = Some t))"
    using b authority_matches_Inr(1,2) [OF assms(1)] by (auto simp: act_simps split: option.splits)
  then show thesis
    using that [of a b] rest rev_parse_Inr(2,3) [OF assms(1) p] a by auto
qed

section \<open>Rolling back\<close>




text \<open>
  C23: a rollback never destroys a newer edit. If the authority file differs from the revision
  whose application failed, the call reports that the failure is superseded and changes
  neither the file nor the repository.
\<close>

theorem rollback_spares_newer_edit:
  assumes "lawful G V" and "ready G h" and "restore_applied G m (Some f) h = (Inr r, h')"
    and "ref_of V h f = Some v" and "h_authority h = ReadText t" and "file_at V (h_git h) v \<noteq> Some t"
  shows "r = Superseded \<and> h' = h"
proof -
  obtain a b where b: "b \<longleftrightarrow> (\<forall>g. Some f = Some g \<longrightarrow> (\<exists>v t. ref_of V h g = Some v \<and> h_authority h = ReadText t \<and> file_at V (h_git h) v = Some t))"
    and run: "(if \<not> b then bind (rev_parse G HEAD) (\<lambda>_. ret Superseded)
      else bind (rollback_target G (Some f) a) (\<lambda>target.
           bind (run_git G True (RestoreFrom target)) (\<lambda>_.
           bind (commit_if_changed G m) (\<lambda>changed.
           bind (if target \<noteq> a then bind (run_git G True (UpdateRef APPLIED_REF target (Some a))) (\<lambda>_. ret ()) else ret ()) (\<lambda>_.
           bind (clear_previous_applied G) (\<lambda>_.
           bind (rev_parse G HEAD) (\<lambda>head.
           ret (Restored changed target head)))))))) h = (Inr r, h')"
    by (rule restore_applied_start [OF assms(1,2,3)])
  have "\<not> b" using b assms(4,5,6) by auto
  then obtain x where x: "rev_parse G HEAD h = (Inr x, h')" and "r = Superseded"
    using run by (auto simp: act_simps)
  then show ?thesis using rev_parse_Inr(1) [OF assms(1) x] by simp
qed

section \<open>Marking, recording, acknowledging\<close>



text \<open>
  recording the desired state commits exactly the authority file: the head of the history
  that it reports holds the text of the file, and the applied revision is untouched.
\<close>

theorem record_commits_authority:
  assumes "lawful G V" and "ready G h" and "record_desired_locked G m h = (Inr r, h')"
  shows "\<exists>t. h_authority h = ReadText t \<and> h_authority h' = ReadText t \<and> ref_of V h' HEAD = Some (rec_head r) \<and>
    file_at V (h_git h') (rec_head r) = Some t \<and> ref_of V h' APPLIED_REF = ref_of V h APPLIED_REF"
proof -
  obtain x where e: "ensure_repository G h = (Inr x, h)"
    using assms(3) ensure_repository_Inr [OF assms(2)] by (fastforce simp: record_desired_locked_def act_simps split: if_splits)
  obtain rc out h1 changed h2 head where add: "run_git G True AddFile h = (Inr (rc, out), h1)"
    and commit: "commit_if_changed G m h1 = (Inr changed, h2)" and head: "rev_parse G HEAD h2 = (Inr (Some head), h')"
    and r: "rec_head r = head"
    using assms(3) e by (auto simp: record_desired_locked_def bind_Inr_iff run_simps split: if_splits option.splits)
  note l = run_git_Inr [OF assms(1) add] and c = commit_if_changed_Inr [OF assms(1) commit]
    and p = rev_parse_Inr(1,2) [OF assms(1) head]
  obtain t where t: "h_authority h = ReadText t" "h_authority h1 = ReadText t" "staged V (h_git h1) = Some t"
    and s: "same_refs V names (h_git h) (h_git h1)"
    using l(1,2) by auto
  then show ?thesis using c p r by (auto simp: same_refs_def names_def)
qed

text \<open>
  C26: a reconcile request is never lost. Whatever happens during the acknowledgement of a
  revision, the pending marker is removed only if the authority file has the text of that
  revision, so an edit made in the meantime keeps its request.
\<close>

theorem acknowledge_keeps_newer_request:
  assumes "lawful G V" and "ready G h" and "acknowledge_pending G c h = (r, h')" and "h_pending h" and "\<not> h_pending h'"
  shows "\<exists>v t. ref_of V h c = Some v \<and> h_authority h = ReadText t \<and> file_at V (h_git h) v = Some t"
proof -
  have keep: "keeps h_pending (run_git G b cmd)" for b cmd
    by (auto simp: keeps_def run_git_def split: option.splits)
  have keep_rev: "keeps h_pending (rev_parse G q)" for q
    unfolding rev_parse_def by (intro keeps_bind keep) (auto intro: keeps_pure)
  have keep_all: "keeps h_pending (ensure_repository G)" "keeps h_pending (authority_matches_commit_locked G c)"
    unfolding ensure_repository_def authority_matches_commit_locked_def
    by (auto intro!: keeps_bind keep keep_rev keeps_pure keeps_if split: option.splits prod.splits read_outcome.splits)
  obtain x u where e: "ensure_repository G h = (x, u)" by (cases "ensure_repository G h")
  have u: "h_pending u" using keepsD [OF keep_all(1) assms(4) e] .
  obtain y w where a: "authority_matches_commit_locked G c u = (y, w)" by (cases "authority_matches_commit_locked G c u")
  have w: "h_pending w" using keepsD [OF keep_all(2) u a] .
  have xy: "x = Inr ()" "y = Inr True"
    using assms(3,5) e u a w unfolding acknowledge_pending_def bind_def
    by (auto simp: gets_def raise_def ret_def split: sum.splits if_splits prod.splits)
  then have "u = h" using ensure_repository_Inr [OF assms(2)] e by simp
  then show ?thesis using authority_matches_Inr(2) [OF assms(1)] a xy(2) by auto
qed

section \<open>A concrete repository\<close>

text \<open>
  A repository with one branch, whose revisions are numbered: the name of revision \<open>n\<close> is a
  word of \<open>n + 1\<close> letters. It obeys the laws and runs the functions above.
\<close>

record mini =
  texts :: "string list"
  main_ref :: "nat option"
  applied_ref :: "nat option"
  prev_ref :: "nat option"
  idx :: "string option"

definition rev_name :: "nat \<Rightarrow> string" where
  "rev_name n = replicate (Suc n) (CHR ''c'')"

definition rev_index :: "mini \<Rightarrow> string \<Rightarrow> nat option" where
  "rev_index g r = (if r \<noteq> [] \<and> list_all (\<lambda>c. c = CHR ''c'') r \<and> length r \<le> length (texts g) then Some (length r - 1) else None)"

definition valid_ref :: "mini \<Rightarrow> nat option \<Rightarrow> nat option" where
  "valid_ref g x = (case x of Some n \<Rightarrow> if n < length (texts g) then Some n else None | None \<Rightarrow> None)"

definition lookup_ref :: "mini \<Rightarrow> string \<Rightarrow> nat option" where
  "lookup_ref g r =
     (if r = HEAD \<or> r = DESIRED_REF then valid_ref g (main_ref g)
      else if r = APPLIED_REF then valid_ref g (applied_ref g)
      else if r = PREVIOUS_APPLIED_REF then valid_ref g (prev_ref g) else rev_index g r)"

definition set_ref :: "string \<Rightarrow> nat option \<Rightarrow> mini \<Rightarrow> mini option" where
  "set_ref r n g = (if r = APPLIED_REF then Some (g\<lparr>applied_ref := n\<rparr>)
     else if r = PREVIOUS_APPLIED_REF then Some (g\<lparr>prev_ref := n\<rparr>) else None)"

fun mini_run :: "git_cmd \<Rightarrow> mini \<Rightarrow> read_outcome \<Rightarrow> (int \<times> string \<times> mini \<times> read_outcome) option" where
  "mini_run (RevParse r) g a = Some (case lookup_ref g r of None \<Rightarrow> (128, [], g, a) | Some n \<Rightarrow> (0, rev_name n, g, a))"
| "mini_run (ShowFile c) g a = Some (case rev_index g c of None \<Rightarrow> (128, [], g, a) | Some n \<Rightarrow> (0, texts g ! n, g, a))"
| "mini_run DiffCached g a = Some (case valid_ref g (main_ref g) of None \<Rightarrow> (1, [], g, a)
     | Some n \<Rightarrow> (if idx g = Some (texts g ! n) then 0 else 1, [], g, a))"
| "mini_run (UpdateRef r c old) g a = Some (case rev_index g c of None \<Rightarrow> (1, [], g, a)
     | Some n \<Rightarrow> if old \<noteq> None \<and> map_option rev_name (lookup_ref g r) \<noteq> old then (1, [], g, a)
         else case set_ref r (Some n) g of None \<Rightarrow> (1, [], g, a) | Some g' \<Rightarrow> (0, [], g', a))"
| "mini_run (DeleteRef r) g a = Some (case set_ref r None g of None \<Rightarrow> (1, [], g, a) | Some g' \<Rightarrow> (0, [], g', a))"
| "mini_run (RestoreFrom c) g a = Some (case rev_index g c of None \<Rightarrow> (1, [], g, a)
     | Some n \<Rightarrow> (0, [], g\<lparr>idx := Some (texts g ! n)\<rparr>, ReadText (texts g ! n)))"
| "mini_run AddFile g a = Some (case a of ReadText t \<Rightarrow> (0, [], g\<lparr>idx := Some t\<rparr>, a) | _ \<Rightarrow> (128, [], g, a))"
| "mini_run (CommitIndex m) g a = Some (case idx g of None \<Rightarrow> (1, [], g, a)
     | Some t \<Rightarrow> (0, [], g\<lparr>texts := texts g @ [t], main_ref := Some (length (texts g)),
         applied_ref := valid_ref g (applied_ref g), prev_ref := valid_ref g (prev_ref g)\<rparr>, a))"
| "mini_run cmd g a = Some (1, [], g, a)"

definition mini_git :: "mini git" where
  "mini_git = \<lparr>git_run = mini_run, git_exists = (\<lambda>_. True), git_has_head = (\<lambda>_. True)\<rparr>"

definition mini_view :: "mini view" where
  "mini_view = \<lparr>refs = (\<lambda>g r. map_option rev_name (lookup_ref g r)),
     file_at = (\<lambda>g c. map_option (\<lambda>n. texts g ! n) (rev_index g c)), staged = idx\<rparr>"

lemma mini_view_simps [simp]:
  "refs mini_view g r = map_option rev_name (lookup_ref g r)"
  "file_at mini_view g c = map_option (\<lambda>n. texts g ! n) (rev_index g c)" "staged mini_view g = idx g"
  by (simp_all add: mini_view_def)

lemma rev_name_strip: "py_strip (rev_name n) = rev_name n" "rev_name n \<noteq> []"
proof -
  have "\<not> is_space (CHR ''c'')" by code_simp
  then show "py_strip (rev_name n) = rev_name n"
    by (simp add: py_strip_def lstrip_chars_def rstrip_chars_def rev_name_def flip: replicate_Suc replicate_append_same)
qed (simp add: rev_name_def)

lemma rev_index_Some: "rev_index g c = Some n \<longleftrightarrow> n < length (texts g) \<and> c = rev_name n"
proof -
  have "list_all (\<lambda>d. d = CHR ''c'') c \<longleftrightarrow> c = replicate (length c) (CHR ''c'')"
    by (induction c) auto
  then show ?thesis by (cases c) (auto simp: rev_index_def rev_name_def)
qed

lemma rev_name_fresh: "rev_name n \<notin> names"
proof -
  have "c = CHR ''c''" if "c \<in> set (rev_name n)" for c using that by (auto simp: rev_name_def)
  moreover have "CHR ''H'' \<in> set HEAD" "CHR ''r'' \<in> set DESIRED_REF" "CHR ''r'' \<in> set APPLIED_REF" "CHR ''r'' \<in> set PREVIOUS_APPLIED_REF"
    by (simp_all add: HEAD_def DESIRED_REF_def APPLIED_REF_def PREVIOUS_APPLIED_REF_def)
  ultimately show ?thesis unfolding names_def by fastforce
qed

lemma mini_revision: "revision mini_view g c \<longleftrightarrow> (\<exists>n < length (texts g). c = rev_name n)"
proof
  assume "revision mini_view g c"
  then obtain n where "lookup_ref g c = Some n" and c: "rev_name n = c" by (auto simp: revision_def)
  then show "\<exists>n < length (texts g). c = rev_name n"
    using rev_name_fresh [of n] by (auto simp: lookup_ref_def names_def rev_index_Some split: if_splits)
next
  assume "\<exists>n < length (texts g). c = rev_name n"
  then obtain n where n: "n < length (texts g)" "c = rev_name n" by blast
  then have "rev_index g c = Some n" by (simp add: rev_index_Some)
  then show "revision mini_view g c"
    using rev_name_fresh [of n] n by (simp add: revision_def lookup_ref_def names_def)
qed

lemma lookup_ref_bound: "lookup_ref g r = Some n \<Longrightarrow> n < length (texts g)"
  by (auto simp: lookup_ref_def valid_ref_def rev_index_Some split: if_splits option.splits)

lemma rev_index_name: "rev_index g (rev_name n) = (if n < length (texts g) then Some n else None)"
  by (auto simp: rev_index_def rev_name_def list_all_iff)

lemma rev_name_eq [simp]: "rev_name m = rev_name n \<longleftrightarrow> m = n"
  by (auto simp: rev_name_def)

lemma mini_extends: "texts g' = texts g @ ts \<Longrightarrow> extends mini_view g g'"
  by (auto simp: extends_def mini_revision rev_index_name nth_append)

lemma valid_ref_texts: "texts g' = texts g \<Longrightarrow> valid_ref g' y = valid_ref g y"
  by (cases y) (simp_all add: valid_ref_def)

lemma lookup_idx [simp]: "lookup_ref (g\<lparr>idx := x\<rparr>) r = lookup_ref g r"
  using valid_ref_texts [of "g\<lparr>idx := x\<rparr>" g] by (simp add: lookup_ref_def rev_index_def)

lemma set_ref_law:
  assumes "set_ref r x g = Some g'" and "valid_ref g x = x"
  shows "map_option rev_name (lookup_ref g' r) = map_option rev_name x" "same_refs mini_view (names - {r}) g g'"
    "extends mini_view g g'" "idx g' = idx g" "r \<noteq> HEAD" "r \<noteq> DESIRED_REF"
proof -
  have r: "r = APPLIED_REF \<and> g' = g\<lparr>applied_ref := x\<rparr> \<or> r = PREVIOUS_APPLIED_REF \<and> g' = g\<lparr>prev_ref := x\<rparr>"
    using assms(1) by (auto simp: set_ref_def split: if_splits)
  have valid: "valid_ref (g\<lparr>applied_ref := x\<rparr>) y = valid_ref g y" "valid_ref (g\<lparr>prev_ref := x\<rparr>) y = valid_ref g y" for y
    by (rule valid_ref_texts, simp)+
  show "map_option rev_name (lookup_ref g' r) = map_option rev_name x" "r \<noteq> HEAD" "r \<noteq> DESIRED_REF" "idx g' = idx g"
    using r assms(2) by (elim disjE; simp add: lookup_ref_def valid)+
  show "same_refs mini_view (names - {r}) g g'"
    using r by (elim disjE; simp add: same_refs_def names_def lookup_ref_def valid rev_index_def)
  show "extends mini_view g g'" by (rule mini_extends [of _ _ "[]"]) (use r in auto)
qed

lemma mini_commit_law:
  assumes "g' = g\<lparr>texts := texts g @ [t], main_ref := Some (length (texts g)),
         applied_ref := valid_ref g (applied_ref g), prev_ref := valid_ref g (prev_ref g)\<rparr>"
  shows "refs mini_view g' HEAD = Some (rev_name (length (texts g)))" "revision mini_view g' (rev_name (length (texts g)))"
    "file_at mini_view g' (rev_name (length (texts g))) = Some t" "same_refs mini_view {APPLIED_REF, PREVIOUS_APPLIED_REF} g g'"
    "extends mini_view g g'"
  using mini_extends [of g' g "[t]"] assms
  by (auto simp: lookup_ref_def valid_ref_def mini_revision rev_index_name same_refs_def split: option.splits)

lemma mini_lookup_revision: "map_option rev_name (lookup_ref g r) = Some c \<Longrightarrow> revision mini_view g c"
  using lookup_ref_bound by (auto simp: mini_revision)

lemma mini_command_law:
  assumes "mini_run cmd g a = Some (rc, out, g', a')"
  shows "command_law mini_view cmd g a rc out g' a'"
proof (cases cmd)
  case (RevParse r)
  then show ?thesis using assms mini_lookup_revision by (auto simp: rev_name_strip split: option.splits)
next
  case (UpdateRef r c old)
  show ?thesis
  proof (cases "rc = 0")
    case True
    then obtain n where n: "rev_index g c = Some n" and s: "set_ref r (Some n) g = Some g'" and a: "a' = a"
      and o: "old = None \<or> map_option rev_name (lookup_ref g r) = old"
      using assms UpdateRef by (auto split: option.splits if_splits)
    have "valid_ref g (Some n) = Some n" "c = rev_name n" using n by (auto simp: rev_index_Some valid_ref_def)
    then show ?thesis using set_ref_law [OF s] a o True UpdateRef by auto
  qed (use assms UpdateRef in \<open>auto split: option.splits if_splits\<close>)
next
  case (DeleteRef r)
  show ?thesis
  proof (cases "rc = 0")
    case True
    then have s: "set_ref r None g = Some g'" and a: "a' = a" using assms DeleteRef by (auto split: option.splits)
    then show ?thesis using set_ref_law [OF s] True DeleteRef by (auto simp: valid_ref_def)
  qed (use assms DeleteRef in \<open>auto split: option.splits\<close>)
next
  case DiffCached
  then show ?thesis using assms
    by (auto simp: lookup_ref_def mini_revision rev_index_name valid_ref_def split: option.splits if_splits)
next
  case (CommitIndex m)
  show ?thesis
  proof (cases "idx g")
    case (Some t)
    then have g': "g' = g\<lparr>texts := texts g @ [t], main_ref := Some (length (texts g)),
        applied_ref := valid_ref g (applied_ref g), prev_ref := valid_ref g (prev_ref g)\<rparr>" and a: "a' = a"
      using assms CommitIndex by simp_all
    note law = mini_commit_law [OF g']
    show ?thesis
      unfolding CommitIndex command_law.simps
      by (intro conjI impI exI [of _ "rev_name (length (texts g))"] law(1,2,4,5) a) (use law(3) Some in simp)
  qed (use assms CommitIndex in simp)
next
  case AddFile
  then show ?thesis using assms mini_extends [of g' g "[]"]
    by (auto simp: same_refs_def split: read_outcome.splits)
next
  case (RestoreFrom c)
  then show ?thesis using assms mini_extends [of g' g "[]"]
    by (auto simp: same_refs_def split: option.splits)
qed (use assms in \<open>auto split: option.splits\<close>)

lemma mini_lawful: "lawful mini_git mini_view"
  unfolding lawful_def using mini_command_law by (auto simp: mini_git_def)

definition sample_history :: "mini hist" where
  "sample_history = \<lparr>h_git = \<lparr>texts = [''a'', ''b''], main_ref = Some 1, applied_ref = Some 0, prev_ref = None, idx = Some ''b''\<rparr>,
     h_authority = ReadText ''b'', h_pending = True, h_unlink_fails = False\<rparr>"

lemma sample_ready: "ready mini_git h"
  by (simp add: ready_def mini_git_def)

lemma run_split: "fst (m h) = Inr x \<Longrightarrow> m h = (Inr x, snd (m h))"
  by (cases "m h") simp




theorem rollback_spares_newer_edit_witness:
  "restore_applied mini_git ''m'' (Some ''c'') sample_history = (Inr Superseded, sample_history)"
proof -
  let ?undo = "restore_applied mini_git ''m'' (Some ''c'')"
  have "fst (?undo sample_history) = Inr Superseded" by code_simp
  note undo = run_split [of ?undo, OF this]
  have pre: "ref_of mini_view sample_history ''c'' = Some ''c''" "h_authority sample_history = ReadText ''b''"
    "file_at mini_view (h_git sample_history) ''c'' \<noteq> Some ''b''"
    by code_simp+
  show ?thesis using rollback_spares_newer_edit [OF mini_lawful sample_ready undo pre] undo by simp
qed

theorem record_commits_authority_witness:
  "\<exists>r h'. record_desired_locked mini_git ''m'' sample_history = (Inr r, h') \<and> file_at mini_view (h_git h') (rec_head r) = Some ''b''"
proof -
  let ?rec = "record_desired_locked mini_git ''m''"
  have "fst (?rec sample_history) = Inr \<lparr>rec_changed = False, rec_head = ''cc''\<rparr>" by code_simp
  note rec = run_split [of ?rec, OF this]
  have "h_authority sample_history = ReadText ''b''" by (simp add: sample_history_def)
  then have "file_at mini_view (h_git (snd (?rec sample_history))) ''cc'' = Some ''b''"
    using record_commits_authority [OF mini_lawful sample_ready rec] unfolding record_result.simps by (metis read_outcome.inject)
  then show ?thesis using rec by (intro exI conjI) (assumption, simp only: record_result.simps)
qed

theorem acknowledge_keeps_newer_request_witness:
  "\<not> h_pending (snd (acknowledge_pending mini_git ''cc'' sample_history)) \<and>
    (\<exists>v t. ref_of mini_view sample_history ''cc'' = Some v \<and> file_at mini_view (h_git sample_history) v = Some t)"
proof -
  let ?ack = "acknowledge_pending mini_git ''cc'' sample_history"
  have pre: "h_pending sample_history" "\<not> h_pending (snd ?ack)" by code_simp+
  show ?thesis
    using acknowledge_keeps_newer_request [OF mini_lawful sample_ready prod.collapse [symmetric, of ?ack] pre] pre by blast
qed

end
