(* ===== verification/File_Tree.thy ===== *)
theory File_Tree
  imports Effects "HOL-Library.Sublist"
begin

text \<open>
  A file tree with directories, files and symbolic links, and the system calls that the
  publication code uses on it. A path is the list of its components below the root;
  directories on the way to a path are real ones, so that only the last component of a path is
  ever followed as a link, at most 40 times, the limit of the kernel.

  Every call may fail at any time: \<open>faults\<close> decides it from the call and the tree. The state
  keeps the trees passed through, which are the trees that a crash can leave behind.
\<close>

type_synonym path = "string list"

datatype node = Dir (mode: nat) (group: "int option") | File (mode: nat) (group: "int option") | Link string

type_synonym tree = "(path, node) dict"

datatype call =
    Mkdir path nat | Chmod path nat | Chown path int | Symlink string path | Unlink path | Rename path path | Fsync path

record disk =
  now :: tree
  past :: "tree list"
  faults :: "call \<Rightarrow> tree \<Rightarrow> bool"

section \<open>Looking\<close>

definition link_target :: "path \<Rightarrow> string \<Rightarrow> path" where
  "link_target p t =
     (let step = (\<lambda>acc c. if c = [] \<or> c = ''.'' then acc else if c = ''..'' then butlast acc else acc @ [c])
      in foldl step (if starts_with t ''/'' then [] else butlast p) (py_split (CHR ''/'') t))"

fun follow :: "nat \<Rightarrow> tree \<Rightarrow> path \<Rightarrow> path option" where
  "follow n f p =
     (case dict_get f p of
        None \<Rightarrow> None
      | Some (Link t) \<Rightarrow> (case n of 0 \<Rightarrow> None | Suc m \<Rightarrow> follow m f (link_target p t))
      | Some _ \<Rightarrow> Some p)"

declare follow.simps [simp del]

definition real_path :: "tree \<Rightarrow> path \<Rightarrow> path option" where
  "real_path f p = follow 40 f p"

definition exists :: "tree \<Rightarrow> path \<Rightarrow> bool" where
  "exists f p \<longleftrightarrow> real_path f p \<noteq> None"

definition is_symlink :: "tree \<Rightarrow> path \<Rightarrow> bool" where
  "is_symlink f p = (case dict_get f p of Some (Link _) \<Rightarrow> True | _ \<Rightarrow> False)"

definition is_dir :: "tree \<Rightarrow> path \<Rightarrow> bool" where
  "is_dir f p = (case real_path f p of None \<Rightarrow> False | Some q \<Rightarrow> (case dict_get f q of Some (Dir _ _) \<Rightarrow> True | _ \<Rightarrow> False))"

definition is_file :: "tree \<Rightarrow> path \<Rightarrow> bool" where
  "is_file f p = (case real_path f p of None \<Rightarrow> False | Some q \<Rightarrow> (case dict_get f q of Some (File _ _) \<Rightarrow> True | _ \<Rightarrow> False))"

text \<open>\<open>p.rglob("*")\<close> and \<open>p.iterdir()\<close>.\<close>

definition below :: "tree \<Rightarrow> path \<Rightarrow> path list" where
  "below f p = filter (strict_prefix p) (map fst f)"

definition children :: "tree \<Rightarrow> path \<Rightarrow> path list" where
  "children f p = filter (\<lambda>q. q \<noteq> [] \<and> butlast q = p) (map fst f)"

section \<open>Changing\<close>

fun set_mode :: "nat \<Rightarrow> node \<Rightarrow> node" where
  "set_mode m (Dir _ g) = Dir m g"
| "set_mode m (File _ g) = File m g"
| "set_mode m (Link t) = Link t"

fun set_group :: "int \<Rightarrow> node \<Rightarrow> node" where
  "set_group g (Dir m _) = Dir m (Some g)"
| "set_group g (File m _) = File m (Some g)"
| "set_group g (Link t) = Link t"

definition on_real :: "(node \<Rightarrow> node) \<Rightarrow> path \<Rightarrow> tree \<Rightarrow> tree res" where
  "on_real h p f =
     (case real_path f p of
        None \<Rightarrow> Inl OSError
      | Some q \<Rightarrow> (case dict_get f q of None \<Rightarrow> Inl OSError | Some x \<Rightarrow> Inr (dict_set q (h x) f)))"

definition drop_prefix :: "path \<Rightarrow> path \<Rightarrow> path" where
  "drop_prefix p q = drop (length p) q"

definition move_tree :: "path \<Rightarrow> path \<Rightarrow> tree \<Rightarrow> tree" where
  "move_tree p q f = map (\<lambda>(r, x). (if prefix p r then q @ drop_prefix p r else r, x)) (filter (\<lambda>(r, _). r \<noteq> q) f)"

definition is_dir_node :: "node \<Rightarrow> bool" where
  "is_dir_node x = (case x of Dir _ _ \<Rightarrow> True | _ \<Rightarrow> False)"

fun perform :: "call \<Rightarrow> tree \<Rightarrow> tree res" where
  "perform (Mkdir p m) f =
     (if dict_get f p \<noteq> None then Inl FileExistsError
      else if p = [] \<or> (butlast p \<noteq> [] \<and> \<not> is_dir f (butlast p)) then Inl OSError
      else Inr (dict_set p (Dir m None) f))"
| "perform (Chmod p m) f = on_real (set_mode m) p f"
| "perform (Chown p g) f = on_real (set_group g) p f"
| "perform (Symlink t p) f = (if dict_get f p \<noteq> None then Inl FileExistsError else Inr (dict_set p (Link t) f))"
| "perform (Unlink p) f =
     (case dict_get f p of
        None \<Rightarrow> Inl FileNotFoundError
      | Some x \<Rightarrow> if is_dir_node x \<and> below f p \<noteq> [] then Inl OSError else Inr (filter (\<lambda>(r, _). r \<noteq> p) f))"
| "perform (Rename p q) f =
     (case dict_get f p of
        None \<Rightarrow> Inl FileNotFoundError
      | Some x \<Rightarrow>
          (case dict_get f q of
             None \<Rightarrow> Inr (move_tree p q f)
           | Some y \<Rightarrow> if is_dir_node x \<or> is_dir_node y then Inl OSError else Inr (move_tree p q f)))"
| "perform (Fsync p) f = Inr f"

definition sys :: "call \<Rightarrow> (disk, unit) act" where
  "sys c d =
     (if faults d c (now d) then (Inl OSError, d)
      else case perform c (now d) of
        Inl e \<Rightarrow> (Inl e, d)
      | Inr f \<Rightarrow> (Inr (), d\<lparr>now := f, past := past d @ [f]\<rparr>))"

text \<open>\<open>path.unlink(missing_ok=True)\<close>, \<open>path.mkdir(parents=True, exist_ok=True)\<close> and \<open>shutil.rmtree\<close>.\<close>

definition unlink_missing_ok :: "path \<Rightarrow> (disk, unit) act" where
  "unlink_missing_ok p = handle (sys (Unlink p)) (\<lambda>e. if e = FileNotFoundError then ret () else raise e)"

definition mkdir_ok :: "path \<Rightarrow> nat \<Rightarrow> (disk, unit) act" where
  "mkdir_ok p m = handle (sys (Mkdir p m)) (\<lambda>e. bind (gets now) (\<lambda>f.
     if e = FileExistsError \<and> is_dir f p then ret () else raise e))"

definition mkdir_parents :: "path \<Rightarrow> nat \<Rightarrow> (disk, unit) act" where
  "mkdir_parents p m = bind (each_act (\<lambda>q. mkdir_ok q 0x1ED) (filter (\<lambda>q. q \<noteq> [] \<and> q \<noteq> p) (prefixes p))) (\<lambda>_. mkdir_ok p m)"

definition rmtree :: "path \<Rightarrow> (disk, unit) act" where
  "rmtree p = bind (gets now) (\<lambda>f.
     each_act (\<lambda>q. sys (Unlink q)) (sort_key (\<lambda>q. - int (length q)) (below f p) @ [p]))"

text \<open>\<open>shutil.rmtree(path, ignore_errors=True)\<close> goes on after a failure.\<close>

definition rmtree_ignore :: "path \<Rightarrow> (disk, unit) act" where
  "rmtree_ignore p = bind (gets now) (\<lambda>f.
     each_act (\<lambda>q. handle (sys (Unlink q)) (\<lambda>_. ret ())) (sort_key (\<lambda>q. - int (length q)) (below f p) @ [p]))"

section \<open>What a call leaves alone\<close>

fun touches :: "call \<Rightarrow> path \<Rightarrow> bool" where
  "touches (Mkdir p m) r = (r = p)"
| "touches (Chmod p m) r = False"
| "touches (Chown p g) r = False"
| "touches (Symlink t p) r = (r = p)"
| "touches (Unlink p) r = (r = p)"
| "touches (Rename p q) r = (prefix p r \<or> prefix q r)"
| "touches (Fsync p) r = False"

text \<open>What a path is, up to its mode and group.\<close>

fun kind_of :: "node \<Rightarrow> node" where
  "kind_of (Dir m g) = Dir 0 None"
| "kind_of (File m g) = File 0 None"
| "kind_of (Link t) = Link t"

abbreviation kind_at :: "tree \<Rightarrow> path \<Rightarrow> node option" where
  "kind_at f p \<equiv> map_option kind_of (dict_get f p)"

lemma kind_of_set [simp]: "kind_of (set_mode m x) = kind_of x" "kind_of (set_group g x) = kind_of x"
  by (cases x; simp)+

lemma kind_Link [simp]: "kind_of x = Link t \<longleftrightarrow> x = Link t"
  by (cases x) auto

lemma dict_get_filter_ne: "r \<noteq> q \<Longrightarrow> dict_get (filter (\<lambda>(s, _). s \<noteq> q) f) r = dict_get f r"
  by (induction f) auto

lemma move_tree_other:
  "\<not> prefix p r \<Longrightarrow> \<not> prefix q r \<Longrightarrow> dict_get (move_tree p q f) r = dict_get f r"
proof -
  assume r: "\<not> prefix p r" "\<not> prefix q r"
  have "dict_get (map (\<lambda>(s, x). (if prefix p s then q @ drop_prefix p s else s, x)) g) r = dict_get g r" for g :: tree
    using r by (induction g) (auto simp: prefix_def)
  moreover have "r \<noteq> q" using r(2) by auto
  ultimately show ?thesis by (simp add: move_tree_def dict_get_filter_ne)
qed

lemma on_real_kind:
  assumes "on_real h p f = Inr f'" and "\<And>x. kind_of (h x) = kind_of x"
  shows "kind_at f' r = kind_at f r" and "map fst f' = map fst f"
  using assms by (auto simp: on_real_def dict_simps dict_set_keys split: option.splits)

lemma perform_kind:
  assumes "perform c f = Inr f'" and "\<not> touches c r"
  shows "kind_at f' r = kind_at f r"
  using assms
proof (cases c)
  case (Chmod p m)
  then show ?thesis using assms on_real_kind(1) [of "set_mode m" p f f'] by simp
next
  case (Chown p g)
  then show ?thesis using assms on_real_kind(1) [of "set_group g" p f f'] by simp
qed (auto simp: dict_simps dict_get_filter_ne move_tree_other split: if_splits option.splits)

lemma perform_link:
  assumes "perform c f = Inr f'" and "\<not> touches c r" and "x = None \<or> (\<exists>t. x = Some (Link t))"
  shows "dict_get f r = x \<Longrightarrow> dict_get f' r = x"
  using perform_kind [OF assms(1,2)] assms(3) by (cases "dict_get f' r") auto

text \<open>\<open>tracks P Q\<close>: the present tree satisfies \<open>P\<close> and every tree passed through satisfies \<open>Q\<close>.\<close>

definition tracks :: "(tree \<Rightarrow> bool) \<Rightarrow> (tree \<Rightarrow> bool) \<Rightarrow> disk \<Rightarrow> bool" where
  "tracks P Q d \<longleftrightarrow> P (now d) \<and> (\<forall>f \<in> set (past d). Q f)"

lemma keeps_sys:
  assumes "\<And>f f'. P f \<Longrightarrow> perform c f = Inr f' \<Longrightarrow> P f' \<and> Q f'"
  shows "keeps (tracks P Q) (sys c)"
  using assms by (auto simp: keeps_def tracks_def sys_def split: sum.splits)

lemma spec_sys:
  assumes "\<And>f f'. P f \<Longrightarrow> perform c f = Inr f' \<Longrightarrow> P' f' \<and> Q f'"
  shows "spec (tracks P Q) (sys c) (\<lambda>_. tracks P' Q) (tracks P Q)"
  using assms by (auto simp: spec_def tracks_def sys_def split: sum.splits)

lemma keeps_unlink_ok: "keeps I (sys (Unlink p)) \<Longrightarrow> keeps I (unlink_missing_ok p)"
  unfolding unlink_missing_ok_def by (intro keeps_handle keeps_if keeps_pure)

lemma keeps_mkdir_ok: "keeps I (sys (Mkdir p m)) \<Longrightarrow> keeps I (mkdir_ok p m)"
  unfolding mkdir_ok_def by (intro keeps_handle keeps_bind keeps_if keeps_pure)

lemma keeps_mkdir_parents:
  assumes "\<And>q m. prefix q p \<Longrightarrow> keeps I (sys (Mkdir q m))"
  shows "keeps I (mkdir_parents p m)"
  unfolding mkdir_parents_def using assms by (auto intro!: keeps_bind keeps_each keeps_mkdir_ok)

lemma keeps_rmtree:
  assumes "\<And>q. prefix p q \<Longrightarrow> keeps I (sys (Unlink q))"
  shows "keeps I (rmtree p)"
proof -
  have "keeps I (each_act (\<lambda>q. sys (Unlink q)) (sort_key (\<lambda>q. - int (length q)) (below f p) @ [p]))" for f
    using assms by (intro keeps_each) (auto simp: below_def strict_prefix_def)
  then show ?thesis unfolding rmtree_def by (intro keeps_bind keeps_pure)
qed

lemma keeps_rmtree_ignore:
  assumes "\<And>q. prefix p q \<Longrightarrow> keeps I (sys (Unlink q))"
  shows "keeps I (rmtree_ignore p)"
proof -
  have "keeps I (each_act (\<lambda>q. handle (sys (Unlink q)) (\<lambda>_. ret ())) (sort_key (\<lambda>q. - int (length q)) (below f p) @ [p]))" for f
    using assms by (intro keeps_each keeps_handle keeps_pure) (auto simp: below_def strict_prefix_def)
  then show ?thesis unfolding rmtree_ignore_def by (intro keeps_bind keeps_pure)
qed

section \<open>Changing modes\<close>

definition same_shape :: "tree \<Rightarrow> tree \<Rightarrow> bool" where
  "same_shape f g \<longleftrightarrow> map fst f = map fst g \<and> (\<forall>p. kind_at f p = kind_at g p)"

lemma same_shape_refl [simp]: "same_shape f f"
  by (simp add: same_shape_def)

lemma same_shape_trans: "same_shape f g \<Longrightarrow> same_shape g h \<Longrightarrow> same_shape f h"
  by (simp add: same_shape_def)

lemma follow_shape: "same_shape f g \<Longrightarrow> follow n f p = follow n g p"
proof (induction n arbitrary: p)
  case 0
  have "kind_at f p = kind_at g p" using 0 by (simp add: same_shape_def)
  then show ?case by (cases "dict_get f p"; cases "dict_get g p") (auto simp: follow.simps split: node.splits)
next
  case (Suc n)
  have "kind_at f p = kind_at g p" using Suc.prems by (simp add: same_shape_def)
  then show ?case using Suc.IH [OF Suc.prems]
    by (cases "dict_get f p"; cases "dict_get g p") (auto simp: follow.simps split: node.splits)
qed

lemma shape_lookups:
  assumes "same_shape f g"
  shows "real_path f p = real_path g p" "is_dir f p = is_dir g p" "is_file f p = is_file g p" "below f p = below g p"
proof -
  show r: "real_path f p = real_path g p" by (simp add: real_path_def follow_shape [OF assms])
  have k: "kind_at f q = kind_at g q" for q using assms by (simp add: same_shape_def)
  show "is_dir f p = is_dir g p"
  proof (cases "real_path g p")
    case (Some q)
    then show ?thesis using k [of q] r
      by (cases "dict_get f q"; cases "dict_get g q") (auto simp: is_dir_def split: node.splits)
  qed (simp add: is_dir_def r)
  show "is_file f p = is_file g p"
  proof (cases "real_path g p")
    case (Some q)
    then show ?thesis using k [of q] r
      by (cases "dict_get f q"; cases "dict_get g q") (auto simp: is_file_def split: node.splits)
  qed (simp add: is_file_def r)
  show "below f p = below g p" using assms by (simp add: below_def same_shape_def)
qed

lemma real_path_node: "real_path f p = Some q \<Longrightarrow> \<exists>x. dict_get f q = Some x \<and> kind_of x \<in> {Dir 0 None, File 0 None}"
proof -
  have "follow n f p = Some q \<Longrightarrow> \<exists>x. dict_get f q = Some x \<and> kind_of x \<in> {Dir 0 None, File 0 None}" for n
    by (induction n arbitrary: p) (auto simp: follow.simps split: option.splits node.splits)
  then show "real_path f p = Some q \<Longrightarrow> \<exists>x. dict_get f q = Some x \<and> kind_of x \<in> {Dir 0 None, File 0 None}"
    by (simp add: real_path_def)
qed

lemma real_path_real: "dict_get f p = Some x \<Longrightarrow> kind_of x \<in> {Dir 0 None, File 0 None} \<Longrightarrow> real_path f p = Some p"
  by (cases x) (auto simp: real_path_def follow.simps)

end
