(* ===== verification/V2_Generation.thy ===== *)
theory V2_Generation
  imports File_Tree Posix_Path Py_Json Common_Policy "HOL-Library.Product_Lexorder"
begin

text \<open>
  The publication boundary of a compiled generation (\<open>services/nas_v2_generation.py\<close>): names of
  generation directories, allocation, sealing, the atomic switch of the \<open>current\<close> link,
  pruning and discarding. The group database, the process id and modification times are
  parameters. \<open>Path.resolve\<close> of a real directory is the directory itself.
\<close>

section \<open>Names\<close>

definition generation_error :: "string \<Rightarrow> exn" where
  "generation_error m = RuntimeError m"

definition GENERATION_SUFFIX_MAX :: int where
  "GENERATION_SUFFIX_MAX = 9999"

definition revision_ok :: "string \<Rightarrow> bool" where
  "revision_ok s \<longleftrightarrow> (length s = 40 \<or> length s = 64) \<and> list_all lower_hex s"

definition validate_revision :: "json \<Rightarrow> string res" where
  "validate_revision v =
     and_then (expect_str (generation_error ''invalid desired-state Git revision'') v) (\<lambda>s.
       if revision_ok s then Inr s else Inl (generation_error ''invalid desired-state Git revision''))"

definition format_generation_name :: "json \<Rightarrow> json \<Rightarrow> string res" where
  "format_generation_name rev_value index =
     and_then (validate_revision rev_value) (\<lambda>revision.
     case index of
       JInt n \<Rightarrow>
         if n \<noteq> 1 \<and> \<not> (2 \<le> n \<and> n \<le> GENERATION_SUFFIX_MAX) then Inl (generation_error ''invalid generation index'')
         else Inr (if n = 1 then revision else revision @ ''-'' @ int_str n)
     | _ \<Rightarrow> Inl (generation_error ''invalid generation index''))"

text \<open>\<open>-(?:[2-9]|[1-9][0-9]{1,3})\<close> after the dash: a number without leading zero, 2 to 9999.\<close>

definition suffix_ok :: "string \<Rightarrow> bool" where
  "suffix_ok s = (case s of [] \<Rightarrow> False | c # cs \<Rightarrow> list_all is_digit s \<and>
     (if cs = [] then 50 \<le> code c else 49 \<le> code c \<and> length cs \<le> 3))"

definition split_dash :: "string \<Rightarrow> string \<times> string" where
  "split_dash s = (takeWhile (\<lambda>c. c \<noteq> CHR ''-'') s, tl (dropWhile (\<lambda>c. c \<noteq> CHR ''-'') s))"

text \<open>The pattern has at most one dash, so \<open>rpartition\<close> splits at the only one.\<close>

definition generation_name_ok :: "string \<Rightarrow> bool" where
  "generation_name_ok s =
     (if CHR ''-'' \<in> set s then revision_ok (fst (split_dash s)) \<and> suffix_ok (snd (split_dash s)) else revision_ok s)"

definition parse_generation_name :: "json \<Rightarrow> (string \<times> int) option" where
  "parse_generation_name v =
     (case v of
        JStr name \<Rightarrow>
          if \<not> generation_name_ok name then None
          else if CHR ''-'' \<in> set name then Some (fst (split_dash name), int (digits_nat (snd (split_dash name))))
          else Some (name, 1)
      | _ \<Rightarrow> None)"

record groups =
  grp_gid :: "int \<Rightarrow> int option"
  grp_name :: "string \<Rightarrow> int option"

definition reader_gid :: "groups \<Rightarrow> json \<Rightarrow> int option res" where
  "reader_gid env reader_group =
     (let found = (\<lambda>g. case g of None \<Rightarrow> Inl (generation_error ''reader group does not exist'') | Some n \<Rightarrow> Inr (Some n)) in
      case reader_group of
        JNull \<Rightarrow> Inr None
      | JInt n \<Rightarrow> found (grp_gid env n)
      | JStr s \<Rightarrow>
          if s = [] then Inl (generation_error ''invalid reader group'')
          else if list_all is_digit s then found (grp_gid env (int (digits_nat s)))
          else found (grp_name env s)
      | _ \<Rightarrow> Inl (generation_error ''invalid reader group''))"

section \<open>Allocation\<close>

definition is_os_error :: "exn \<Rightarrow> bool" where
  "is_os_error e \<longleftrightarrow> e \<in> {OSError, FileNotFoundError, FileExistsError, PermissionError}"

definition real_dir :: "tree \<Rightarrow> path \<Rightarrow> bool" where
  "real_dir f p \<longleftrightarrow> \<not> is_symlink f p \<and> is_dir f p"

fun allocate_slot :: "path \<Rightarrow> string \<Rightarrow> int list \<Rightarrow> (disk, path) act" where
  "allocate_slot root revision [] = raise (generation_error ''too many generations exist'')"
| "allocate_slot root revision (i # is) =
     bind (lift_res (format_generation_name (JStr revision) (JInt i))) (\<lambda>name.
     bind (handle (bind (sys (Mkdir (root @ [name]) 448)) (\<lambda>_. ret True)) (\<lambda>e.
        if e = FileExistsError then
          bind (gets now) (\<lambda>f. if real_dir f (root @ [name]) then ret False
            else raise (generation_error ''generation path is not a real directory''))
        else raise (generation_error ''unable to allocate generation''))) (\<lambda>created.
     if created then ret (root @ [name]) else allocate_slot root revision is))"

definition allocate_generation :: "path \<Rightarrow> json \<Rightarrow> (disk, path) act" where
  "allocate_generation root rev_value =
     bind (lift_res (validate_revision rev_value)) (\<lambda>revision.
     bind (mkdir_parents root 493) (\<lambda>_.
     bind (gets now) (\<lambda>f.
     if \<not> real_dir f root then raise (generation_error ''generation root must be a real directory'')
     else allocate_slot root revision [1..GENERATION_SUFFIX_MAX])))"

section \<open>Sealing\<close>

definition give_group :: "path \<Rightarrow> int option \<Rightarrow> (disk, unit) act" where
  "give_group p gid =
     (case gid of None \<Rightarrow> ret ()
      | Some g \<Rightarrow> handle (sys (Chown p g)) (\<lambda>_. raise (generation_error ''unable to grant sealed generation group access'')))"

definition seal_one :: "nat \<Rightarrow> int option \<Rightarrow> path \<Rightarrow> (disk, unit) act" where
  "seal_one m gid p = bind (sys (Chmod p m)) (\<lambda>_. give_group p gid)"

definition deepest_first :: "path list \<Rightarrow> path list" where
  "deepest_first ps = sort_key (\<lambda>q. - int (length q)) ps"

definition dir_mode :: "int option \<Rightarrow> nat" where
  "dir_mode gid = (if gid \<noteq> None then 360 else 320)"

definition file_mode :: "int option \<Rightarrow> nat" where
  "file_mode gid = (if gid \<noteq> None then 288 else 256)"

definition seal_tree :: "groups \<Rightarrow> path \<Rightarrow> json \<Rightarrow> (disk, unit) act" where
  "seal_tree env root reader_group =
     bind (lift_res (reader_gid env reader_group)) (\<lambda>gid.
     bind (gets (\<lambda>d. filter (is_file (now d)) (below (now d) root))) (\<lambda>files.
     bind (each_act (seal_one (file_mode gid) gid) (deepest_first files)) (\<lambda>_.
     bind (gets (\<lambda>d. filter (is_dir (now d)) (below (now d) root))) (\<lambda>dirs.
     bind (each_act (seal_one (dir_mode gid) gid) (deepest_first dirs)) (\<lambda>_.
     seal_one (dir_mode gid) gid root)))))"

definition grant_reader_traversal :: "groups \<Rightarrow> path \<Rightarrow> json \<Rightarrow> (disk, unit) act" where
  "grant_reader_traversal env root reader_group =
     bind (lift_res (reader_gid env reader_group)) (\<lambda>gid.
     if gid = None then ret ()
     else bind (gets now) (\<lambda>f.
       if \<not> real_dir f root then raise (generation_error ''generation root must be a real directory'')
       else bind (handle (sys (Chmod root 488)) (\<lambda>_. raise (generation_error ''unable to grant sealed generation group access''))) (\<lambda>_.
         give_group root gid)))"

section \<open>Publication\<close>

definition with_name :: "path \<Rightarrow> string \<Rightarrow> path" where
  "with_name p s = butlast p @ [s]"

definition temp_link :: "string \<Rightarrow> path \<Rightarrow> path" where
  "temp_link pid p = with_name p (''.'' @ last p @ ''.link-'' @ pid)"

definition legacy_path :: "string \<Rightarrow> path \<Rightarrow> path" where
  "legacy_path pid p = with_name p (''.'' @ last p @ ''.legacy-'' @ pid)"

definition set_aside :: "string \<Rightarrow> path \<Rightarrow> (disk, unit) act" where
  "set_aside pid p = bind (gets now) (\<lambda>f.
     if exists f (legacy_path pid p) \<or> is_symlink f (legacy_path pid p)
     then raise (generation_error ''refusing to overwrite legacy migration path'')
     else sys (Rename p (legacy_path pid p)))"

definition install_link :: "string \<Rightarrow> path \<Rightarrow> bool \<Rightarrow> (disk, unit) act" where
  "install_link pid p migrate =
     bind (if migrate then set_aside pid p else ret ()) (\<lambda>_.
     bind (sys (Rename (temp_link pid p) p)) (\<lambda>_. sys (Fsync (butlast p))))"

definition put_back :: "string \<Rightarrow> path \<Rightarrow> bool \<Rightarrow> exn \<Rightarrow> (disk, unit) act" where
  "put_back pid p migrate e = bind (gets now) (\<lambda>f.
     bind (if migrate \<and> exists f (legacy_path pid p) \<and> \<not> exists f p then sys (Rename (legacy_path pid p) p) else ret ()) (\<lambda>_.
     raise e))"

definition replace_symlink :: "string \<Rightarrow> path \<Rightarrow> string \<Rightarrow> (disk, unit) act" where
  "replace_symlink pid p target =
     bind (mkdir_parents (butlast p) 511) (\<lambda>_.
     bind (unlink_missing_ok (temp_link pid p)) (\<lambda>_.
     bind (sys (Symlink target (temp_link pid p))) (\<lambda>_.
     bind (gets (\<lambda>d. is_dir (now d) p \<and> \<not> is_symlink (now d) p)) (\<lambda>migrate.
     bind (finally_do (handle (install_link pid p migrate) (put_back pid p migrate)) (unlink_missing_ok (temp_link pid p))) (\<lambda>_.
     if migrate then rmtree_ignore (legacy_path pid p) else ret ())))))"

definition compatible :: "path \<Rightarrow> path \<times> pure_path \<Rightarrow> unit res" where
  "compatible current = (\<lambda>(stable, relative).
     if butlast stable \<noteq> butlast current then Inl (generation_error ''compatibility path must share the current-link parent'')
     else if stable = current then Inl (generation_error ''compatibility path must not replace the current-generation link'')
     else if is_absolute relative \<or> path_tail relative = [] \<or> list_ex (\<lambda>c. c = ''.'' \<or> c = ''..'') (path_tail relative)
     then Inl (generation_error ''invalid compatibility target'')
     else Inr ())"

text \<open>\<open>os.path.relpath(p, base)\<close> on absolute paths.\<close>

fun relative_parts :: "path \<Rightarrow> path \<Rightarrow> path" where
  "relative_parts (x # xs) (y # ys) = (if x = y then relative_parts xs ys else replicate (Suc (length ys)) ''..'' @ x # xs)"
| "relative_parts xs ys = replicate (length ys) ''..'' @ xs"

definition relpath :: "path \<Rightarrow> path \<Rightarrow> string" where
  "relpath p base = (let r = relative_parts p base in if r = [] then ''.'' else py_join ''/'' r)"

definition publish_generation ::
  "groups \<Rightarrow> string \<Rightarrow> path \<Rightarrow> json \<Rightarrow> json \<Rightarrow> path \<Rightarrow> path \<Rightarrow> (path \<times> pure_path) list \<Rightarrow> json \<Rightarrow> (disk, path) act" where
  "publish_generation env pid generation expected plan_revision root current links reader_group =
     bind (lift_res (validate_revision expected)) (\<lambda>revision.
     if plan_revision \<noteq> JStr revision then raise (generation_error ''desired state changed while the generation was compiling'')
     else if \<not> prefix root generation then raise (generation_error ''generation directory is outside the generation root'')
     else bind (gets now) (\<lambda>f.
       if \<not> real_dir f generation then raise (generation_error ''generation must be a real directory'')
       else if map_option fst (parse_generation_name (JStr (last generation))) \<noteq> Some revision
       then raise (generation_error ''generation directory is not keyed by the expected revision'')
       else bind (lift_res (check_all links (compatible current))) (\<lambda>_.
         bind (seal_tree env generation reader_group) (\<lambda>_.
         bind (grant_reader_traversal env root reader_group) (\<lambda>_.
         bind (sys (Fsync root)) (\<lambda>_.
         bind (each_act (\<lambda>(stable, relative). replace_symlink pid stable (last current @ ''/'' @ path_str relative)) links) (\<lambda>_.
         bind (replace_symlink pid current (relpath generation (butlast current))) (\<lambda>_.
         ret generation))))))))"

section \<open>Removal\<close>

definition unseal_one :: "path \<Rightarrow> (disk, unit) act" where
  "unseal_one p = bind (gets (\<lambda>d. is_dir (now d) p)) (\<lambda>dir.
     handle (sys (Chmod p (if dir then 448 else 384))) (\<lambda>_. ret ()))"

definition unseal_tree :: "path \<Rightarrow> (disk, unit) act" where
  "unseal_tree p = bind (sys (Chmod p 448)) (\<lambda>_. bind (gets (\<lambda>d. below (now d) p)) (each_act unseal_one))"





definition refuse_if_current :: "path \<Rightarrow> path \<Rightarrow> (disk, unit) act" where
  "refuse_if_current p current = bind (gets now) (\<lambda>f.
     if \<not> exists f current \<and> \<not> is_symlink f current then ret ()
     else case real_path f current of
       None \<Rightarrow> raise (generation_error ''current cannot be resolved safely'')
     | Some c \<Rightarrow> if c = p then raise (generation_error ''refusing to discard current generation'') else ret ())"

definition discard_generation :: "path \<Rightarrow> path \<Rightarrow> (disk, unit) act" where
  "discard_generation p current =
     handle (bind (gets (\<lambda>d. real_dir (now d) p)) (\<lambda>real.
       if real then
         bind (refuse_if_current p current) (\<lambda>_.
         bind (unseal_tree p) (\<lambda>_.
         bind (refuse_if_current p current) (\<lambda>_. rmtree p)))
       else ret ())) (\<lambda>e. if is_os_error e then ret () else raise e)"

section \<open>Generation names\<close>

lemma no_dash: "list_all lower_hex s \<Longrightarrow> CHR ''-'' \<notin> set s" "list_all is_digit s \<Longrightarrow> CHR ''-'' \<notin> set s"
  by (auto simp: list_all_iff lower_hex_def is_digit_def)

lemma split_dash_join: "CHR ''-'' \<notin> set r \<Longrightarrow> split_dash (r @ ''-'' @ d) = (r, d)"
proof -
  assume "CHR ''-'' \<notin> set r"
  then have "takeWhile (\<lambda>c. c \<noteq> CHR ''-'') (r @ CHR ''-'' # d) = r" "dropWhile (\<lambda>c. c \<noteq> CHR ''-'') (r @ CHR ''-'' # d) = CHR ''-'' # d"
    by (subst takeWhile_append2 dropWhile_append2; auto)+
  then show ?thesis by (simp add: split_dash_def)
qed

lemma split_dash_parts:
  "CHR ''-'' \<in> set s \<Longrightarrow> s = fst (split_dash s) @ ''-'' @ snd (split_dash s)"
proof -
  assume d: "CHR ''-'' \<in> set s"
  then have "dropWhile (\<lambda>c. c \<noteq> CHR ''-'') s \<noteq> []" by (auto simp: dropWhile_eq_Nil_conv)
  then have "dropWhile (\<lambda>c. c \<noteq> CHR ''-'') s = CHR ''-'' # tl (dropWhile (\<lambda>c. c \<noteq> CHR ''-'') s)"
    using hd_dropWhile [of "\<lambda>c. c \<noteq> CHR ''-''" s] by (metis list.collapse)
  then show ?thesis unfolding split_dash_def using takeWhile_dropWhile_id [of "\<lambda>c. c \<noteq> CHR ''-''" s] by simp
qed

lemma nat_digits_small:
  assumes "2 \<le> n" "n \<le> 9999"
  shows "suffix_ok (nat_digits n)"
proof -
  have d: "list_all is_digit (nat_digits n)" by (rule nat_digits_digits)
  show ?thesis
  proof (cases "n < 10")
    case True
    then show ?thesis using assms d by (subst (asm) nat_digits.simps, subst nat_digits.simps) (simp add: suffix_ok_def of_char_of)
  next
    case False
    have len4: "length (nat_digits n) \<le> 4" using nat_digits_length [of n 3] assms by simp
    have lead: "m \<noteq> 0 \<Longrightarrow> 49 \<le> code (hd (nat_digits m))" for m
    proof (induction m rule: nat_digits.induct)
      case (1 m)
      then show ?case
      proof (cases "m < 10")
        case True
        then show ?thesis using 1 by (subst nat_digits.simps) (simp add: of_char_of)
      next
        case False
        then show ?thesis using 1 nat_digits_Cons [of "m div 10"] by (subst nat_digits.simps) auto
      qed
    qed
    have "2 \<le> length (nat_digits n)"
      using False nat_digits_Cons [of "n div 10"] by (subst nat_digits.simps) auto
    then obtain c e es where s: "nat_digits n = c # e # es" by (cases "nat_digits n"; cases "tl (nat_digits n)") auto
    show ?thesis using d len4 lead [of n] assms by (simp add: s suffix_ok_def)
  qed
qed

lemma suffix_ok_value:
  assumes "suffix_ok s"
  shows "nat_digits (digits_nat s) = s" "2 \<le> digits_nat s" "digits_nat s \<le> 9999"
proof -
  obtain c cs where s: "s = c # cs" and dig: "list_all is_digit s"
    and c: "if cs = [] then 50 \<le> code c else 49 \<le> code c \<and> length cs \<le> 3"
    using assms by (auto simp: suffix_ok_def split: list.splits)
  have "code c \<noteq> 48" using c by (auto split: if_splits)
  then have "c \<noteq> CHR ''0''" by auto
  then have v: "nat_digits (digits_nat s) = s" "0 < digits_nat s"
    using nat_digits_value [of s] dig by (simp_all add: s)
  show "nat_digits (digits_nat s) = s" by (rule v)
  have bound: "digits_nat t < 10 ^ length t" if "list_all is_digit t" for t
    using that
  proof (induction t rule: rev_induct)
    case (snoc x t)
    then have "code x - 48 < 10" "digits_nat t < 10 ^ length t" by (auto simp: is_digit_def)
    then have "10 * digits_nat t + (code x - 48) < 10 * 10 ^ length t" by linarith
    then show ?case by (simp add: digits_nat_snoc)
  qed (simp add: digits_nat_def)
  have "length s \<le> 4" using c by (auto simp: s split: if_splits)
  then have "(10::nat) ^ length s \<le> 10 ^ 4" by (intro power_increasing) auto
  then show "digits_nat s \<le> 9999" using bound [OF dig] by simp
  show "2 \<le> digits_nat s"
  proof (cases "cs = []")
    case True
    then show ?thesis using c by (simp add: s digits_nat_def)
  next
    case False
    have "digits_nat s \<noteq> 1"
    proof
      assume "digits_nat s = 1"
      then have "s = nat_digits 1" using v(1) by simp
      then show False using False by (subst (asm) nat_digits.simps) (simp add: s)
    qed
    then show ?thesis using v(2) by simp
  qed
qed

lemma format_roundtrip:
  "format_generation_name (JStr revision) (JInt n) = Inr name \<longleftrightarrow> parse_generation_name (JStr name) = Some (revision, n)"
proof
  assume "format_generation_name (JStr revision) (JInt n) = Inr name"
  then have r: "revision_ok revision" and n: "n = 1 \<and> name = revision \<or> 2 \<le> n \<and> n \<le> 9999 \<and> name = revision @ ''-'' @ int_str n"
    by (auto simp: format_generation_name_def validate_revision_def GENERATION_SUFFIX_MAX_def res_simps split: if_splits)
  have d: "CHR ''-'' \<notin> set revision" using r no_dash(1) by (simp add: revision_ok_def)
  show "parse_generation_name (JStr name) = Some (revision, n)"
  proof (cases "n = 1")
    case True
    then show ?thesis using n r d by (simp add: parse_generation_name_def generation_name_ok_def)
  next
    case False
    then have name: "name = revision @ ''-'' @ nat_digits (nat n)" and b: "2 \<le> n" "n \<le> 9999" using n by (auto simp: int_str_def)
    show ?thesis
      using r nat_digits_small [of "nat n"] b split_dash_join [OF d, of "nat_digits (nat n)"]
      by (simp add: parse_generation_name_def generation_name_ok_def name digits_nat_digits)
  qed
next
  assume p: "parse_generation_name (JStr name) = Some (revision, n)"
  show "format_generation_name (JStr revision) (JInt n) = Inr name"
  proof (cases "CHR ''-'' \<in> set name")
    case True
    then have s: "revision_ok revision" "suffix_ok (snd (split_dash name))" "n = int (digits_nat (snd (split_dash name)))"
      and r: "revision = fst (split_dash name)"
      using p by (auto simp: parse_generation_name_def generation_name_ok_def split: if_splits)
    note v = suffix_ok_value [OF s(2)]
    have "name = revision @ ''-'' @ int_str n"
      using split_dash_parts [OF True] r v(1) by (simp add: s(3) int_str_def)
    then show ?thesis using s v by (simp add: format_generation_name_def validate_revision_def GENERATION_SUFFIX_MAX_def)
  next
    case False
    then show ?thesis using p
      by (auto simp: parse_generation_name_def generation_name_ok_def format_generation_name_def validate_revision_def split: if_splits)
  qed
qed

text \<open>
  C31: the name of a generation directory and the pair of its revision and slot determine each
  other: a name parses to a pair exactly if the pair formats to that name.
\<close>

theorem generation_name_roundtrip:
  "format_generation_name (JStr revision) (JInt n) = Inr name \<longleftrightarrow> parse_generation_name (JStr name) = Some (revision, n)"
  by (rule format_roundtrip)

section \<open>Sealing\<close>

text \<open>How \<open>seal_one\<close> over a list of paths changes modes: only those of the files and directories named.\<close>

definition modes_set :: "nat \<Rightarrow> path list \<Rightarrow> tree \<Rightarrow> tree \<Rightarrow> bool" where
  "modes_set m qs f f' \<longleftrightarrow> same_shape f f' \<and>
     (\<forall>p x y. dict_get f p = Some x \<and> dict_get f' p = Some y \<longrightarrow>
        (if \<exists>q \<in> set qs. real_path f q = Some p then mode y = m else mode y = mode x))"

lemma mode_group [simp]: "kind_of x \<in> {Dir 0 None, File 0 None} \<Longrightarrow> mode (set_group g x) = mode x"
  "kind_of x \<in> {Dir 0 None, File 0 None} \<Longrightarrow> mode (set_mode m x) = m"
  by (cases x; simp)+

lemma sys_Inr: "sys c d = (Inr u, d') \<Longrightarrow> perform c (now d) = Inr (now d') \<and> past d' = past d @ [now d']"
  by (auto simp: sys_def split: if_splits sum.splits)

lemma chmod_modes:
  assumes "on_real (set_mode m) q f = Inr f'"
  shows "modes_set m [q] f f'"
proof -
  obtain p x where p: "real_path f q = Some p" "dict_get f p = Some x" and f': "f' = dict_set p (set_mode m x) f"
    using assms by (auto simp: on_real_def split: option.splits)
  have "same_shape f f'"
    using on_real_kind [OF assms] by (simp add: same_shape_def)
  moreover have "mode (set_mode m x) = m" using real_path_node [OF p(1)] p(2) by auto
  ultimately show ?thesis using p by (auto simp: modes_set_def f' dict_simps split: if_splits)
qed

lemma chown_modes:
  assumes "on_real (set_group g) q f = Inr f'"
  shows "modes_set m [] f f'"
proof -
  obtain p x where p: "real_path f q = Some p" "dict_get f p = Some x" and f': "f' = dict_set p (set_group g x) f"
    using assms by (auto simp: on_real_def split: option.splits)
  have "same_shape f f'"
    using on_real_kind [OF assms] by (simp add: same_shape_def)
  moreover have "mode (set_group g x) = mode x" using real_path_node [OF p(1)] p(2) by auto
  ultimately show ?thesis using p by (auto simp: modes_set_def f' dict_simps split: if_splits)
qed

lemma modes_set_Nil [simp]: "modes_set m [] f f"
  by (auto simp: modes_set_def)

lemma modes_set_trans:
  assumes a: "modes_set m qs f g" and b: "modes_set m rs g h"
  shows "modes_set m (qs @ rs) f h"
proof -
  have s: "same_shape f g" "same_shape g h" using a b by (simp_all add: modes_set_def)
  have real: "real_path g q = real_path f q" for q using shape_lookups(1) [OF s(1)] by simp
  have "mode y = (if \<exists>q \<in> set (qs @ rs). real_path f q = Some p then m else mode x)"
    if x: "dict_get f p = Some x" and y: "dict_get h p = Some y" for p x y
  proof -
    obtain z where z: "dict_get g p = Some z"
      using s(1) x by (auto simp: same_shape_def) (metis map_option_eq_Some option.exhaust option.simps(8) x)
    have "mode z = (if \<exists>q \<in> set qs. real_path f q = Some p then m else mode x)"
      using a x z by (auto simp: modes_set_def)
    moreover have "mode y = (if \<exists>q \<in> set rs. real_path f q = Some p then m else mode z)"
      using b z y real by (auto simp: modes_set_def)
    ultimately show ?thesis by auto
  qed
  then show ?thesis using same_shape_trans [OF s] by (auto simp: modes_set_def)
qed

lemma seal_one_modes:
  assumes "seal_one m gid q d = (Inr u, d')"
  shows "modes_set m [q] (now d) (now d')"
proof -
  obtain e where c: "sys (Chmod q m) d = (Inr (), e)" and g: "give_group q gid e = (Inr u, d')"
    using assms by (auto simp: seal_one_def act_simps)
  have one: "modes_set m [q] (now d) (now e)" using sys_Inr [OF c] by (simp add: chmod_modes)
  have "modes_set m [] (now e) (now d')"
  proof (cases gid)
    case None
    then show ?thesis using g by (simp add: give_group_def act_simps)
  next
    case (Some n)
    then have "sys (Chown q n) e = (Inr (), d')"
      using g by (auto simp: give_group_def handle_def raise_def split: prod.splits sum.splits)
    then show ?thesis using sys_Inr chown_modes by fastforce
  qed
  then show ?thesis using modes_set_trans [OF one] by fastforce
qed

lemma seal_each_modes:
  "each_act (seal_one m gid) qs d = (Inr u, d') \<Longrightarrow> modes_set m qs (now d) (now d')"
proof (induction qs arbitrary: d)
  case (Cons q qs)
  then obtain e v where one: "seal_one m gid q d = (Inr v, e)" and rest: "each_act (seal_one m gid) qs e = (Inr u, d')"
    by (auto simp: act_simps)
  show ?case using modes_set_trans [OF seal_one_modes [OF one] Cons.IH [OF rest]] by simp
qed (simp add: act_simps)

fun sealed_node :: "int option \<Rightarrow> node \<Rightarrow> bool" where
  "sealed_node gid (Dir m _) = (m = dir_mode gid)"
| "sealed_node gid (File m _) = (m = file_mode gid)"
| "sealed_node gid (Link _) = True"

definition sealed :: "int option \<Rightarrow> path \<Rightarrow> tree \<Rightarrow> bool" where
  "sealed gid root f \<longleftrightarrow> (\<forall>p x. prefix root p \<and> dict_get f p = Some x \<longrightarrow> sealed_node gid x)"

lemma modes_set_node:
  assumes "modes_set m qs f g" and "dict_get g p = Some y"
  shows "\<exists>x. dict_get f p = Some x \<and> kind_of x = kind_of y \<and>
    mode y = (if \<exists>q \<in> set qs. real_path f q = Some p then m else mode x)"
proof -
  have "kind_at f p = kind_at g p" using assms(1) by (simp add: modes_set_def same_shape_def)
  then obtain x where "dict_get f p = Some x" "kind_of x = kind_of y" using assms(2) by (cases "dict_get f p") auto
  then show ?thesis using assms by (auto simp: modes_set_def)
qed

lemma seal_tree_sealed:
  assumes run: "seal_tree env root reader d = (Inr u, d')" and "reader_gid env reader = Inr gid" and "real_dir (now d) root"
  shows "sealed gid root (now d')"
proof -
  obtain d1 d2 where files: "each_act (seal_one (file_mode gid) gid) (deepest_first (filter (is_file (now d)) (below (now d) root))) d = (Inr (), d1)"
    and dirs: "each_act (seal_one (dir_mode gid) gid) (deepest_first (filter (is_dir (now d1)) (below (now d1) root))) d1 = (Inr (), d2)"
    and top: "seal_one (dir_mode gid) gid root d2 = (Inr u, d')"
    using run assms(2) by (auto simp: seal_tree_def act_simps)
  note m1 = seal_each_modes [OF files] and m2 = seal_each_modes [OF dirs] and m3 = seal_one_modes [OF top]
  have s: "same_shape (now d) (now d1)" "same_shape (now d1) (now d2)" using m1 m2 by (simp_all add: modes_set_def)
  note look1 = shape_lookups [OF s(1), symmetric] and look2 = shape_lookups [OF same_shape_trans [OF s], symmetric]
  let ?files = "filter (is_file (now d)) (below (now d) root)" and ?dirs = "filter (is_dir (now d)) (below (now d) root)"
  show ?thesis unfolding sealed_def
  proof (intro allI impI)
    fix p y assume py: "prefix root p \<and> dict_get (now d') p = Some y"
    obtain x2 where x2: "dict_get (now d2) p = Some x2" "kind_of x2 = kind_of y"
      and y: "mode y = (if real_path (now d) root = Some p then dir_mode gid else mode x2)"
      using modes_set_node [OF m3, of p y] py look2(1) by auto
    obtain x1 where x1: "dict_get (now d1) p = Some x1" "kind_of x1 = kind_of x2"
      and v2: "mode x2 = (if \<exists>q \<in> set ?dirs. real_path (now d) q = Some p then dir_mode gid else mode x1)"
      using modes_set_node [OF m2 x2(1)] look1 by (auto simp: deepest_first_def)
    obtain x where x: "dict_get (now d) p = Some x" "kind_of x = kind_of x1"
      and v1: "mode x1 = (if \<exists>q \<in> set ?files. real_path (now d) q = Some p then file_mode gid else mode x)"
      using modes_set_node [OF m1 x1(1)] by (auto simp: deepest_first_def)
    have k: "kind_of x = kind_of y" using x x1 x2 by simp
    have root: "real_path (now d) root = Some root"
      using assms(3) by (auto simp: real_dir_def is_symlink_def is_dir_def real_path_def follow.simps split: option.splits node.splits)
    have p: "p = root \<or> p \<in> set (below (now d) root)"
      using py map_of_SomeD [OF x(1)] by (force simp: below_def strict_prefix_def)
    show "sealed_node gid y"
    proof (cases y)
      case (Dir m g)
      have real: "real_path (now d) p = Some p" using real_path_real [OF x(1)] k Dir by simp
      then have "is_dir (now d) p" using x(1) k Dir by (cases x) (auto simp: is_dir_def)
      then show ?thesis using p real y v2 root Dir by (auto split: if_splits)
    next
      case (File m g)
      have real: "real_path (now d) p = Some p" using real_path_real [OF x(1)] k File by simp
      have kx: "\<exists>a b. x = File a b" using k File by (cases x) auto
      have nd: "real_path (now d) q = Some p \<Longrightarrow> \<not> is_dir (now d) q" for q using kx x(1) by (auto simp: is_dir_def)
      have "p \<noteq> root" using assms(3) kx x(1) root by (auto simp: real_dir_def is_dir_def)
      moreover have "is_file (now d) p" using kx x(1) real by (auto simp: is_file_def)
      ultimately show ?thesis using p real y v1 v2 nd root File by (auto split: if_splits)
    qed simp
  qed
qed

section \<open>Publication is atomic\<close>

text \<open>
  The layout of the runtime directory: the generations lie in a directory beside the current
  link, and neither the names of the two nor those of the compatibility links collide.
\<close>

definition layout :: "path \<Rightarrow> string \<Rightarrow> string \<Rightarrow> (path \<times> pure_path) list \<Rightarrow> bool" where
  "layout base gname cname links \<longleftrightarrow> gname \<noteq> cname \<and> \<not> starts_with gname ''.'' \<and> \<not> starts_with cname ''.'' \<and>
     list_all (\<lambda>(stable, _). stable \<noteq> [] \<and> stable \<noteq> base @ [gname]) links"

definition absent_or_link :: "node option \<Rightarrow> bool" where
  "absent_or_link x = (case x of None \<Rightarrow> True | Some (Link _) \<Rightarrow> True | _ \<Rightarrow> False)"

lemma absent_or_link_iff: "absent_or_link x \<longleftrightarrow> x = None \<or> (\<exists>t. x = Some (Link t))"
  by (auto simp: absent_or_link_def split: option.splits node.splits)

definition published :: "path \<Rightarrow> node option \<Rightarrow> string \<Rightarrow> (tree \<Rightarrow> bool) \<Rightarrow> tree \<Rightarrow> bool" where
  "published current x0 target ok f \<longleftrightarrow> dict_get f current = x0 \<or> dict_get f current = Some (Link target) \<and> ok f"

text \<open>A call that touches neither the link nor the sealed tree keeps both.\<close>

definition away :: "call \<Rightarrow> path \<Rightarrow> path \<Rightarrow> bool" where
  "away c current gen \<longleftrightarrow> \<not> touches c current \<and> (\<forall>r. prefix gen r \<longrightarrow> \<not> touches c r) \<and> (\<forall>p m. c \<noteq> Chmod p m)"

lemma perform_away_sealed:
  assumes "perform c f = Inr f'" and "\<forall>r. prefix gen r \<longrightarrow> \<not> touches c r" and "\<forall>p m. c \<noteq> Chmod p m" and "sealed gid gen f"
  shows "sealed gid gen f'"
  unfolding sealed_def
proof (intro allI impI)
  fix p x assume p: "prefix gen p \<and> dict_get f' p = Some x"
  show "sealed_node gid x"
  proof (cases "\<exists>q g. c = Chown q g")
    case True
    then obtain q g where "on_real (set_group g) q f = Inr f'" using assms(1) by auto
    then obtain y where y: "dict_get f p = Some y" "kind_of y = kind_of x" "mode x = mode y"
      using modes_set_node [OF chown_modes] p by fastforce
    then have "sealed_node gid y" using assms(4) p unfolding sealed_def by blast
    then show ?thesis using y(2,3) by (cases x; cases y) auto
  next
    case False
    have "dict_get f' p = dict_get f p"
      using assms(1,2,3) p False
      by (cases c) (auto simp: dict_simps dict_get_filter_ne move_tree_other split: if_splits option.splits)
    then show ?thesis using assms(4) p unfolding sealed_def by auto
  qed
qed

lemma keeps_away:
  assumes "away c current gen" and "absent_or_link x0"
  shows "keeps (tracks (\<lambda>f. dict_get f current = x0 \<and> sealed gid gen f) (published current x0 t ok)) (sys c)"
proof (rule keeps_sys)
  fix f f' assume f: "dict_get f current = x0 \<and> sealed gid gen f" and p: "perform c f = Inr f'"
  have "dict_get f' current = x0"
    using perform_link [OF p _ assms(2) [unfolded absent_or_link_iff]] assms(1) f by (auto simp: away_def)
  moreover have "sealed gid gen f'" using perform_away_sealed [OF p] assms(1) f by (auto simp: away_def)
  ultimately show "(dict_get f' current = x0 \<and> sealed gid gen f') \<and> published current x0 t ok f'"
    by (simp add: published_def)
qed

text \<open>Names beside the current link.\<close>

lemma dot_names:
  assumes "\<not> starts_with n ''.''"
  shows "temp_link pid p \<noteq> q @ [n]" "legacy_path pid p \<noteq> q @ [n]"
  using assms by (auto simp: temp_link_def legacy_path_def with_name_def)

lemma sibling_prefix: "prefix (base @ [a]) (base @ b # r) \<longleftrightarrow> a = b"
  by auto

lemma sibling_rename_away:
  assumes "a \<noteq> cname" "a \<noteq> gname" "b \<noteq> cname" "b \<noteq> gname"
  shows "away (Rename (base @ [a]) (base @ [b])) (base @ [cname]) (base @ [gname, name])"
  using assms by (auto simp: away_def prefix_def)

lemma sibling_away:
  assumes "a \<noteq> cname" "a \<noteq> gname"
  shows "away (Unlink (base @ a # r)) (base @ [cname]) (base @ [gname, name])"
    and "away (Symlink t (base @ [a])) (base @ [cname]) (base @ [gname, name])"
  using assms by (auto simp: away_def prefix_def)

lemma prefix_mkdir_away: "prefix q base \<Longrightarrow> away (Mkdir q m) (base @ [cname]) (base @ [gname, name])"
  by (auto simp: away_def prefix_def)

lemma replace_sibling_keeps:
  assumes l: "\<not> starts_with gname ''.''" "\<not> starts_with cname ''.''" and a: "a \<noteq> cname" "a \<noteq> gname" and x0: "absent_or_link x0"
  shows "keeps (tracks (\<lambda>f. dict_get f (base @ [cname]) = x0 \<and> sealed gid (base @ [gname, name]) f) (published (base @ [cname]) x0 t ok))
    (replace_symlink pid (base @ [a]) target)" (is "keeps ?I _")
proof -
  have dot: "CHR ''.'' # s \<noteq> cname" "CHR ''.'' # s \<noteq> gname" for s using l by auto
  have temp: "temp_link pid (base @ [a]) = base @ [''.'' @ a @ ''.link-'' @ pid]"
    and leg: "legacy_path pid (base @ [a]) = base @ [''.'' @ a @ ''.legacy-'' @ pid]"
    by (simp_all add: temp_link_def legacy_path_def with_name_def)
  note near = keeps_away [OF _ x0]
  have ren: "keeps ?I (sys (Rename (base @ [b]) (base @ [c])))" if "b \<noteq> cname" "b \<noteq> gname" "c \<noteq> cname" "c \<noteq> gname" for b c
    by (rule near) (rule sibling_rename_away [OF that])
  have unl: "keeps ?I (sys (Unlink (base @ b # r)))" if "b \<noteq> cname" "b \<noteq> gname" for b r
    by (rule near) (rule sibling_away(1) [OF that])
  have sym: "keeps ?I (sys (Symlink u (base @ [b])))" if "b \<noteq> cname" "b \<noteq> gname" for b u
    by (rule near) (rule sibling_away(2) [OF that])
  have mk: "keeps ?I (sys (Mkdir q m))" if "prefix q base" for q m
    by (rule near) (rule prefix_mkdir_away [OF that])
  have fs: "keeps ?I (sys (Fsync q))" for q
    by (rule near) (simp add: away_def)
  have rm: "keeps ?I (rmtree_ignore (base @ [b]))" if "b \<noteq> cname" "b \<noteq> gname" for b
    using unl [OF that] by (intro keeps_rmtree_ignore) (auto simp: prefix_def)
  show ?thesis
    unfolding replace_symlink_def install_link_def put_back_def set_aside_def temp leg butlast_snoc
    by (intro keeps_intros keeps_mkdir_parents keeps_unlink_ok ren unl sym mk fs rm a) (simp_all add: dot a)
qed

lemma move_tree_moved:
  assumes "p \<noteq> q" "\<not> prefix p q" "\<not> prefix q p"
  shows "dict_get (move_tree p q f) q = dict_get f p" "dict_get (move_tree p q f) p = None"
proof -
  have key: "(if prefix p r then q @ drop_prefix p r else r) = q \<longleftrightarrow> r = p" if "r \<noteq> q" for r
    using that assms by (auto simp: prefix_def drop_prefix_def)
  have "dict_get (move_tree p q ((r, x) # g)) q = (if r = p then Some x else dict_get (move_tree p q g) q)" for r x g
    using key [of r] assms(1) by (auto simp: move_tree_def)
  note step = this
  show "dict_get (move_tree p q f) q = dict_get f p"
  proof (induction f)
    case (Cons e g)
    then show ?case by (cases e) (simp add: step)
  qed (simp add: move_tree_def)
  have "p \<notin> fst ` set (move_tree p q f)"
    using assms by (auto simp: move_tree_def prefix_def split: if_splits)
  then show "dict_get (move_tree p q f) p = None" by (simp add: map_of_eq_None_iff)
qed

text \<open>The switch itself: the link changes from its old target to the new one in one step.\<close>

lemma switch_spec:
  fixes base :: path and name t :: string
  assumes l: "\<not> starts_with gname ''.''" "\<not> starts_with cname ''.''" and x0: "absent_or_link x0" and ne: "gname \<noteq> cname"
  defines "cur \<equiv> base @ [cname]" and "gen \<equiv> base @ [gname, name]"
  shows "spec (tracks (\<lambda>f. dict_get f cur = x0 \<and> sealed gid gen f) (published cur x0 t (sealed gid gen)))
    (replace_symlink pid cur t)
    (\<lambda>_. tracks (\<lambda>f. dict_get f cur = Some (Link t) \<and> sealed gid gen f) (published cur x0 t (sealed gid gen)))
    (tracks (published cur x0 t (sealed gid gen)) (published cur x0 t (sealed gid gen)))"
    (is "spec ?I1 _ ?I3 ?E")
proof -
  define tmp where "tmp = base @ [''.'' @ cname @ ''.link-'' @ pid]"
  have bl: "butlast cur = base" by (simp add: cur_def)
  have temp: "temp_link pid cur = tmp" by (simp add: temp_link_def with_name_def cur_def tmp_def)
  have dot: "CHR ''.'' # s \<noteq> cname" "CHR ''.'' # s \<noteq> gname" for s using l by auto
  have d1: "tmp \<noteq> cur" "\<not> prefix tmp cur" "\<not> prefix cur tmp" by (auto simp: tmp_def cur_def dot)
  let ?Q = "published cur x0 t (sealed gid gen)"
  let ?P1 = "\<lambda>f. dict_get f cur = x0 \<and> sealed gid gen f"
  let ?P2 = "\<lambda>f. ?P1 f \<and> dict_get f tmp = Some (Link t)"
  let ?P3 = "\<lambda>f. dict_get f cur = Some (Link t) \<and> sealed gid gen f"
  have weak: "tracks ?P1 ?Q d \<Longrightarrow> ?E d" "tracks ?P2 ?Q d \<Longrightarrow> ?E d" "tracks ?P3 ?Q d \<Longrightarrow> ?E d" for d
    by (auto simp: tracks_def published_def)
  note near = keeps_away [OF _ x0, of _ cur gen gid t "sealed gid gen"]
  have mk: "keeps (tracks ?P1 ?Q) (mkdir_parents base m)" for m
    unfolding cur_def gen_def
    by (intro keeps_mkdir_parents keeps_away [OF prefix_mkdir_away x0])
  have unl1: "keeps (tracks ?P1 ?Q) (unlink_missing_ok tmp)"
    unfolding cur_def gen_def tmp_def
    by (intro keeps_unlink_ok keeps_away [OF sibling_away(1) x0]) (simp_all add: dot)
  have sym: "spec (tracks ?P1 ?Q) (sys (Symlink t tmp)) (\<lambda>_. tracks ?P2 ?Q) ?E"
  proof -
    have "keeps (tracks ?P1 ?Q) (sys (Symlink t tmp))"
      unfolding cur_def gen_def tmp_def by (intro keeps_away [OF sibling_away(2) x0]) (simp_all add: dot)
    moreover have "sys (Symlink t tmp) d = (Inr u, d') \<Longrightarrow> dict_get (now d') tmp = Some (Link t)" for d u d'
      using sys_Inr [of "Symlink t tmp" d u d'] dict_get_set [of tmp "Link t" "now d" tmp] by (auto split: if_splits)
    ultimately show ?thesis
      using weak(1) unfolding spec_def keeps_def tracks_def by (auto split: prod.splits sum.splits)
  qed
  have test: "\<not> (is_dir f cur \<and> \<not> is_symlink f cur)" if "?P1 f" for f
    using that x0 unfolding absent_or_link_iff
    by (auto simp: is_dir_def is_symlink_def real_path_def follow.simps)
  have ren: "spec (tracks ?P2 ?Q) (sys (Rename tmp cur)) (\<lambda>_. tracks ?P3 ?Q) (tracks ?P2 ?Q)"
  proof -
    have "?P3 f' \<and> ?Q f'" if p: "?P2 f" and r: "perform (Rename tmp cur) f = Inr f'" for f f'
    proof -
      have "f' = move_tree tmp cur f" using r p by (auto split: option.splits if_splits)
      then have "dict_get f' cur = Some (Link t)" using move_tree_moved(1) [OF d1] p by simp
      moreover have "\<forall>r. prefix gen r \<longrightarrow> \<not> touches (Rename tmp cur) r"
        using dot ne by (auto simp: gen_def tmp_def cur_def prefix_def)
      then have "sealed gid gen f'" using perform_away_sealed [OF r] p by simp
      ultimately show ?thesis by (simp add: published_def)
    qed
    then show ?thesis by (rule spec_sys)
  qed
  have near3: "keeps (tracks ?P3 ?Q) (sys c)" if "away c cur gen" for c
  proof (rule keeps_sys)
    fix f f' assume f: "?P3 f" and p: "perform c f = Inr f'"
    have "dict_get f' cur = Some (Link t)" using perform_link [OF p, of cur "Some (Link t)"] that f by (auto simp: away_def)
    moreover have "sealed gid gen f'" using perform_away_sealed [OF p] that f by (auto simp: away_def)
    ultimately show "?P3 f' \<and> ?Q f'" by (simp add: published_def)
  qed
  have fs: "spec (tracks ?P3 ?Q) (sys (Fsync base)) (\<lambda>_. tracks ?P3 ?Q) (tracks ?P3 ?Q)"
    by (rule spec_keeps [OF near3]) (simp add: away_def)
  have awt: "away (Unlink tmp) cur gen"
    unfolding cur_def gen_def tmp_def by (rule sibling_away(1)) (simp_all add: dot)
  have unlQ: "keeps ?E (unlink_missing_ok tmp)"
  proof (intro keeps_unlink_ok keeps_sys conjI)
    fix f f' assume f: "?Q f" and p: "perform (Unlink tmp) f = Inr f'"
    have "dict_get f' cur = dict_get f cur" using p d1 by (auto simp: dict_get_filter_ne split: option.splits if_splits)
    moreover have "sealed gid gen f \<Longrightarrow> sealed gid gen f'" using perform_away_sealed [OF p] awt by (auto simp: away_def)
    ultimately show "?Q f'" "?Q f'" using f by (auto simp: published_def)
  qed
  have unl3: "keeps (tracks ?P3 ?Q) (unlink_missing_ok tmp)" by (intro keeps_unlink_ok near3 awt)
  have install: "spec (tracks ?P2 ?Q) (install_link pid cur False) (\<lambda>_. tracks ?P3 ?Q) ?E"
    unfolding install_link_def temp if_False
  proof (rule spec_bind)
    show "spec (tracks ?P2 ?Q) (ret ()) (\<lambda>_. tracks ?P2 ?Q) ?E" by (rule spec_pure(1))
    show "spec (tracks ?P2 ?Q) (bind (sys (Rename tmp cur)) (\<lambda>_. sys (Fsync (butlast cur)))) (\<lambda>_. tracks ?P3 ?Q) ?E" for x :: unit
    proof (rule spec_bind)
      show "spec (tracks ?P2 ?Q) (sys (Rename tmp cur)) (\<lambda>_. tracks ?P3 ?Q) ?E"
        by (rule spec_weaken [OF ren]) (simp_all add: weak(2))
      show "spec (tracks ?P3 ?Q) (sys (Fsync (butlast cur))) (\<lambda>_. tracks ?P3 ?Q) ?E" for x :: unit
        unfolding bl by (rule spec_weaken [OF fs]) (simp_all add: weak(3))
    qed
  qed
  have guarded: "spec (tracks ?P2 ?Q) (handle (install_link pid cur False) (put_back pid cur False)) (\<lambda>_. tracks ?P3 ?Q) ?E"
  proof (rule spec_handle [OF install])
    show "spec ?E (put_back pid cur False e) (\<lambda>_. tracks ?P3 ?Q) ?E" for e
      unfolding put_back_def by (auto intro!: spec_bind spec_pure)
  qed
  have finished: "spec (tracks ?P2 ?Q) (finally_do (handle (install_link pid cur False) (put_back pid cur False)) (unlink_missing_ok tmp))
      (\<lambda>_. tracks ?P3 ?Q) ?E"
  proof (rule spec_finally [OF guarded])
    show "spec (tracks ?P3 ?Q) (unlink_missing_ok tmp) (\<lambda>_. tracks ?P3 ?Q) ?E" for x :: unit
      by (rule spec_weaken [OF spec_keeps [OF unl3]]) (simp_all add: weak(3))
  qed (rule spec_keeps [OF unlQ])
  have tail: "spec (tracks ?P2 ?Q) (bind (gets (\<lambda>d. is_dir (now d) cur \<and> \<not> is_symlink (now d) cur)) (\<lambda>migrate.
      bind (finally_do (handle (install_link pid cur migrate) (put_back pid cur migrate)) (unlink_missing_ok tmp)) (\<lambda>_.
      if migrate then rmtree_ignore (legacy_path pid cur) else ret ()))) (\<lambda>_. tracks ?P3 ?Q) ?E"
  proof (rule spec_bind)
    show "spec (tracks ?P2 ?Q) (gets (\<lambda>d. is_dir (now d) cur \<and> \<not> is_symlink (now d) cur)) (\<lambda>m d. \<not> m \<and> tracks ?P2 ?Q d) ?E"
      by (rule spec_pure(3)) (use test in \<open>auto simp: tracks_def\<close>)
    show "spec (\<lambda>d. \<not> m \<and> tracks ?P2 ?Q d) (bind (finally_do (handle (install_link pid cur m) (put_back pid cur m)) (unlink_missing_ok tmp)) (\<lambda>_.
        if m then rmtree_ignore (legacy_path pid cur) else ret ())) (\<lambda>_. tracks ?P3 ?Q) ?E" for m
    proof (cases m)
      case False
      then have m: "m = False" by simp
      show ?thesis unfolding m if_False
      proof (rule spec_bind)
        show "spec (\<lambda>d. \<not> False \<and> tracks ?P2 ?Q d)
            (finally_do (handle (install_link pid cur False) (put_back pid cur False)) (unlink_missing_ok tmp)) (\<lambda>_. tracks ?P3 ?Q) ?E"
          by (rule spec_weaken [OF finished]) auto
        show "spec (tracks ?P3 ?Q) (ret ()) (\<lambda>_. tracks ?P3 ?Q) ?E" for x :: unit by (rule spec_pure(1))
      qed
    qed (simp add: spec_def)
  qed
  show ?thesis unfolding replace_symlink_def temp
  proof (rule spec_bind)
    show "spec (tracks ?P1 ?Q) (mkdir_parents (butlast cur) 511) (\<lambda>_. tracks ?P1 ?Q) ?E"
      unfolding bl by (rule spec_weaken [OF spec_keeps [OF mk]]) (simp_all add: weak(1))
    show "spec (tracks ?P1 ?Q) (bind (unlink_missing_ok tmp) (\<lambda>_. bind (sys (Symlink t tmp)) (\<lambda>_.
       bind (gets (\<lambda>d. is_dir (now d) cur \<and> \<not> is_symlink (now d) cur)) (\<lambda>migrate.
       bind (finally_do (handle (install_link pid cur migrate) (put_back pid cur migrate)) (unlink_missing_ok tmp)) (\<lambda>_.
       if migrate then rmtree_ignore (legacy_path pid cur) else ret ()))))) (\<lambda>_. tracks ?P3 ?Q) ?E" for x :: unit
    proof (rule spec_bind)
      show "spec (tracks ?P1 ?Q) (unlink_missing_ok tmp) (\<lambda>_. tracks ?P1 ?Q) ?E"
        by (rule spec_weaken [OF spec_keeps [OF unl1]]) (simp_all add: weak(1))
    qed (rule spec_bind [OF sym tail])
  qed
qed

lemma relpath_inside: "xs \<noteq> [] \<Longrightarrow> relpath (base @ xs) base = py_join ''/'' xs"
proof -
  have "relative_parts (base @ xs) base = xs" by (induction base) (cases xs; simp)+
  then show "xs \<noteq> [] \<Longrightarrow> relpath (base @ xs) base = py_join ''/'' xs" by (simp add: relpath_def)
qed

lemma seal_tree_keeps:
  assumes "absent_or_link x0"
  shows "keeps (tracks (\<lambda>f. dict_get f cur = x0) (published cur x0 t ok)) (seal_tree env root reader)" (is "keeps ?I _")
proof -
  have "keeps ?I (sys c)" if "\<not> touches c cur" for c
    using perform_link [OF _ that assms [unfolded absent_or_link_iff]] by (intro keeps_sys) (auto simp: published_def)
  then have "keeps ?I (sys (Chmod p m))" "keeps ?I (sys (Chown p g))" for p m g by simp_all
  then have "keeps ?I (seal_one m gid p)" for m gid p
    unfolding seal_one_def give_group_def by (auto intro!: keeps_bind keeps_handle keeps_pure split: option.splits)
  then show ?thesis unfolding seal_tree_def by (intro keeps_intros)
qed

lemma grant_reader_keeps:
  fixes base :: path and name cname gname :: string
  assumes "absent_or_link x0"
  defines "cur \<equiv> base @ [cname]" and "gen \<equiv> base @ [gname, name]"
  shows "keeps (tracks (\<lambda>f. dict_get f cur = x0 \<and> sealed gid gen f) (published cur x0 t ok)) (grant_reader_traversal env (base @ [gname]) reader)"
    (is "keeps ?I _")
proof -
  let ?root = "base @ [gname]"
  have "keeps ?I (sys (Chown ?root g))" for g
    by (rule keeps_away [OF _ assms(1)]) (simp add: away_def)
  then have grp: "keeps ?I (give_group ?root g)" for g
    unfolding give_group_def by (auto intro!: keeps_handle keeps_pure split: option.splits)
  have mod: "?I d \<Longrightarrow> real_dir (now d) ?root \<Longrightarrow> ?I (snd (sys (Chmod ?root 488) d))" for d
  proof -
    assume d: "?I d" and real: "real_dir (now d) ?root"
    have root: "real_path (now d) ?root = Some ?root"
      using real by (auto simp: real_dir_def is_symlink_def is_dir_def real_path_def follow.simps split: option.splits node.splits)
    have "dict_get f' cur = x0 \<and> sealed gid gen f'" if p: "perform (Chmod ?root 488) (now d) = Inr f'" for f'
    proof
      show "dict_get f' cur = x0"
        using perform_link [OF p, of cur x0] assms(1) d by (simp add: absent_or_link_iff tracks_def)
      have "modes_set 488 [?root] (now d) f'" using chmod_modes p by simp
      note node = modes_set_node [OF this]
      show "sealed gid gen f'" unfolding sealed_def
      proof (intro allI impI)
        fix q y assume q: "prefix gen q \<and> dict_get f' q = Some y"
        have "q \<noteq> ?root" using q by (auto simp: gen_def prefix_def)
        then obtain x where x: "dict_get (now d) q = Some x" "kind_of x = kind_of y" "mode y = mode x"
          using node [of q y] q root by auto
        then have "sealed_node gid x" using d q by (auto simp: tracks_def sealed_def)
        then show "sealed_node gid y" using x by (cases x; cases y) auto
      qed
    qed
    then show ?thesis using d unfolding sys_def by (auto simp: tracks_def published_def split: sum.splits)
  qed
  have body: "keeps ?I (bind (gets now) (\<lambda>f. if \<not> real_dir f ?root then raise (generation_error ''generation root must be a real directory'')
       else bind (handle (sys (Chmod ?root 488)) (\<lambda>_. raise (generation_error ''unable to grant sealed generation group access''))) (\<lambda>_.
         give_group ?root x)))" for x
    unfolding keeps_def
  proof (intro allI impI)
    fix d assume d: "?I d"
    obtain r e where sys: "sys (Chmod ?root 488) d = (r, e)" by (cases "sys (Chmod ?root 488) d")
    show "?I (snd (bind (gets now) (\<lambda>f. if \<not> real_dir f ?root then raise (generation_error ''generation root must be a real directory'')
       else bind (handle (sys (Chmod ?root 488)) (\<lambda>_. raise (generation_error ''unable to grant sealed generation group access''))) (\<lambda>_.
         give_group ?root x)) d))"
    proof (cases "real_dir (now d) ?root")
      case True
      have "?I e" using mod [OF d True] sys by simp
      then have "?I (snd (give_group ?root x e))" using grp [of x] unfolding keeps_def by blast
      then show ?thesis using \<open>?I e\<close> True sys
        by (cases r) (simp_all add: bind_def gets_def handle_def raise_def)
    qed (use d in \<open>simp add: bind_def gets_def raise_def\<close>)
  qed
  show ?thesis unfolding grant_reader_traversal_def
    by (rule keeps_bind [OF keeps_pure(3)], rule keeps_if, rule keeps_pure(1), rule body)
qed

lemma sealing_spec:
  fixes base :: path and name cname gname t :: string
  assumes "absent_or_link x0" and "reader_gid env reader = Inr gid"
  defines "cur \<equiv> base @ [cname]" and "gen \<equiv> base @ [gname, name]"
  defines "Q \<equiv> published cur x0 t (sealed gid gen)"
  shows "spec (\<lambda>d. real_dir (now d) gen \<and> tracks (\<lambda>f. dict_get f cur = x0) Q d) (seal_tree env gen reader)
    (\<lambda>_. tracks (\<lambda>f. dict_get f cur = x0 \<and> sealed gid gen f) Q) (tracks Q Q)"
  unfolding spec_def
proof (intro allI impI)
  fix d assume d: "real_dir (now d) gen \<and> tracks (\<lambda>f. dict_get f cur = x0) Q d"
  obtain r d' where run: "seal_tree env gen reader d = (r, d')" by (cases "seal_tree env gen reader d")
  have k: "tracks (\<lambda>f. dict_get f cur = x0) Q d'"
    unfolding Q_def by (rule keepsD [OF seal_tree_keeps [OF assms(1)] _ run]) (use d in \<open>simp add: Q_def\<close>)
  show "case seal_tree env gen reader d of
      (Inl e, t) \<Rightarrow> tracks Q Q t | (Inr x, t) \<Rightarrow> tracks (\<lambda>f. dict_get f cur = x0 \<and> sealed gid gen f) Q t"
  proof (cases r)
    case (Inl e)
    then show ?thesis using run k by (simp add: tracks_def Q_def published_def)
  next
    case (Inr u)
    then show ?thesis using run k seal_tree_sealed [OF _ assms(2)] d by (simp add: tracks_def)
  qed
qed

lemma links_away:
  assumes "layout base gname cname links" "check_all links (compatible (base @ [cname])) = Inr u" "(p, r) \<in> set links"
  shows "\<exists>a. p = base @ [a] \<and> a \<noteq> cname \<and> a \<noteq> gname"
proof -
  have s: "p \<noteq> []" "p \<noteq> base @ [gname]" using assms(1,3) by (auto simp: layout_def list_all_iff)
  have "compatible (base @ [cname]) (p, r) = Inr ()"
    using check_all_Inr_iff [of links "compatible (base @ [cname])"] assms(2,3) by auto
  then have "butlast p = base" "p \<noteq> base @ [cname]" by (auto simp: compatible_def split: if_splits)
  then show ?thesis using s append_butlast_last_id [of p] by metis
qed

lemma publish_spec:
  fixes base :: path and name cname gname pid :: string
  assumes l: "layout base gname cname links" and x0: "absent_or_link x0" and gid: "reader_gid env reader = Inr gid"
  defines "cur \<equiv> base @ [cname]" and "gen \<equiv> base @ [gname, name]" and "t \<equiv> gname @ ''/'' @ name"
  defines "Q \<equiv> published cur x0 t (sealed gid gen)"
  shows "spec (tracks (\<lambda>f. dict_get f cur = x0) Q) (publish_generation env pid gen expected plan (base @ [gname]) cur links reader)
    (\<lambda>_. tracks (\<lambda>f. dict_get f cur = Some (Link t) \<and> sealed gid gen f) Q) (tracks Q Q)"
    (is "spec ?I0 _ ?I3 ?E")
proof -
  let ?I1 = "tracks (\<lambda>f. dict_get f cur = x0 \<and> sealed gid gen f) Q"
  have weak: "?I0 d \<Longrightarrow> ?E d" "?I1 d \<Longrightarrow> ?E d" for d by (auto simp: tracks_def Q_def published_def)
  have names: "\<not> starts_with gname ''.''" "\<not> starts_with cname ''.''" "gname \<noteq> cname" using l by (auto simp: layout_def)
  have kept: "keeps ?I1 m \<Longrightarrow> spec ?I1 m (\<lambda>_. ?I1) ?E" for m :: "(disk, unit) act"
    by (erule spec_weaken [OF spec_keeps]) (simp_all add: weak)
  have target: "relpath gen (butlast cur) = t"
    unfolding gen_def cur_def t_def using relpath_inside [of "[gname, name]" base] by simp
  let ?J = "tracks (\<lambda>f. dict_get f cur = Some (Link t) \<and> sealed gid gen f) Q"
  have switch: "spec ?I1 (bind (replace_symlink pid cur (relpath gen (butlast cur))) (\<lambda>_. ret gen)) ?I3 ?E"
    unfolding target
  proof (rule spec_bind)
    show "spec ?I1 (replace_symlink pid cur t) (\<lambda>_. ?J) ?E"
      unfolding Q_def cur_def gen_def by (rule switch_spec [OF names(1,2) x0 names(3)])
    show "spec ?J (ret gen) ?I3 ?E" for x :: unit by (rule spec_pure(1))
  qed
  have others: "spec ?I1 (each_act (\<lambda>(stable, relative). replace_symlink pid stable (last cur @ ''/'' @ path_str relative)) links) (\<lambda>_. ?I1) ?E"
    if ok: "check_all links (compatible cur) = Inr u" for u
  proof (intro kept keeps_each)
    fix x assume x: "x \<in> set links"
    then obtain a where a: "fst x = base @ [a]" "a \<noteq> cname" "a \<noteq> gname"
      using links_away [OF l ok [unfolded cur_def], of "fst x" "snd x"] by auto
    have "keeps ?I1 (replace_symlink pid (base @ [a]) target)" for target
      unfolding Q_def cur_def gen_def by (rule replace_sibling_keeps [OF names(1,2) a(2,3) x0])
    then show "keeps ?I1 (case x of (q, relative) \<Rightarrow> replace_symlink pid q (last cur @ ''/'' @ path_str relative))"
      using a(1) by (simp add: case_prod_beta)
  qed
  have sync: "spec ?I1 (sys (Fsync (base @ [gname]))) (\<lambda>_. ?I1) ?E"
    unfolding Q_def by (rule kept [unfolded Q_def], rule keeps_away [OF _ x0]) (simp add: away_def)
  have grant: "spec ?I1 (grant_reader_traversal env (base @ [gname]) reader) (\<lambda>_. ?I1) ?E"
    by (rule kept) (simp only: Q_def cur_def gen_def grant_reader_keeps [OF x0])
  have seal: "spec (\<lambda>d. real_dir (now d) gen \<and> ?I0 d) (seal_tree env gen reader) (\<lambda>_. ?I1) ?E"
    unfolding Q_def cur_def gen_def by (rule sealing_spec [OF x0 gid])
  have body: "spec (\<lambda>d. real_dir (now d) gen \<and> ?I0 d)
      (bind (lift_res (check_all links (compatible cur))) (\<lambda>_.
       bind (seal_tree env gen reader) (\<lambda>_. bind (grant_reader_traversal env (base @ [gname]) reader) (\<lambda>_.
       bind (sys (Fsync (base @ [gname]))) (\<lambda>_.
       bind (each_act (\<lambda>(stable, relative). replace_symlink pid stable (last cur @ ''/'' @ path_str relative)) links) (\<lambda>_.
       bind (replace_symlink pid cur (relpath gen (butlast cur))) (\<lambda>_. ret gen))))))) ?I3 ?E"
  proof (cases "check_all links (compatible cur)")
    case (Inl e)
    then show ?thesis by (simp add: spec_def bind_def lift_res_def weak)
  next
    case (Inr u)
    have "bind (lift_res (check_all links (compatible cur))) k = k u" for k :: "unit \<Rightarrow> (disk, path) act"
      by (rule ext) (simp add: Inr bind_def lift_res_def)
    then show ?thesis
      by (simp only:) (rule spec_bind [OF seal], rule spec_bind [OF grant], rule spec_bind [OF sync], rule spec_bind [OF others [OF Inr]], rule switch)
  qed
  have look: "spec ?I0 (gets now) (\<lambda>f d. f = now d \<and> ?I0 d) ?E" by (rule spec_pure(3)) simp
  have guards: "spec ?I0 (if plan \<noteq> JStr revision then raise e1 else if \<not> prefix (base @ [gname]) gen then raise e2
       else bind (gets now) (\<lambda>f. if \<not> real_dir f gen then raise e3
         else if map_option fst (parse_generation_name (JStr (last gen))) \<noteq> Some revision then raise e4
         else m)) ?I3 ?E" if "spec (\<lambda>d. real_dir (now d) gen \<and> ?I0 d) m ?I3 ?E" for revision e1 e2 e3 e4 and m :: "(disk, path) act"
    by (intro spec_if spec_pure(2) spec_bind [OF look]; (rule spec_weaken [OF that])?) (auto intro: weak)
  show ?thesis unfolding publish_generation_def
  proof (rule spec_bind)
    show "spec ?I0 (lift_res (validate_revision expected)) (\<lambda>_. ?I0) ?E"
      by (rule spec_pure(4)) (auto intro: weak)
  qed (rule guards [OF body])
qed

text \<open>
  C6: publication is atomic under every fault and every crash. Take the runtime directory laid
  out as the reconciler lays it out, with a current link that is absent or a link. Whatever
  system call fails, in every tree that the run passes through, the current link either is
  what it was before or points to the new generation, and the new generation is then
  completely sealed. If the function returns, the link points to the sealed generation.
\<close>

theorem publish_atomic:
  assumes "layout base gname cname links" and "absent_or_link (dict_get (now d) (base @ [cname]))"
    and "reader_gid env reader = Inr gid" and "past d = []"
    and run: "publish_generation env pid (base @ [gname, name]) expected plan (base @ [gname]) (base @ [cname]) links reader d = (r, d')"
  shows "(\<forall>f \<in> set (now d' # past d'). dict_get f (base @ [cname]) = dict_get (now d) (base @ [cname]) \<or>
            dict_get f (base @ [cname]) = Some (Link (gname @ ''/'' @ name)) \<and> sealed gid (base @ [gname, name]) f) \<and>
         (\<forall>p. r = Inr p \<longrightarrow> dict_get (now d') (base @ [cname]) = Some (Link (gname @ ''/'' @ name)) \<and> sealed gid (base @ [gname, name]) (now d'))"
proof -
  note s = publish_spec [OF assms(1-3), of name pid expected plan]
  let ?Q = "published (base @ [cname]) (dict_get (now d) (base @ [cname])) (gname @ ''/'' @ name) (sealed gid (base @ [gname, name]))"
  have d: "tracks (\<lambda>f. dict_get f (base @ [cname]) = dict_get (now d) (base @ [cname])) ?Q d"
    by (simp add: tracks_def assms(4))
  have all: "tracks ?Q ?Q d'" using specD [OF s d] run by (cases r) (auto simp: tracks_def published_def)
  then have "\<forall>f \<in> set (now d' # past d'). ?Q f" by (simp add: tracks_def)
  moreover have "dict_get (now d') (base @ [cname]) = Some (Link (gname @ ''/'' @ name)) \<and> sealed gid (base @ [gname, name]) (now d')"
    if "r = Inr p" for p using specD(1) [OF s d, of p d'] run that by (simp add: tracks_def)
  ultimately show ?thesis by (simp add: published_def)
qed

definition sample_revision :: string where
  "sample_revision = replicate 40 CHR ''a''"

definition sample_disk :: disk where
  "sample_disk = \<lparr>now = [([''r''], Dir 493 None), ([''r'', ''g''], Dir 493 None), ([''r'', ''g'', sample_revision], Dir 448 None), ([''r'', ''g'', sample_revision, ''p''], File 420 None)],
     past = [], faults = \<lambda>_ _. False\<rparr>"

theorem publish_atomic_witness:
  "dict_get (now (snd (publish_generation \<lparr>grp_gid = \<lambda>_. None, grp_name = \<lambda>_. Some 7\<rparr> ''9'' [''r'', ''g'', sample_revision]
      (JStr sample_revision) (JStr sample_revision) [''r'', ''g''] [''r'', ''c''] [] (JStr ''caddy'') sample_disk))) [''r'', ''c'']
    = Some (Link (''g/'' @ sample_revision))"
proof -
  let ?env = "\<lparr>grp_gid = \<lambda>_. None, grp_name = \<lambda>_. Some 7\<rparr>"
  let ?run = "publish_generation ?env ''9'' ([''r''] @ [''g'', sample_revision]) (JStr sample_revision) (JStr sample_revision) ([''r''] @ [''g'']) ([''r''] @ [''c'']) [] (JStr ''caddy'') sample_disk"
  have l: "layout [''r''] ''g'' ''c'' []" "absent_or_link (dict_get (now sample_disk) ([''r''] @ [''c'']))"
    "reader_gid ?env (JStr ''caddy'') = Inr (Some 7)" "past sample_disk = []" by code_simp+
  have "\<not> isl (fst ?run)" by code_simp
  then obtain p where "?run = (Inr p, snd ?run)" by (metis prod.collapse right_result)
  then show ?thesis using publish_atomic [OF l, of "''9''" sample_revision "JStr sample_revision" "JStr sample_revision" "Inr p" "snd ?run"] by simp
qed

section \<open>Removal spares the current generation\<close>










definition pruned_disk :: disk where
  "pruned_disk = \<lparr>now = [([''g''], Dir 493 None), ([''g'', sample_revision], Dir 320 None), ([''g'', sample_revision @ ''-2''], Dir 320 None),
     ([''c''], Link (''g/'' @ sample_revision))], past = [], faults = \<lambda>_ _. False\<rparr>"


text \<open>A candidate that the current link selects is never discarded: the function refuses and changes nothing.\<close>

lemma discard_refuses_current:
  assumes "real_dir (now d) p" and "real_path (now d) current = Some p"
  shows "discard_generation p current d = (Inl (generation_error ''refusing to discard current generation''), d)"
  using assms
  by (simp add: discard_generation_def refuse_if_current_def handle_def bind_def gets_def raise_def exists_def is_os_error_def generation_error_def)

definition still_there :: "tree \<Rightarrow> disk \<Rightarrow> bool" where
  "still_there f d \<longleftrightarrow> (\<forall>q x. dict_get f q = Some x \<longrightarrow> dict_get (now d) q = Some x)"

lemma mkdir_still_there: "keeps (still_there f) (sys (Mkdir p m))"
  by (auto simp: keeps_def still_there_def sys_def dict_simps split: sum.splits if_splits)

lemma allocate_slot_fresh:
  assumes "allocate_slot root revision is d = (Inr p, d')" "still_there f d"
  shows "still_there f d' \<and> (\<exists>i \<in> set is. format_generation_name (JStr revision) (JInt i) = Inr (last p)) \<and> butlast p = root \<and>
    dict_get f p = None \<and> dict_get (now d') p = Some (Dir 448 None)"
  using assms
proof (induction "is" arbitrary: d)
  case (Cons i "is")
  then obtain name created e where n: "Inr name = format_generation_name (JStr revision) (JInt i)"
    and slot: "handle (bind (sys (Mkdir (root @ [name]) 448)) (\<lambda>_. ret True)) (\<lambda>e.
        if e = FileExistsError then
          bind (gets now) (\<lambda>f. if real_dir f (root @ [name]) then ret False
            else raise (generation_error ''generation path is not a real directory''))
        else raise (generation_error ''unable to allocate generation'')) d = (Inr created, e)" (is "handle ?m ?h d = _")
    and rest: "(if created then ret (root @ [name]) else allocate_slot root revision is) e = (Inr p, d')"
    by (auto simp: act_simps)
  have "keeps (still_there f) (handle ?m ?h)" by (intro keeps_intros mkdir_still_there)
  then have ge: "still_there f e" by (rule keepsD [where s = d]) (rule Cons.prems(2), rule slot)
  show ?case
  proof (cases created)
    case True
    then have p: "p = root @ [name]" "d' = e" using rest by (simp_all add: act_simps)
    have "sys (Mkdir p 448) d = (Inr (), e)"
      using slot True unfolding handle_def p(1)
      by (auto simp: act_simps bind_Inl_iff split: prod.splits sum.splits if_splits)
    then have "perform (Mkdir p 448) (now d) = Inr (now e)" using sys_Inr by blast
    then have "dict_get (now d) p = None" "now e = dict_set p (Dir 448 None) (now d)" by (auto split: if_splits)
    then have new: "dict_get (now d) p = None" "dict_get (now e) p = Some (Dir 448 None)" by (simp_all add: dict_simps)
    have "dict_get f p = None" using Cons.prems(2) new(1) by (cases "dict_get f p") (auto simp: still_there_def)
    then show ?thesis using ge n [symmetric] new(2) p by auto
  next
    case False
    then show ?thesis using Cons.IH [of e] rest ge by auto
  qed
qed (simp add: act_simps)

text \<open>
  allocation never hands out a directory that exists: everything that was on the disk is
  still there unchanged, and the directory returned lies in the generation root, is named
  after the requested revision, was absent before and is a private directory afterwards.
\<close>

theorem allocation_fresh:
  assumes "allocate_generation root (JStr revision) d = (Inr p, d')"
  shows "butlast p = root \<and> (\<exists>i. parse_generation_name (JStr (last p)) = Some (revision, i)) \<and>
    dict_get (now d) p = None \<and> dict_get (now d') p = Some (Dir 448 None) \<and>
    (\<forall>q x. dict_get (now d) q = Some x \<longrightarrow> dict_get (now d') q = Some x)"
proof -
  obtain u e where up: "mkdir_parents root 493 d = (Inr u, e)"
    and slot: "allocate_slot root revision [1..GENERATION_SUFFIX_MAX] e = (Inr p, d')"
    using assms by (auto simp: allocate_generation_def act_simps validate_revision_def split: if_splits)
  have "still_there (now d) e"
    by (rule keepsD [OF keeps_mkdir_parents [OF mkdir_still_there] _ up]) (simp add: still_there_def)
  note f = allocate_slot_fresh [OF slot this]
  then obtain i where "format_generation_name (JStr revision) (JInt i) = Inr (last p)" by blast
  then have "parse_generation_name (JStr (last p)) = Some (revision, i)" by (simp add: format_roundtrip)
  then show ?thesis using f by (auto simp: still_there_def)
qed

definition other_revision :: string where
  "other_revision = replicate 40 CHR ''b''"

theorem allocation_fresh_witness:
  "fst (allocate_generation [''g''] (JStr other_revision) pruned_disk) = Inr [''g'', other_revision]
   \<and> dict_get (now pruned_disk) [''g'', other_revision] = None"
proof -
  let ?run = "allocate_generation [''g''] (JStr other_revision) pruned_disk"
  have "1 \<le> GENERATION_SUFFIX_MAX" by (simp add: GENERATION_SUFFIX_MAX_def)
  note slots = upto_rec1 [OF this]
  have up: "mkdir_parents [''g''] 493 pruned_disk = (Inr (), pruned_disk)"
  proof -
    have "perform (Mkdir [''g''] 493) (now pruned_disk) = Inl FileExistsError" "is_dir (now pruned_disk) [''g'']" by code_simp+
    moreover have "faults pruned_disk c t = False" for c t by (simp add: pruned_disk_def)
    ultimately show ?thesis by (simp add: mkdir_parents_def mkdir_ok_def bind_def handle_def sys_def gets_def ret_def)
  qed
  have ok: "validate_revision (JStr other_revision) = Inr other_revision" "real_dir (now pruned_disk) [''g'']" by code_simp+
  have "fst (allocate_slot [''g''] other_revision (1 # is) pruned_disk) = Inr [''g'', other_revision]" for "is"
    by code_simp
  then have r: "fst ?run = Inr [''g'', other_revision]"
    using up ok slots by (simp add: allocate_generation_def bind_def lift_res_def gets_def)
  then have "?run = (Inr [''g'', other_revision], snd ?run)" by (metis prod.collapse)
  then show ?thesis using allocation_fresh [of "[''g'']" other_revision pruned_disk] r by blast
qed

end
