(* ===== verification/Spec2Isabelle.thy ===== *)
theory Spec2Isabelle
  imports V2_Guarantees V2_Effective Identity_Model Log_Sanitize Operation_Journal Operation_Lock Guarded_Apply Setup_Config V2_Activation V2_Plan V2_Accelerator V2_Firewalld V2_Nmstate V2_Bundle V2_History V2_Generation
begin

text \<open>
  \<^bold>\<open>The program.\<close> The repository configures a NAS on NixOS. The Python programs under
  \<open>src/services\<close> are its control plane. The operator edits one YAML document, the desired state
  of the Managed Services. A commit of that document is recorded in a Git history
  (\<open>nas_v2_history.py\<close>); the compiler (\<open>nas_v2_spec.py\<close>) reads, validates and normalizes it and
  writes the effective state; from that come the native plan (\<open>nas_v2_plan.py\<close>), the accelerator
  assignment (\<open>nas_v2_accelerator.py\<close>), the firewall projection (\<open>nas_v2_network.py\<close>) and the
  names of on-demand sockets (\<open>nas_v2_activation.py\<close>). All projections of one revision are
  written to a fresh directory, which is sealed and published by one switch of a symbolic link
  (\<open>nas_v2_generation.py\<close>); the apply step (\<open>nas_v2_apply.py\<close>) binds the VLAN trunk of the host and
  replaces the generated files as one bundle, and two reconcilers bring firewalld
  (\<open>nas_v2_firewalld_reconcile.py\<close>) and the host network (\<open>nas_v2_nmstate.py\<close>) in agreement with
  the projection. Risky changes run under a rollback guard (\<open>nas_guarded_apply.py\<close>),
  every state-changing command runs under one appliance lock (\<open>nas_operation_lock.py\<close>) and keeps
  a resumable journal (\<open>nas_operation_journal.py\<close>) whose values are redacted
  (\<open>nas_logging.py\<close>). Identities come from Authentik: \<open>nas_identity_model.py\<close> derives users,
  administrators and the Syncthing configuration (\<open>nas_syncthing_devices.py\<close>), and the resolver of
  \<open>nas_common.py\<close> decides from the compiled authority which groups a capability grants. Setup
  (\<open>nas_setup_config.py\<close>, \<open>nas_setup_first_start.py\<close>, parts of \<open>nas_setup.py\<close>) creates the first
  configuration and the first accounts.

  \<^bold>\<open>Foundations.\<close>

  \<^item> \<open>Py_Prelude\<close>: exceptions as values of \<open>exn\<close>, results \<open>'a res\<close> with sequencing
    (\<open>and_then\<close>) and loops (\<open>check_all\<close>, \<open>fold_res\<close>, \<open>map_res\<close>), ordered dictionaries, the string
    methods of Python on UTF-8 bytes, decimal numerals.
  \<^item> \<open>Py_Json\<close>: the values of \<open>json.loads\<close> with Python's truth, equality and \<open>isinstance\<close> rules.
  \<^item> \<open>Posix_Path\<close>: \<open>PurePosixPath\<close> and the path checks of the compiler.
  \<^item> \<open>Effects\<close>, \<open>File_Tree\<close>: programs that change a state and may raise, with rules for
    invariants (\<open>keeps\<close>) and for pre- and postconditions of both outcomes (\<open>spec\<close>); a file tree
    whose calls can fail at any time and which records every tree it passes through.
  \<^item> \<open>Claim_Registry\<close>, \<open>State_System\<close>: the two shared interfaces, as locales. The first is
    interpreted on the port, path and hostname registries of the validator and on the device
    registry of Syncthing, the second on the guard, the lock and the journal.

  \<^bold>\<open>Components.\<close> Definitions keep the names of the functions they model.

  \<^item> \<open>V2_Document\<close>, \<open>V2_Normalize\<close>, \<open>V2_Routes\<close>, \<open>V2_Graph\<close>, \<open>V2_Semantic\<close>, \<open>V2_Effective\<close> model
    \<open>nas_v2_spec.py\<close> in the order of the pipeline: unfolding the YAML graph, the default-filling
    pass, route paths, cycle detection, the checks of \<open>semantic_validate\<close>, \<open>build_effective\<close> and
    \<open>compile_document\<close>. \<open>V2_Validated\<close> and \<open>V2_Guarantees\<close> say what acceptance means: exclusive
    ports, paths and hostnames, acyclic and satisfiable dependencies, resolved references,
    credentials below their root. \<open>V2_Effective\<close> shows that the strict loader accepts
    everything the compiler emits and that the resolver reads back exactly the declared
    capabilities.
  \<^item> \<open>Common_Policy\<close> models \<open>nas_common.py\<close>: group policy, the strict loader, the resolver (it
    agrees with the loader and grants nothing on malformed state), bounded subprocess capture.
  \<^item> \<open>V2_Plan\<close>, \<open>V2_Activation\<close>, \<open>V2_Accelerator\<close>, \<open>V2_Network\<close>: the projections. The plan has one
    action per service; socket names are distinct and fit the address buffer; a GPU request
    gets pairwise different devices; the firewall projection confines isolated services,
    opens no undeclared port and never locks out the administrator.
  \<^item> \<open>V2_Firewalld\<close>, \<open>V2_Nmstate\<close>: the reconcilers. The first accepts what the network compiler
    emits, issues commands on objects of the appliance only, and makes the permanent
    configuration the projected one; the second removes exactly the interfaces of the
    appliance that are not needed any more.
  \<^item> \<open>V2_Bundle\<close>: the VLAN trunk, stale files and the replacement of a bundle of files, on a
    table of files whose calls fail as a script says. With at most one failing call the
    replacement is all or nothing; without one it succeeds.
  \<^item> \<open>V2_History\<close>: recording, marking, acknowledging and rolling back desired state. A rollback
    lands on an applied revision, spares newer edits and undoes exactly one application.
  \<^item> \<open>V2_Generation\<close>: allocation, sealing, publication, pruning and discarding. Publication is
    atomic under every fault; pruning spares the current generation.
  \<^item> \<open>Guarded_Apply\<close>: the record of a guard as a file, the commands as programs on it, their
    interleaving as a step relation that refines an abstract life cycle; at most one rollback
    runs, and cancellation excludes it.
  \<^item> \<open>Operation_Lock\<close>, \<open>Operation_Journal\<close>, \<open>Log_Sanitize\<close>: mutual exclusion with nested
    operations, a journal that stays well formed and loses no completed step, redaction and
    bounds of recorded values.
  \<^item> \<open>Identity_Model\<close>, \<open>Syncthing_Devices\<close>, \<open>Setup_Config\<close>: the identity model, device
    validation, setup configuration and the account plan, which the identity service accepts
    unchanged.

  \<^bold>\<open>Errors and loops.\<close> Every \<open>raise\<close> is a value; messages are kept up to interpolated values.
  Loops are structural recursion or have a termination proof. The depth 200 and the 200000
  nodes of the YAML reader are the source's own limits, the following of 40 symbolic links is
  the kernel's. No other bound and no fuel is used.

  \<^bold>\<open>Parameters.\<close> Code outside \<open>src\<close> is an argument of the definitions that use it: the YAML
  parser and the schema validator, \<open>Path.resolve\<close>, the content of files, SHA-256, the
  \<open>ipaddress\<close> module, Git (with the laws \<open>lawful\<close>, satisfied by \<open>mini_git\<close>), the group
  database, firewall-cmd, nmstatectl, mkstemp (its names are new and hidden), systemd, the
  clock, process and token identifiers, modification times, and the function or script that
  decides which system call fails.

  \<^bold>\<open>Not modelled.\<close> The programs that only drive other programs or render their formats:
  the part of the apply step that runs the renderers, the argument parsers of the commands,
  Authentik's HTTP client, the Cockpit back end, the state exporter, interactive provisioning,
  the renderers of systemd, Quadlet, Compose, Caddy and libvirt files, sessions, backups and the
  release scripts. Their results depend on third-party programs that the repository calls
  and does not contain.
\<close>

end
